(* ===== verification/Argus_Prelude.thy ===== *)
theory Argus_Prelude
  imports Complex_Main "HOL-Library.Word" "HOL-Library.AList" "HOL-Library.Char_ord"
    "HOL-Library.List_Lexorder" "HOL-Library.Sublist" "HOL-Library.Multiset"
begin

text \<open>
  Shared vocabulary of the development: the Go machine types, the part of Go's standard library
  the program uses (strings, strconv, sort, time, fmt), Go maps as association lists, and the
  generic lemmas and simplification sets the component theories rest on.

  Go strings are byte sequences and are modelled as \<^typ>\<open>string\<close> (a list of 8-bit characters).
  Case mapping and white space are those of ASCII: a byte of 128 or more is not changed by
  \<open>ToLower\<close> and is not white space.
\<close>

named_theorems go_str \<open>characterisations of Go string functions\<close>
named_theorems go_int \<open>facts on Go integers\<close>
named_theorems go_map \<open>facts on Go maps\<close>

section \<open>Machine integers\<close>

type_synonym uint8 = "8 word"
type_synonym uint16 = "16 word"
type_synonym uint32 = "32 word"
type_synonym uint64 = "64 word"

text \<open>
  Go's \<open>int\<close> and \<open>int64\<close> are 64-bit two's complement on the supported targets. They are kept as
  \<^typ>\<open>int\<close> with the wrap-around written out by \<open>to_int64\<close>.
\<close>

definition int64_min :: int where
  "int64_min = - 9223372036854775808"

definition int64_max :: int where
  "int64_max = 9223372036854775807"

definition to_int64 :: "int \<Rightarrow> int" where
  "to_int64 x = (x + 9223372036854775808) mod 18446744073709551616 - 9223372036854775808"

definition in_int64 :: "int \<Rightarrow> bool" where
  "in_int64 x \<longleftrightarrow> int64_min \<le> x \<and> x \<le> int64_max"

definition add_int64 :: "int \<Rightarrow> int \<Rightarrow> int" where
  "add_int64 x y = to_int64 (x + y)"

lemma to_int64_id [simp, go_int]: "in_int64 x \<Longrightarrow> to_int64 x = x"
  by (simp add: to_int64_def in_int64_def int64_min_def int64_max_def)

lemma in_int64_to_int64 [simp, go_int]: "in_int64 (to_int64 x)"
  by (simp add: to_int64_def in_int64_def int64_min_def int64_max_def)

lemma to_int64_idem [simp]: "to_int64 (to_int64 x) = to_int64 x"
  by simp

lemma to_int64_add_left: "to_int64 (to_int64 x + y) = to_int64 (x + y)"
proof -
  have "((x + 9223372036854775808) mod 18446744073709551616 + y) mod 18446744073709551616
      = (x + 9223372036854775808 + y) mod (18446744073709551616 :: int)"
    by (simp add: mod_add_left_eq)
  then show ?thesis by (simp add: to_int64_def algebra_simps)
qed

lemma add_int64_exact [go_int]: "in_int64 (x + y) \<Longrightarrow> add_int64 x y = x + y"
  by (simp add: add_int64_def)

text \<open>A sum kept by repeated \<open>+=\<close> on an \<open>int\<close> wraps once, at the end of the exact sum.\<close>

lemma foldl_add_int64:
  "in_int64 s \<Longrightarrow> foldl (\<lambda>s x. add_int64 s (f x)) s xs = to_int64 (s + sum_list (map f xs))"
proof (induction xs arbitrary: s)
  case (Cons x xs)
  then show ?case
    by (simp add: add_int64_def to_int64_add_left add.assoc)
qed simp

section \<open>Time\<close>

text \<open>
  A \<open>time.Time\<close> is an instant; only the instant matters here, so it is the number of nanoseconds
  since the Unix epoch. The zero value of the type is midnight of 1 January of the year 1.
  \<open>Time.Sub\<close> saturates at the bounds of \<open>Duration\<close>, an \<open>int64\<close> of nanoseconds.
\<close>

type_synonym go_time = int
type_synonym duration = int

definition zero_time :: go_time where
  "zero_time = - 62135596800000000000"

definition is_zero :: "go_time \<Rightarrow> bool" where
  "is_zero t \<longleftrightarrow> t = zero_time"

definition time_sub :: "go_time \<Rightarrow> go_time \<Rightarrow> duration" where
  "time_sub t u = max int64_min (min int64_max (t - u))"

definition unix_nano :: "go_time \<Rightarrow> int" where
  "unix_nano t = to_int64 t"

lemma time_sub_self [simp]: "time_sub t t = 0"
  by (simp add: time_sub_def int64_min_def int64_max_def)

lemma time_sub_gt: "in_int64 w \<Longrightarrow> time_sub t u > w \<Longrightarrow> t - u > w"
  by (auto simp: time_sub_def in_int64_def)

lemma time_sub_gt_iff: "in_int64 w \<Longrightarrow> w < int64_max \<Longrightarrow> time_sub t u > w \<longleftrightarrow> t - u > w"
  by (auto simp: time_sub_def in_int64_def)

lemma time_sub_mono: "t \<le> t' \<Longrightarrow> time_sub t u \<le> time_sub t' u"
  by (simp add: time_sub_def)

section \<open>Strings\<close>

abbreviation byte_of :: "char \<Rightarrow> nat" where
  "byte_of c \<equiv> of_char c"

definition has_prefix :: "string \<Rightarrow> string \<Rightarrow> bool" where
  "has_prefix s p \<longleftrightarrow> take (length p) s = p"

definition has_suffix :: "string \<Rightarrow> string \<Rightarrow> bool" where
  "has_suffix s p \<longleftrightarrow> length p \<le> length s \<and> drop (length s - length p) s = p"

fun str_contains :: "string \<Rightarrow> string \<Rightarrow> bool" where
  "str_contains [] p = (p = [])"
| "str_contains (c # s) p = (has_prefix (c # s) p \<or> str_contains s p)"

lemma has_prefix_prefix [go_str]: "has_prefix s p \<longleftrightarrow> prefix p s"
  unfolding has_prefix_def prefix_def
  by (metis append_eq_conv_conj append_take_drop_id)

lemma has_suffix_suffix [go_str]: "has_suffix s p \<longleftrightarrow> suffix p s"
proof
  assume "has_suffix s p"
  then show "suffix p s"
    unfolding has_suffix_def by (metis suffix_drop)
next
  assume "suffix p s"
  then show "has_suffix s p"
    by (auto simp: has_suffix_def suffix_def)
qed

lemma str_contains_sublist [go_str]: "str_contains s p \<longleftrightarrow> sublist p s"
proof (induction s)
  case Nil
  show ?case by simp
next
  case (Cons c s)
  then show ?case
    by (simp add: has_prefix_prefix sublist_Cons_right)
qed

definition is_upper :: "char \<Rightarrow> bool" where
  "is_upper c \<longleftrightarrow> 65 \<le> byte_of c \<and> byte_of c \<le> 90"

definition is_lower :: "char \<Rightarrow> bool" where
  "is_lower c \<longleftrightarrow> 97 \<le> byte_of c \<and> byte_of c \<le> 122"

definition is_digit :: "char \<Rightarrow> bool" where
  "is_digit c \<longleftrightarrow> 48 \<le> byte_of c \<and> byte_of c \<le> 57"

definition is_space :: "char \<Rightarrow> bool" where
  "is_space c \<longleftrightarrow> byte_of c \<in> {9, 10, 11, 12, 13, 32}"

definition lower_char :: "char \<Rightarrow> char" where
  "lower_char c = (if is_upper c then char_of (byte_of c + 32) else c)"

definition upper_char :: "char \<Rightarrow> char" where
  "upper_char c = (if is_lower c then char_of (byte_of c - 32) else c)"

definition to_lower :: "string \<Rightarrow> string" where
  "to_lower s = map lower_char s"

definition to_upper :: "string \<Rightarrow> string" where
  "to_upper s = map upper_char s"

definition equal_fold :: "string \<Rightarrow> string \<Rightarrow> bool" where
  "equal_fold s t \<longleftrightarrow> to_lower s = to_lower t"

definition trim_left_space :: "string \<Rightarrow> string" where
  "trim_left_space s = dropWhile is_space s"

definition trim_space :: "string \<Rightarrow> string" where
  "trim_space s = rev (dropWhile is_space (rev (dropWhile is_space s)))"

lemma lower_char_idem [simp]: "lower_char (lower_char c) = lower_char c"
proof (cases "is_upper c")
  case True
  then have "byte_of (char_of (byte_of c + 32 :: nat) :: char) = byte_of c + 32"
    by (simp add: is_upper_def)
  then show ?thesis using True by (simp add: lower_char_def is_upper_def)
next
  case False
  then show ?thesis by (simp add: lower_char_def)
qed

lemma to_lower_idem [simp]: "to_lower (to_lower s) = to_lower s"
  by (simp add: to_lower_def)

lemma length_to_lower [simp]: "length (to_lower s) = length s"
  by (simp add: to_lower_def)

lemma to_lower_Nil_iff [simp]: "to_lower s = [] \<longleftrightarrow> s = []"
  by (simp add: to_lower_def)

lemma equal_fold_refl [simp]: "equal_fold s s"
  by (simp add: equal_fold_def)

text \<open>\<open>strings.Split\<close> on a one-byte separator and \<open>strings.Join\<close>.\<close>

fun split_on :: "char \<Rightarrow> string \<Rightarrow> string list" where
  "split_on sep [] = [[]]"
| "split_on sep (c # s) =
     (if c = sep then [] # split_on sep s
      else (case split_on sep s of [] \<Rightarrow> [[c]] | w # ws \<Rightarrow> (c # w) # ws))"

fun join :: "string \<Rightarrow> string list \<Rightarrow> string" where
  "join sep [] = []"
| "join sep [w] = w"
| "join sep (w # v # ws) = w @ sep @ join sep (v # ws)"

lemma split_on_nonempty [simp]: "split_on sep s \<noteq> []"
  by (induction s) (auto split: list.splits)

lemma split_on_no_sep: "w \<in> set (split_on sep s) \<Longrightarrow> sep \<notin> set w"
proof (induction s arbitrary: w)
  case (Cons c s)
  show ?case
  proof (cases "split_on sep s")
    case Nil
    then show ?thesis by simp
  next
    case (Cons v vs)
    then show ?thesis using Cons.prems Cons.IH by (fastforce split: if_splits)
  qed
qed simp

lemma split_on_word: "sep \<notin> set w \<Longrightarrow> split_on sep w = [w]"
  by (induction w) auto

lemma split_on_append:
  "sep \<notin> set w \<Longrightarrow> split_on sep (w @ sep # s) = w # split_on sep s"
  by (induction w) auto

lemma join_split_on: "join [sep] (split_on sep s) = s"
proof (induction s)
  case (Cons c s)
  obtain w ws where ws: "split_on sep s = w # ws"
    by (cases "split_on sep s") auto
  with Cons show ?case by (cases ws) auto
qed simp

text \<open>\<open>strings.IndexByte\<close> and \<open>strings.LastIndexByte\<close>, with \<open>None\<close> for -1.\<close>

fun index_byte :: "string \<Rightarrow> char \<Rightarrow> nat option" where
  "index_byte [] b = None"
| "index_byte (c # s) b = (if c = b then Some 0 else map_option Suc (index_byte s b))"

fun last_index_byte :: "string \<Rightarrow> char \<Rightarrow> nat option" where
  "last_index_byte [] b = None"
| "last_index_byte (c # s) b =
     (case last_index_byte s b of
        Some i \<Rightarrow> Some (Suc i)
      | None \<Rightarrow> (if c = b then Some 0 else None))"

section \<open>Numbers as text\<close>

fun nat_str :: "nat \<Rightarrow> string" where
  "nat_str n = (if n < 10 then [char_of (48 + n)] else nat_str (n div 10) @ [char_of (48 + n mod 10)])"

declare nat_str.simps [simp del]

definition int_str :: "int \<Rightarrow> string" where
  "int_str i = (if i < 0 then CHR ''-'' # nat_str (nat (- i)) else nat_str (nat i))"

definition bool_str :: "bool \<Rightarrow> string" where
  "bool_str b = (if b then ''true'' else ''false'')"

definition word_str :: "'a::len word \<Rightarrow> string" where
  "word_str w = nat_str (unat w)"

definition digit_val :: "char \<Rightarrow> nat" where
  "digit_val c = byte_of c - 48"

definition nat_of_digits :: "string \<Rightarrow> nat" where
  "nat_of_digits s = foldl (\<lambda>n c. 10 * n + digit_val c) 0 s"

lemma of_char_digit: "n < 10 \<Longrightarrow> byte_of (char_of (48 + n :: nat) :: char) = 48 + n"
  by simp

lemma nat_str_nonempty [simp]: "nat_str n \<noteq> []"
  by (subst nat_str.simps) simp

lemma nat_str_digits: "\<forall>c \<in> set (nat_str n). is_digit c"
proof (induction n rule: nat_str.induct)
  case (1 n)
  show ?case
  proof (cases "n < 10")
    case True
    then show ?thesis by (subst nat_str.simps) (simp add: is_digit_def)
  next
    case False
    moreover have "n mod 10 < 10" by simp
    ultimately show ?thesis using 1
      by (subst nat_str.simps) (auto simp: is_digit_def)
  qed
qed

lemma nat_of_digits_snoc: "nat_of_digits (s @ [c]) = 10 * nat_of_digits s + digit_val c"
  by (simp add: nat_of_digits_def)

lemma nat_of_digits_nat_str [simp]: "nat_of_digits (nat_str n) = n"
proof (induction n rule: nat_str.induct)
  case (1 n)
  show ?case
  proof (cases "n < 10")
    case True
    then show ?thesis
      by (subst nat_str.simps) (simp add: nat_of_digits_def digit_val_def)
  next
    case False
    have "nat_of_digits (nat_str n) = 10 * (n div 10) + digit_val (char_of (48 + n mod 10))"
      using 1 False by (subst nat_str.simps) (simp add: nat_of_digits_snoc)
    also have "digit_val (char_of (48 + n mod 10)) = n mod 10"
      by (simp add: digit_val_def)
    finally show ?thesis by simp
  qed
qed

lemma nat_str_inj [simp]: "nat_str m = nat_str n \<longleftrightarrow> m = n"
  by (metis nat_of_digits_nat_str)

lemma word_str_inj [simp]: "word_str (v :: 'a::len word) = word_str w \<longleftrightarrow> v = w"
  by (simp add: word_str_def word_unat_eq_iff)

lemma word_str_nonempty [simp]: "word_str w \<noteq> []"
  by (simp add: word_str_def)

lemma nat_str_no_char: "\<not> is_digit c \<Longrightarrow> c \<notin> set (nat_str n)"
  using nat_str_digits by blast

text \<open>
  \<open>strconv.ParseInt(s, 10, 64)\<close> (and \<open>Atoi\<close>): an optional sign, at least one digit, nothing else, and
  the value in the range of \<open>int64\<close>; \<open>None\<close> is the error.
\<close>

definition parse_int :: "string \<Rightarrow> int option" where
  "parse_int s =
     (let (neg, ds) = (case s of
          [] \<Rightarrow> (False, [])
        | c # cs \<Rightarrow> if c = CHR ''-'' then (True, cs) else if c = CHR ''+'' then (False, cs) else (False, c # cs));
          v = (if neg then - int (nat_of_digits ds) else int (nat_of_digits ds))
      in if ds \<noteq> [] \<and> list_all is_digit ds \<and> in_int64 v then Some v else None)"

definition parse_bool :: "string \<Rightarrow> bool option" where
  "parse_bool s =
     (if s \<in> {''1'', ''t'', ''T'', ''TRUE'', ''true'', ''True''} then Some True
      else if s \<in> {''0'', ''f'', ''F'', ''FALSE'', ''false'', ''False''} then Some False
      else None)"

lemma parse_int_nat_str: "in_int64 (int n) \<Longrightarrow> parse_int (nat_str n) = Some (int n)"
proof -
  assume r: "in_int64 (int n)"
  obtain c cs where c: "nat_str n = c # cs"
    by (cases "nat_str n") auto
  then have d: "is_digit c" using nat_str_digits [of n] by simp
  then have "c \<noteq> CHR ''-''" and "c \<noteq> CHR ''+''" by (auto simp: is_digit_def)
  moreover have "nat_of_digits (c # cs) = n" using c by (metis nat_of_digits_nat_str)
  moreover have "list_all is_digit (c # cs)" using c nat_str_digits [of n] by (simp add: list_all_iff)
  ultimately show ?thesis using c r by (simp add: parse_int_def)
qed

text \<open>\<open>hex.EncodeToString\<close> and the \<open>%q\<close> verb, on ASCII text.\<close>

definition hex_digit :: "nat \<Rightarrow> char" where
  "hex_digit d = (if d < 10 then char_of (48 + d) else char_of (87 + d))"

definition hex_byte :: "uint8 \<Rightarrow> string" where
  "hex_byte b = [hex_digit (unat b div 16), hex_digit (unat b mod 16)]"

definition hex_encode :: "uint8 list \<Rightarrow> string" where
  "hex_encode bs = concat (map hex_byte bs)"

definition quote_char :: "char \<Rightarrow> string" where
  "quote_char c =
     (let n = (of_char c :: nat) in
      if c = CHR 0x22 \<or> c = CHR 0x5C then [CHR 0x5C, c]
      else if n = 7 then [CHR 0x5C, CHR ''a'']
      else if n = 8 then [CHR 0x5C, CHR ''b'']
      else if n = 9 then [CHR 0x5C, CHR ''t'']
      else if n = 10 then [CHR 0x5C, CHR ''n'']
      else if n = 11 then [CHR 0x5C, CHR ''v'']
      else if n = 12 then [CHR 0x5C, CHR ''f'']
      else if n = 13 then [CHR 0x5C, CHR ''r'']
      else if n < 32 \<or> n \<ge> 127 then [CHR 0x5C, CHR ''x'', hex_digit (n div 16), hex_digit (n mod 16)]
      else [c])"

definition quote :: "string \<Rightarrow> string" where
  "quote s = CHR 0x22 # concat (map quote_char s) @ [CHR 0x22]"

section \<open>Sequences\<close>

text \<open>Keeping the first occurrence of each element, as the program's \<open>seen\<close>-map loops do.\<close>

fun dedupe_from :: "'a list \<Rightarrow> 'a list \<Rightarrow> 'a list" where
  "dedupe_from seen [] = []"
| "dedupe_from seen (x # xs) =
     (if x \<in> set seen then dedupe_from seen xs else x # dedupe_from (x # seen) xs)"

lemma set_dedupe_from: "set (dedupe_from seen xs) = set xs - set seen"
  by (induction xs arbitrary: seen) auto

lemma distinct_dedupe_from: "distinct (dedupe_from seen xs)"
  by (induction xs arbitrary: seen) (auto simp: set_dedupe_from)

lemma subseq_dedupe_from: "subseq (dedupe_from seen xs) xs"
proof (induction xs arbitrary: seen)
  case Nil
  show ?case by simp
next
  case (Cons x xs)
  have "subseq (dedupe_from seen xs) (x # xs)"
    by (rule list_emb_Cons [OF Cons])
  moreover have "subseq (x # dedupe_from (x # seen) xs) (x # xs)"
    using Cons by simp
  ultimately show ?case by simp
qed

text \<open>Sequencing of calls that may return an error: the rest runs on the value of a success.\<close>

definition sum_bind :: "'e + 'a \<Rightarrow> ('a \<Rightarrow> 'e + 'b) \<Rightarrow> 'e + 'b" where
  "sum_bind x f = (case x of Inl err \<Rightarrow> Inl err | Inr v \<Rightarrow> f v)"

lemma sum_bind_simps [simp]: "sum_bind (Inl err) f = Inl err" "sum_bind (Inr v) f = f v"
  by (simp_all add: sum_bind_def)

lemma sum_bind_Inr: "sum_bind x f = Inr w \<longleftrightarrow> (\<exists>v. x = Inr v \<and> f v = Inr w)"
  by (cases x) auto

lemma sum_bind_Inl: "sum_bind x f = Inl err \<longleftrightarrow> x = Inl err \<or> (\<exists>v. x = Inr v \<and> f v = Inl err)"
  by (cases x) auto

text \<open>The last \<open>n\<close> elements of a slice: \<open>s[len(s)-n:]\<close>, used to bound retained histories.\<close>

definition keep_last :: "nat \<Rightarrow> 'a list \<Rightarrow> 'a list" where
  "keep_last n xs = (if length xs > n then drop (length xs - n) xs else xs)"

lemma length_keep_last [simp]: "length (keep_last n xs) = min n (length xs)"
  by (simp add: keep_last_def)

lemma suffix_keep_last: "suffix (keep_last n xs) xs"
  by (simp add: keep_last_def suffix_drop)

lemma keep_last_drop: "keep_last n xs = drop (length xs - n) xs"
  by (simp add: keep_last_def)

lemma keep_last_snoc: "keep_last n (keep_last n xs @ [x]) = keep_last n (xs @ [x])"
proof (cases "n \<le> length xs")
  case True
  then show ?thesis by (cases n) (simp_all add: keep_last_drop Suc_diff_Suc)
next
  case False
  then show ?thesis by (simp add: keep_last_def)
qed

lemma keep_last_snoc_last: "0 < n \<Longrightarrow> last (keep_last n (xs @ [x])) = x"
  by (simp add: keep_last_drop)

section \<open>Maps\<close>

text \<open>
  Where the size of a Go map or its iteration matters it is an association list with distinct keys:
  \<^const>\<open>AList.update\<close> stores, \<^const>\<open>AList.delete\<close> deletes, \<^const>\<open>map_of\<close> looks up and
  \<^const>\<open>length\<close> is \<open>len\<close>. Deleting during an iteration is a \<^const>\<open>filter\<close>.
\<close>

type_synonym ('k, 'v) gomap = "('k \<times> 'v) list"

abbreviation wf_map :: "('k, 'v) gomap \<Rightarrow> bool" where
  "wf_map m \<equiv> distinct (map fst m)"

lemma map_of_upd [simp, go_map]: "map_of (AList.update k v m) = (map_of m)(k \<mapsto> v)"
  by (rule update_conv')

lemma map_of_del [simp, go_map]: "map_of (AList.delete k m) = (map_of m)(k := None)"
  by (rule delete_conv')

lemma wf_map_upd [simp, go_map]: "wf_map m \<Longrightarrow> wf_map (AList.update k v m)"
  by (rule distinct_update)

lemma wf_map_del [simp, go_map]: "wf_map m \<Longrightarrow> wf_map (AList.delete k m)"
  by (rule distinct_delete)

lemma wf_map_filter [simp, go_map]: "wf_map m \<Longrightarrow> wf_map (filter P m)"
  by (induction m) auto

lemma map_of_filter [go_map]:
  "wf_map m \<Longrightarrow>
   map_of (filter P m) k = (case map_of m k of None \<Rightarrow> None | Some v \<Rightarrow> if P (k, v) then Some v else None)"
proof (induction m)
  case (Cons kv m)
  obtain k' v' where kv: "kv = (k', v')" by (cases kv)
  show ?case
  proof (cases "k' = k")
    case True
    then have "map_of m k = None" using Cons.prems kv by (auto simp: map_of_eq_None_iff)
    moreover from this have "map_of (filter P m) k = None"
      by (auto simp: map_of_eq_None_iff)
    ultimately show ?thesis using True kv by simp
  next
    case False
    then show ?thesis using Cons kv by simp
  qed
qed simp

lemma map_of_mapval [go_map]:
  "map_of (map (\<lambda>(k, v). (k, f k v)) m) k = map_option (f k) (map_of m k)"
  by (induction m) auto

lemma fst_mapval [simp, go_map]: "map fst (map (\<lambda>(k, v). (k, f k v)) m) = map fst m"
  by (induction m) auto

lemma length_upd: "length (AList.update k v m) = (if k \<in> fst ` set m then length m else Suc (length m))"
  by (induction m) auto

lemma length_upd_le: "length (AList.update k v m) \<le> Suc (length m)"
  by (simp add: length_upd)

lemma length_wf_map: "wf_map m \<Longrightarrow> length m = card (dom (map_of m))"
  by (metis dom_map_of_conv_image_fst distinct_card length_map set_map)

section \<open>Dynamically typed values\<close>

text \<open>
  A value of Go's \<open>any\<close> as the YAML decoder and the field accessors produce it. \<open>AOther\<close> is a value
  of any other dynamic type, of which only its \<open>fmt.Sprint\<close> text can be observed by the program.
  A \<open>float64\<close> is a real number. Non-finite values are not modelled, and rounding only where an integer
  becomes a \<open>float64\<close> and the difference can be seen (\<open>float64_of_int\<close> of the hunts).
\<close>

datatype any =
    ANil
  | ABool bool
  | AInt int
  | AInt64 int
  | AUint32 uint32
  | AFloat real
  | AStr string
  | AList "any list"
  | AOther string

text \<open>
  Library functions whose algorithm is not modelled: regular expression compilation (an invalid
  expression is \<open>None\<close>, a valid one a predicate on strings), the shortest decimal form of a
  \<open>float64\<close> and \<open>strconv.ParseFloat\<close>. Definitions that reach them take them as an argument.
\<close>

record go_lib =
  regexp_compile :: "string \<Rightarrow> (string \<Rightarrow> bool) option"
  format_float :: "real \<Rightarrow> string"
  parse_float :: "string \<Rightarrow> real option"

text \<open>
  An instance of the interface, for evaluating examples: the regular expressions without special
  characters, which match where they occur literally, and no floating-point text.
\<close>

definition literal_lib :: go_lib where
  "literal_lib = \<lparr>
     regexp_compile = (\<lambda>p. if list_all (\<lambda>c. is_lower c \<or> is_digit c) p then Some (\<lambda>s. str_contains s p) else None),
     format_float = (\<lambda>_. ''0''),
     parse_float = (\<lambda>_. None)\<rparr>"

fun sprint :: "go_lib \<Rightarrow> any \<Rightarrow> string" where
  "sprint L ANil = ''<nil>''"
| "sprint L (ABool b) = bool_str b"
| "sprint L (AInt i) = int_str i"
| "sprint L (AInt64 i) = int_str i"
| "sprint L (AUint32 w) = word_str w"
| "sprint L (AFloat r) = format_float L r"
| "sprint L (AStr s) = s"
| "sprint L (AList vs) = ''['' @ join '' '' (map (sprint L) vs) @ '']''"
| "sprint L (AOther s) = s"

text \<open>The conversion \<open>int64(f)\<close> truncates towards zero; out of range it is the least \<open>int64\<close> (amd64).\<close>

definition float_to_int64 :: "real \<Rightarrow> int" where
  "float_to_int64 r =
     (let t = (if r < 0 then - \<lfloor>- r\<rfloor> else \<lfloor>r\<rfloor>) in if in_int64 t then t else int64_min)"

lemma float_to_int64_of_int: "in_int64 i \<Longrightarrow> float_to_int64 (of_int i) = i"
  by (simp add: float_to_int64_def Let_def)

lemma in_int64_float_to_int64 [simp]: "in_int64 (float_to_int64 r)"
  by (simp add: float_to_int64_def Let_def in_int64_def int64_min_def int64_max_def)

end
