(* ===== verification/Event_Model.thy ===== *)
theory Event_Model
  imports Argus_Prelude
begin

text \<open>
  The unified event, alert and incident types of \<^verbatim>\<open>internal/model\<close>: \<^verbatim>\<open>event.go\<close>, \<^verbatim>\<open>fields.go\<close>,
  \<^verbatim>\<open>severity.go\<close>, \<^verbatim>\<open>alert.go\<close> and \<^verbatim>\<open>intel.go\<close>. A record field carries the Go field's name behind a
  prefix for its struct (\<open>p_PID\<close> is \<open>Process.PID\<close>). Nil and empty slices are not distinguished.
  The pointer \<open>Alert.Event\<close> is the event itself: the three places that build an alert (\<open>ToAlert\<close>,
  \<open>intelAlert\<close>, \<open>tamperAlert\<close>) set it, so it is never nil.
\<close>

section \<open>Event types and actions (event.go)\<close>

type_synonym event_type = uint32

abbreviation (input) SchemaVersion :: string where "SchemaVersion \<equiv> ''1.0''"

abbreviation (input) EventExec :: event_type where "EventExec \<equiv> 1"
abbreviation (input) EventFork :: event_type where "EventFork \<equiv> 2"
abbreviation (input) EventExit :: event_type where "EventExit \<equiv> 3"
abbreviation (input) EventOpen :: event_type where "EventOpen \<equiv> 4"
abbreviation (input) EventUnlink :: event_type where "EventUnlink \<equiv> 5"
abbreviation (input) EventRename :: event_type where "EventRename \<equiv> 6"
abbreviation (input) EventChmod :: event_type where "EventChmod \<equiv> 7"
abbreviation (input) EventConnect :: event_type where "EventConnect \<equiv> 8"
abbreviation (input) EventAccept :: event_type where "EventAccept \<equiv> 9"
abbreviation (input) EventExecBlocked :: event_type where "EventExecBlocked \<equiv> 10"
abbreviation (input) EventPtrace :: event_type where "EventPtrace \<equiv> 11"
abbreviation (input) EventKmod :: event_type where "EventKmod \<equiv> 12"
abbreviation (input) EventBPF :: event_type where "EventBPF \<equiv> 13"
abbreviation (input) EventMemfd :: event_type where "EventMemfd \<equiv> 14"
abbreviation (input) EventMmapExec :: event_type where "EventMmapExec \<equiv> 15"
abbreviation (input) EventPrivChange :: event_type where "EventPrivChange \<equiv> 16"
abbreviation (input) EventDNS :: event_type where "EventDNS \<equiv> 17"
abbreviation (input) EventTamper :: event_type where "EventTamper \<equiv> 18"

definition eventActions :: "(event_type, string) gomap" where
  "eventActions =
    [(EventExec, ''exec''), (EventFork, ''fork''), (EventExit, ''exit''), (EventOpen, ''open''),
     (EventUnlink, ''unlink''), (EventRename, ''rename''), (EventChmod, ''chmod''),
     (EventConnect, ''connect''), (EventAccept, ''accept''), (EventExecBlocked, ''exec_blocked''),
     (EventPtrace, ''ptrace''), (EventKmod, ''module_load''), (EventBPF, ''bpf''),
     (EventMemfd, ''memfd_create''), (EventMmapExec, ''mmap_exec''), (EventPrivChange, ''setuid''),
     (EventDNS, ''dns''), (EventTamper, ''tamper'')]"

definition actionTypes :: "(string, event_type) gomap" where
  "actionTypes = map (\<lambda>(t, a). (a, t)) eventActions"

definition Action :: "event_type \<Rightarrow> string" where
  "Action t = (case map_of eventActions t of Some a \<Rightarrow> a | None \<Rightarrow> ''unknown'')"

text \<open>A missing key of a Go map reads as the zero value of its element type.\<close>

definition ParseAction :: "string \<Rightarrow> event_type" where
  "ParseAction a = (case map_of actionTypes a of Some t \<Rightarrow> t | None \<Rightarrow> 0)"

definition KnownActions :: "string list" where
  "KnownActions = sort (map snd eventActions)"

section \<open>The event record (event.go)\<close>

record process =
  p_PID :: uint32
  p_TID :: uint32
  p_PPID :: uint32
  p_Name :: string
  p_Executable :: string
  p_CommandLine :: string
  p_Args :: "string list"
  p_ExitCode :: int
  p_StartTimeNs :: uint64
  p_SHA256 :: string
  p_StdioSocket :: bool
  p_YaraMatches :: "string list"
  p_ParentName :: string
  p_ParentExecutable :: string
  p_Ancestors :: "string list"

record file_info =
  f_Path :: string
  f_Target :: string
  f_Flags :: uint16
  f_Mode :: uint16

record network =
  n_Family :: uint16
  n_SrcIP :: string
  n_SrcPort :: uint16
  n_DstIP :: string
  n_DstPort :: uint16
  n_Domain :: string
  n_GeoCountry :: string

record user =
  u_ID :: uint32
  u_Name :: string

record syscall =
  s_Request :: int
  s_TargetPID :: uint32
  s_NewUID :: uint32

record container =
  c_ID :: string
  c_Runtime :: string

record event =
  e_SchemaVersion :: string
  e_Timestamp :: go_time
  e_MonotonicNs :: uint64
  e_Host :: string
  e_Type :: event_type
  e_Action :: string
  e_CgroupID :: uint64
  e_Ret :: int
  e_Process :: process
  e_User :: user
  e_File :: file_info
  e_Network :: network
  e_Container :: container
  e_Syscall :: syscall
  e_AnomalyScore :: real

text \<open>The zero values of the structs.\<close>

definition zero_process :: process where
  "zero_process = \<lparr>p_PID = 0, p_TID = 0, p_PPID = 0, p_Name = [], p_Executable = [],
     p_CommandLine = [], p_Args = [], p_ExitCode = 0, p_StartTimeNs = 0, p_SHA256 = [],
     p_StdioSocket = False, p_YaraMatches = [], p_ParentName = [], p_ParentExecutable = [],
     p_Ancestors = []\<rparr>"

definition zero_file :: file_info where
  "zero_file = \<lparr>f_Path = [], f_Target = [], f_Flags = 0, f_Mode = 0\<rparr>"

definition zero_network :: network where
  "zero_network = \<lparr>n_Family = 0, n_SrcIP = [], n_SrcPort = 0, n_DstIP = [], n_DstPort = 0,
     n_Domain = [], n_GeoCountry = []\<rparr>"

definition zero_container :: container where
  "zero_container = \<lparr>c_ID = [], c_Runtime = []\<rparr>"

definition zero_syscall :: syscall where
  "zero_syscall = \<lparr>s_Request = 0, s_TargetPID = 0, s_NewUID = 0\<rparr>"

definition zero_user :: user where
  "zero_user = \<lparr>u_ID = 0, u_Name = []\<rparr>"

definition zero_event :: event where
  "zero_event = \<lparr>e_SchemaVersion = [], e_Timestamp = zero_time, e_MonotonicNs = 0, e_Host = [],
     e_Type = 0, e_Action = [], e_CgroupID = 0, e_Ret = 0, e_Process = zero_process,
     e_User = zero_user, e_File = zero_file, e_Network = zero_network,
     e_Container = zero_container, e_Syscall = zero_syscall, e_AnomalyScore = 0\<rparr>"

lemmas zero_defs = zero_event_def zero_process_def zero_file_def zero_network_def
  zero_container_def zero_syscall_def zero_user_def

definition processKey :: "uint32 \<Rightarrow> uint64 \<Rightarrow> string" where
  "processKey pid startTimeNs = word_str pid @ '':'' @ word_str startTimeNs"

definition ProcessKey :: "event \<Rightarrow> string" where
  "ProcessKey e = processKey (p_PID (e_Process e)) (p_StartTimeNs (e_Process e))"

text \<open>\<open>Normalize\<close> runs its three conditional assignments in order; each sees the effect of those before.\<close>

definition Normalize :: "event \<Rightarrow> event" where
  "Normalize e =
     (let e1 = (if e_SchemaVersion e = [] then e\<lparr>e_SchemaVersion := SchemaVersion\<rparr> else e);
          e2 = (if e_Type e1 = 0 \<and> e_Action e1 \<noteq> [] then e1\<lparr>e_Type := ParseAction (e_Action e1)\<rparr> else e1)
      in if e_Action e2 = [] then e2\<lparr>e_Action := Action (e_Type e2)\<rparr> else e2)"

section \<open>Rule-addressable fields (fields.go)\<close>

text \<open>
  An accessor returns a value and whether it is present; an absent field is \<open>None\<close>. Numeric fields
  are \<open>int64\<close>.
\<close>

type_synonym fieldAccessor = "event \<Rightarrow> any option"

definition str_present :: "string \<Rightarrow> any option" where
  "str_present s = (if s \<noteq> [] then Some (AStr s) else None)"

definition word_any :: "'a::len word \<Rightarrow> any" where
  "word_any w = AInt64 (uint w)"

definition word_present :: "'a::len word \<Rightarrow> any option" where
  "word_present w = (if w \<noteq> 0 then Some (word_any w) else None)"

definition fieldAccessors :: "(string, fieldAccessor) gomap" where
  "fieldAccessors =
   [(''event.type'', \<lambda>e. str_present (e_Action e)),
    (''event.action'', \<lambda>e. str_present (e_Action e)),
    (''host.name'', \<lambda>e. str_present (e_Host e)),
    (''process.pid'', \<lambda>e. Some (word_any (p_PID (e_Process e)))),
    (''process.ppid'', \<lambda>e. Some (word_any (p_PPID (e_Process e)))),
    (''process.name'', \<lambda>e. str_present (p_Name (e_Process e))),
    (''process.executable'', \<lambda>e. str_present (p_Executable (e_Process e))),
    (''process.command_line'', \<lambda>e. str_present (p_CommandLine (e_Process e))),
    (''process.stdio_socket'', \<lambda>e. Some (ABool (p_StdioSocket (e_Process e)))),
    (''process.hash.sha256'', \<lambda>e. str_present (p_SHA256 (e_Process e))),
    (''yara.matched'', \<lambda>e. if p_YaraMatches (e_Process e) \<noteq> []
        then Some (AStr (join '','' (p_YaraMatches (e_Process e)))) else None),
    (''process.parent.name'', \<lambda>e. str_present (p_ParentName (e_Process e))),
    (''process.parent.executable'', \<lambda>e. str_present (p_ParentExecutable (e_Process e))),
    (''user.id'', \<lambda>e. Some (word_any (u_ID (e_User e)))),
    (''user.name'', \<lambda>e. str_present (u_Name (e_User e))),
    (''file.path'', \<lambda>e. str_present (f_Path (e_File e))),
    (''file.target'', \<lambda>e. str_present (f_Target (e_File e))),
    (''file.flags'', \<lambda>e. Some (word_any (f_Flags (e_File e)))),
    (''file.mode'', \<lambda>e. Some (word_any (f_Mode (e_File e)))),
    (''source.ip'', \<lambda>e. str_present (n_SrcIP (e_Network e))),
    (''source.port'', \<lambda>e. word_present (n_SrcPort (e_Network e))),
    (''destination.ip'', \<lambda>e. str_present (n_DstIP (e_Network e))),
    (''destination.port'', \<lambda>e. word_present (n_DstPort (e_Network e))),
    (''dns.question.name'', \<lambda>e. str_present (n_Domain (e_Network e))),
    (''container.id'', \<lambda>e. str_present (c_ID (e_Container e))),
    (''container.runtime'', \<lambda>e. str_present (c_Runtime (e_Container e))),
    (''syscall.request'', \<lambda>e. Some (AInt64 (s_Request (e_Syscall e)))),
    (''syscall.target_pid'', \<lambda>e. word_present (s_TargetPID (e_Syscall e))),
    (''syscall.new_uid'', \<lambda>e. Some (word_any (s_NewUID (e_Syscall e)))),
    (''anomaly.score'', \<lambda>e. Some (AInt64 (float_to_int64 (e_AnomalyScore e * 100 + 1/2))))]"

definition Field :: "event \<Rightarrow> string \<Rightarrow> any option" where
  "Field e path = (case map_of fieldAccessors path of Some acc \<Rightarrow> acc e | None \<Rightarrow> None)"

definition KnownField :: "string \<Rightarrow> bool" where
  "KnownField path \<longleftrightarrow> map_of fieldAccessors path \<noteq> None"

definition KnownFields :: "string list" where
  "KnownFields = sort (map fst fieldAccessors)"

section \<open>Severities (severity.go)\<close>

type_synonym severity = int

abbreviation (input) SeverityLow :: severity where "SeverityLow \<equiv> 1"
abbreviation (input) SeverityMedium :: severity where "SeverityMedium \<equiv> 2"
abbreviation (input) SeverityHigh :: severity where "SeverityHigh \<equiv> 3"
abbreviation (input) SeverityCritical :: severity where "SeverityCritical \<equiv> 4"

definition severityNames :: "(severity, string) gomap" where
  "severityNames = [(SeverityLow, ''low''), (SeverityMedium, ''medium''),
     (SeverityHigh, ''high''), (SeverityCritical, ''critical'')]"

definition severity_String :: "severity \<Rightarrow> string" where
  "severity_String s = (case map_of severityNames s of Some n \<Rightarrow> n | None \<Rightarrow> ''unknown'')"

definition severity_MarshalJSON :: "severity \<Rightarrow> string" where
  "severity_MarshalJSON s = CHR 0x22 # severity_String s @ [CHR 0x22]"

text \<open>The loop of \<open>ParseSeverity\<close> returns the first key whose name is the text; \<open>None\<close> is the error.\<close>

fun find_name :: "(severity, string) gomap \<Rightarrow> string \<Rightarrow> severity option" where
  "find_name [] text = None"
| "find_name ((s, n) # m) text = (if n = text then Some s else find_name m text)"

definition ParseSeverity :: "string \<Rightarrow> severity option" where
  "ParseSeverity text = find_name severityNames text"

section \<open>Alerts and incidents (alert.go, intel.go)\<close>

record technique =
  t_ID :: string
  t_Name :: string
  t_Tactic :: string

definition zero_technique :: technique where
  "zero_technique = \<lparr>t_ID = [], t_Name = [], t_Tactic = []\<rparr>"

record response_record =
  rr_Action :: string
  rr_Result :: string

record alert =
  a_Timestamp :: go_time
  a_RuleID :: string
  a_RuleName :: string
  a_Description :: string
  a_Severity :: severity
  a_Technique :: technique
  a_RiskScore :: int
  a_Event :: event
  a_Response :: "response_record option"
  a_RequestedAction :: string

record incident =
  i_ID :: string
  i_Host :: string
  i_ProcessKey :: string
  i_RiskScore :: int
  i_Techniques :: "string list"
  i_RuleIDs :: "string list"
  i_FirstSeen :: go_time
  i_LastSeen :: go_time
  i_Status :: string
  i_Summary :: string

abbreviation (input) IncidentOpen :: string where "IncidentOpen \<equiv> ''open''"

record intel_hit =
  h_Indicator :: string
  h_Type :: string
  h_Field :: string
  h_Source :: string

section \<open>Properties\<close>

lemma word_str_digits: "\<forall>c \<in> set (word_str w). is_digit c"
  by (simp add: word_str_def nat_str_digits)

lemma span_at_sep:
  "sep \<notin> set xs \<Longrightarrow> sep \<notin> set ys \<Longrightarrow> xs @ sep # us = ys @ sep # vs \<longleftrightarrow> xs = ys \<and> us = vs"
proof (induction xs arbitrary: ys)
  case Nil
  then show ?case by (cases ys) auto
next
  case (Cons x xs)
  then show ?case by (cases ys) auto
qed

lemma processKey_inj [simp]: "processKey p s = processKey q t \<longleftrightarrow> p = q \<and> s = t"
proof -
  have "CHR '':'' \<notin> set (word_str p)" and "CHR '':'' \<notin> set (word_str q)"
    using word_str_digits by (fastforce simp: is_digit_def)+
  then show ?thesis
    by (simp add: processKey_def span_at_sep)
qed

lemma wf_eventActions: "wf_map eventActions"
  by (simp add: eventActions_def)

lemma wf_actionTypes: "wf_map actionTypes"
  by (simp add: actionTypes_def eventActions_def)

lemma wf_fieldAccessors: "wf_map fieldAccessors"
  by (simp add: fieldAccessors_def)

lemma KnownField_iff: "KnownField path \<longleftrightarrow> path \<in> set (map fst fieldAccessors)"
  by (simp add: KnownField_def map_of_eq_None_iff)

lemma Field_unknown: "\<not> KnownField path \<Longrightarrow> Field e path = None"
  by (simp add: Field_def KnownField_def)

text \<open>Every accessor yields a string, a boolean or an \<open>int64\<close>: the three cases the operators handle.\<close>

definition field_value :: "any \<Rightarrow> bool" where
  "field_value v \<longleftrightarrow> (\<exists>s. v = AStr s) \<or> (\<exists>b. v = ABool b) \<or> (\<exists>i. v = AInt64 i)"

lemma field_value_simps [simp]:
  "field_value (AStr s)" "field_value (ABool b)" "field_value (AInt64 i)"
  by (auto simp: field_value_def)

lemma accessor_field_value:
  "(path, acc) \<in> set fieldAccessors \<Longrightarrow> acc e = Some v \<Longrightarrow> field_value v"
  by (auto simp: fieldAccessors_def str_present_def word_present_def word_any_def split: if_splits)

lemma Field_value: "Field e path = Some v \<Longrightarrow> field_value v"
  by (auto simp: Field_def split: option.splits dest!: map_of_SomeD intro: accessor_field_value)

lemma Action_known: "(t, a) \<in> set eventActions \<Longrightarrow> Action t = a"
  using wf_eventActions by (simp add: Action_def)

lemma ParseAction_known: "(t, a) \<in> set eventActions \<Longrightarrow> ParseAction a = t"
proof -
  assume "(t, a) \<in> set eventActions"
  then have "(a, t) \<in> set actionTypes" by (force simp: actionTypes_def)
  then show ?thesis using wf_actionTypes by (simp add: ParseAction_def)
qed

lemma ParseAction_zero: "ParseAction a = 0 \<longleftrightarrow> a \<notin> snd ` set eventActions"
proof
  assume z: "ParseAction a = 0"
  show "a \<notin> snd ` set eventActions"
  proof
    assume "a \<in> snd ` set eventActions"
    then obtain t where "(t, a) \<in> set eventActions" by force
    then have "t = 0" using z ParseAction_known by simp
    then show False using \<open>(t, a) \<in> set eventActions\<close> by (simp add: eventActions_def)
  qed
next
  assume "a \<notin> snd ` set eventActions"
  then have "map_of actionTypes a = None"
    by (force simp: map_of_eq_None_iff actionTypes_def)
  then show "ParseAction a = 0" by (simp add: ParseAction_def)
qed

lemma Action_cases: "Action t = ''unknown'' \<or> (t, Action t) \<in> set eventActions"
  by (cases "map_of eventActions t") (auto simp: Action_def dest: map_of_SomeD)

lemma unknown_not_action: "''unknown'' \<notin> snd ` set eventActions"
  by (simp add: eventActions_def)

lemma Action_nonempty: "Action t \<noteq> []"
proof
  assume e: "Action t = []"
  with Action_cases [of t] have "(t, []) \<in> set eventActions" by simp
  then show False by (simp add: eventActions_def)
qed

lemma Action_no_action: "Action 0 = ''unknown''"
  by (simp add: Action_def eventActions_def)

lemma Normalize_Action_nonempty: "e_Action (Normalize e) \<noteq> []"
  by (simp add: Normalize_def Let_def Action_nonempty)

lemma Normalize_fields:
  "e_SchemaVersion (Normalize e) = (if e_SchemaVersion e = [] then SchemaVersion else e_SchemaVersion e)"
  "e_Type (Normalize e) =
     (if e_Type e = 0 \<and> e_Action e \<noteq> [] then ParseAction (e_Action e) else e_Type e)"
  "e_Action (Normalize e) = (if e_Action e = [] then Action (e_Type e) else e_Action e)"
  by (auto simp: Normalize_def Let_def)

lemma Normalize_fixpoint:
  "e_SchemaVersion e \<noteq> [] \<Longrightarrow> e_Action e \<noteq> [] \<Longrightarrow>
   (e_Type e = 0 \<longrightarrow> ParseAction (e_Action e) = 0) \<Longrightarrow> Normalize e = e"
  by (auto simp: Normalize_def Let_def)

lemma ParseAction_unknown: "ParseAction ''unknown'' = 0"
  by (rule ParseAction_zero [THEN iffD2, OF unknown_not_action])

lemma Normalize_idem: "Normalize (Normalize e) = Normalize e"
proof (rule Normalize_fixpoint)
  show "e_SchemaVersion (Normalize e) \<noteq> []"
    by (simp add: Normalize_fields)
  show "e_Action (Normalize e) \<noteq> []"
    by (rule Normalize_Action_nonempty)
  show "e_Type (Normalize e) = 0 \<longrightarrow> ParseAction (e_Action (Normalize e)) = 0"
    by (cases "e_Action e = []") (auto simp: Normalize_fields Action_no_action ParseAction_unknown)
qed

lemma find_name_Some: "find_name m t = Some s \<Longrightarrow> (s, t) \<in> set m"
  by (induction m t rule: find_name.induct) (auto split: if_splits)

lemma ParseSeverity_String: "ParseSeverity t = Some s \<Longrightarrow> severity_String s = t"
  using find_name_Some [of severityNames t s]
  by (auto simp: ParseSeverity_def severity_String_def severityNames_def)

end
