(* ===== verification/Go_Net.thy ===== *)
theory Go_Net
  imports Argus_Prelude
begin

text \<open>
  The part of Go's \<^verbatim>\<open>net\<close> package the program uses: \<open>ParseIP\<close>, \<open>ParseCIDR\<close>, \<open>IPNet.Contains\<close>,
  \<open>IP.To4\<close> and \<open>IP.String\<close>. An \<open>IP\<close> is its byte slice, 4 or 16 bytes long.
\<close>

unbundle bit_operations_syntax

type_synonym ip = "uint8 list"

section \<open>Parsing addresses\<close>

definition parse_octet :: "string \<Rightarrow> uint8 option" where
  "parse_octet s =
     (if s \<noteq> [] \<and> list_all is_digit s \<and> (hd s = CHR ''0'' \<longrightarrow> tl s = []) \<and> nat_of_digits s \<le> 255
      then Some (of_nat (nat_of_digits s)) else None)"

definition parse_ipv4 :: "string \<Rightarrow> ip option" where
  "parse_ipv4 s =
     (case map parse_octet (split_on CHR ''.'' s) of
        [Some a, Some b, Some c, Some d] \<Rightarrow> Some [a, b, c, d]
      | _ \<Rightarrow> None)"

definition hex_val :: "char \<Rightarrow> nat option" where
  "hex_val c =
     (if is_digit c then Some (byte_of c - 48)
      else if 97 \<le> byte_of c \<and> byte_of c \<le> 102 then Some (byte_of c - 87)
      else if 65 \<le> byte_of c \<and> byte_of c \<le> 70 then Some (byte_of c - 55)
      else None)"

definition hex_num :: "string \<Rightarrow> nat" where
  "hex_num s = foldl (\<lambda>n c. 16 * n + the (hex_val c)) 0 s"

definition group_bytes :: "nat \<Rightarrow> ip" where
  "group_bytes n = [of_nat (n div 256), of_nat n]"

text \<open>
  The loop of \<open>parseIPv6\<close>: \<open>acc\<close> holds the bytes parsed so far, \<open>ell\<close> the position of the ellipsis,
  and the first argument the number of 16-bit groups that still fit. The result is the bytes, the
  ellipsis and the unparsed rest.
\<close>

fun parse_groups :: "nat \<Rightarrow> ip \<Rightarrow> nat option \<Rightarrow> string \<Rightarrow> (ip \<times> nat option \<times> string) option" where
  "parse_groups 0 acc ell s = Some (acc, ell, s)"
| "parse_groups (Suc n) acc ell s =
     (let ds = takeWhile (\<lambda>c. hex_val c \<noteq> None) s; rest = drop (length ds) s in
      if length ds > 4 \<or> ds = [] then None
      else if rest \<noteq> [] \<and> hd rest = CHR ''.'' then
        (if ell = None \<and> length acc \<noteq> 12 then None
         else if length acc + 4 > 16 then None
         else (case parse_ipv4 s of None \<Rightarrow> None | Some v4 \<Rightarrow> Some (acc @ v4, ell, [])))
      else
        (let acc' = acc @ group_bytes (hex_num ds) in
         case rest of
           [] \<Rightarrow> Some (acc', ell, [])
         | c # s' \<Rightarrow>
             (if c \<noteq> CHR '':'' \<or> s' = [] then None
              else if hd s' = CHR '':'' then
                (if ell \<noteq> None then None
                 else if tl s' = [] then Some (acc', Some (length acc'), [])
                 else parse_groups n acc' (Some (length acc')) (tl s'))
              else parse_groups n acc' ell s')))"

definition parse_ipv6 :: "string \<Rightarrow> ip option" where
  "parse_ipv6 s =
     (let lead = (take 2 s = ''::''); s0 = (if lead then drop 2 s else s) in
      if lead \<and> s0 = [] then Some (replicate 16 0)
      else
        (case parse_groups 8 [] (if lead then Some 0 else None) s0 of
           None \<Rightarrow> None
         | Some (bs, ell, rest) \<Rightarrow>
             (if rest \<noteq> [] then None
              else if length bs < 16 then
                (case ell of
                   None \<Rightarrow> None
                 | Some k \<Rightarrow> Some (take k bs @ replicate (16 - length bs) 0 @ drop k bs))
              else if ell \<noteq> None then None
              else Some bs)))"

text \<open>
  \<open>netip.ParseAddr\<close>, for which the first of dot, colon or percent sign decides the family, and a
  zone is refused by the callers in package \<^verbatim>\<open>net\<close>.
\<close>

definition parse_addr :: "string \<Rightarrow> ip option" where
  "parse_addr s =
     (case filter (\<lambda>c. c \<in> {CHR ''.'', CHR '':'', CHR ''%''}) s of
        [] \<Rightarrow> None
      | c # _ \<Rightarrow>
          (if c = CHR ''.'' then parse_ipv4 s
           else if c = CHR '':'' \<and> CHR ''%'' \<notin> set s then parse_ipv6 s
           else None))"

definition v4_in_v6_prefix :: ip where
  "v4_in_v6_prefix = [0, 0, 0, 0, 0, 0, 0, 0, 0, 0, 255, 255]"

definition as16 :: "ip \<Rightarrow> ip" where
  "as16 b = (if length b = 4 then v4_in_v6_prefix @ b else b)"

definition ParseIP :: "string \<Rightarrow> ip option" where
  "ParseIP s = map_option as16 (parse_addr s)"

definition To4 :: "ip \<Rightarrow> ip option" where
  "To4 b =
     (if length b = 4 then Some b
      else if length b = 16 \<and> take 12 b = v4_in_v6_prefix then Some (drop 12 b)
      else None)"

section \<open>Networks\<close>

record ipnet =
  net_IP :: ip
  net_Mask :: ip

definition mask_byte :: "nat \<Rightarrow> nat \<Rightarrow> uint8" where
  "mask_byte ones i = (let k = min 8 (ones - 8 * i) in of_nat (256 - 2 ^ (8 - k)))"

definition CIDRMask :: "nat \<Rightarrow> nat \<Rightarrow> ip" where
  "CIDRMask ones bits = map (mask_byte ones) [0..<bits div 8]"

definition and_bytes :: "ip \<Rightarrow> ip \<Rightarrow> ip" where
  "and_bytes a m = map2 (AND) a m"

definition ParseCIDR :: "string \<Rightarrow> ipnet option" where
  "ParseCIDR s =
     (case index_byte s CHR ''/'' of
        None \<Rightarrow> None
      | Some i \<Rightarrow>
          (case parse_addr (take i s) of
             None \<Rightarrow> None
           | Some a \<Rightarrow>
               (let m = drop (Suc i) s; n = nat_of_digits m; bits = 8 * length a in
                if m \<noteq> [] \<and> list_all is_digit m \<and> n \<le> bits
                then Some \<lparr>net_IP = and_bytes a (CIDRMask n bits), net_Mask = CIDRMask n bits\<rparr>
                else None)))"

definition Contains :: "ipnet \<Rightarrow> ip \<Rightarrow> bool" where
  "Contains net b =
     (let nn = (case To4 (net_IP net) of Some x \<Rightarrow> x | None \<Rightarrow> net_IP net);
          m = (if length nn = 4 \<and> length (net_Mask net) = 16 then drop 12 (net_Mask net) else net_Mask net);
          b' = (case To4 b of Some x \<Rightarrow> x | None \<Rightarrow> b)
      in length b' = length nn \<and> length m = length nn \<and> and_bytes nn m = and_bytes b' m)"

section \<open>Printing addresses\<close>

definition ipv4_str :: "ip \<Rightarrow> string" where
  "ipv4_str b = join ''.'' (map word_str b)"

fun hex_str :: "nat \<Rightarrow> string" where
  "hex_str n = (if n < 16 then [hex_digit n] else hex_str (n div 16) @ [hex_digit (n mod 16)])"

declare hex_str.simps [simp del]

fun v6_groups :: "ip \<Rightarrow> nat list" where
  "v6_groups (a # b # bs) = (256 * unat a + unat b) # v6_groups bs"
| "v6_groups _ = []"

definition zero_run :: "nat list \<Rightarrow> nat \<Rightarrow> nat" where
  "zero_run gs i = length (takeWhile (\<lambda>g. g = 0) (drop i gs))"

text \<open>The first longest run of at least two zero groups: its start and its length.\<close>

fun best_run :: "nat list \<Rightarrow> nat list \<Rightarrow> nat \<times> nat \<Rightarrow> nat \<times> nat" where
  "best_run gs [] best = best"
| "best_run gs (i # is) best =
     (let l = zero_run gs i in best_run gs is (if 2 \<le> l \<and> snd best < l then (i, l) else best))"

definition ipv6_str :: "ip \<Rightarrow> string" where
  "ipv6_str b =
     (let gs = v6_groups b; (z, l) = best_run gs [0..<8] (0, 0);
          hex = (\<lambda>xs. join '':'' (map hex_str xs))
      in if l = 0 then hex gs else hex (take z gs) @ ''::'' @ hex (drop (z + l) gs))"

definition ip_String :: "ip \<Rightarrow> string" where
  "ip_String b = (case To4 b of Some x \<Rightarrow> ipv4_str x | None \<Rightarrow> ipv6_str b)"

section \<open>Facts\<close>

lemma nat_str_leading_zero: "hd (nat_str n) = CHR ''0'' \<Longrightarrow> tl (nat_str n) = []"
proof (induction n rule: nat_str.induct)
  case (1 n)
  show ?case
  proof (cases "n < 10")
    case True
    then show ?thesis by (subst nat_str.simps) simp
  next
    case False
    then have eq: "nat_str n = nat_str (n div 10) @ [char_of (48 + n mod 10)]"
      by (subst nat_str.simps) simp
    then have hd0: "hd (nat_str (n div 10)) = CHR ''0''" using "1.prems" by simp
    with False 1 have "tl (nat_str (n div 10)) = []" by blast
    with hd0 have "nat_str (n div 10) = ''0''"
      by (metis hd_Cons_tl nat_str_nonempty)
    then have "n div 10 = nat_of_digits ''0''"
      by (metis nat_of_digits_nat_str)
    then have "n div 10 = 0"
      by (simp add: nat_of_digits_def digit_val_def)
    with False show ?thesis by simp
  qed
qed

lemma parse_octet_word_str [simp]: "parse_octet (word_str (w :: uint8)) = Some w"
proof -
  have "unat w < 2 ^ 8" using unsigned_less [of w] by simp
  then have "unat w \<le> 255" by simp
  then show ?thesis
    by (auto simp: parse_octet_def word_str_def list_all_iff nat_str_digits nat_str_leading_zero)
qed

lemma dot_notin_word_str [simp]: "CHR ''.'' \<notin> set (word_str w)"
  by (simp add: word_str_def nat_str_no_char is_digit_def)

lemma parse_ipv4_str: "parse_ipv4 (ipv4_str [a, b, c, d]) = Some [a, b, c, d]"
  by (simp add: parse_ipv4_def ipv4_str_def split_on_append split_on_word)

lemma filter_word_str:
  "filter (\<lambda>c. c \<in> {CHR ''.'', CHR '':'', CHR ''%''}) (word_str w) = []"
  using nat_str_digits [of "unat w"] by (auto simp: filter_empty_conv word_str_def is_digit_def)

lemma ParseIP_ipv4_str: "ParseIP (ipv4_str [a, b, c, d]) = Some (as16 [a, b, c, d])"
proof -
  have "filter (\<lambda>c. c \<in> {CHR ''.'', CHR '':'', CHR ''%''}) (ipv4_str [a, b, c, d]) = ''...''"
    using filter_word_str [of a] filter_word_str [of b] filter_word_str [of c] filter_word_str [of d]
    by (simp add: ipv4_str_def)
  then show ?thesis
    by (simp add: ParseIP_def parse_addr_def parse_ipv4_str)
qed

lemma To4_as16 [simp]: "length b = 4 \<Longrightarrow> To4 (as16 b) = Some b"
  by (simp add: To4_def as16_def v4_in_v6_prefix_def)

end
