(* ===== verification/Detect_Condition.thy ===== *)
theory Detect_Condition
  imports Event_Model Go_Net
begin

text \<open>
  Rule conditions: \<^verbatim>\<open>internal/detect/condition.go\<close> and \<^verbatim>\<open>internal/detect/operators.go\<close>. A condition is
  validated and compiled once, at load, into a predicate on events; the predicate is what runs on
  the hot path. The theory gives the compiler as the code has it, an independent evaluation
  semantics of the condition tree, and the proof that they agree and that the compiler accepts
  exactly the well-formed trees.
\<close>

section \<open>Condition trees (condition.go)\<close>

text \<open>
  A node holds all the fields of the struct. A child is a pointer, and a YAML null decodes to a nil
  one, so children are options.
\<close>

datatype condition = Condition
  (c_All: "condition option list") (c_Any: "condition option list") (c_Not: "condition option")
  (c_Field: string) (c_Op: string) (c_Value: any)

abbreviation all_cond :: "condition list \<Rightarrow> condition" where
  "all_cond cs \<equiv> Condition (map Some cs) [] None [] [] ANil"

abbreviation any_cond :: "condition list \<Rightarrow> condition" where
  "any_cond cs \<equiv> Condition [] (map Some cs) None [] [] ANil"

abbreviation not_cond :: "condition \<Rightarrow> condition" where
  "not_cond c \<equiv> Condition [] [] (Some c) [] [] ANil"

abbreviation leaf_cond :: "string \<Rightarrow> string \<Rightarrow> any \<Rightarrow> condition" where
  "leaf_cond f op v \<equiv> Condition [] [] None f op v"

type_synonym predicate = "event \<Rightarrow> bool"

datatype compile_error =
    BadShape nat
  | LeafNoField
  | UnknownField string
  | UnknownOperator string
  | NeedsList
  | BadRegex
  | NeedsNumber
  | BadCidr
  | NilPointer

section \<open>Operators (operators.go)\<close>

definition toString :: "go_lib \<Rightarrow> any \<Rightarrow> string" where
  "toString L v = (case v of AStr s \<Rightarrow> s | _ \<Rightarrow> sprint L v)"

definition toBool :: "any \<Rightarrow> bool option" where
  "toBool v = (case v of ABool b \<Rightarrow> Some b | AStr s \<Rightarrow> parse_bool s | _ \<Rightarrow> None)"

definition toInt64 :: "any \<Rightarrow> int option" where
  "toInt64 v = (case v of
       AInt i \<Rightarrow> Some i
     | AInt64 i \<Rightarrow> Some i
     | AUint32 w \<Rightarrow> Some (uint w)
     | AFloat r \<Rightarrow> Some (float_to_int64 r)
     | AStr s \<Rightarrow> parse_int s
     | _ \<Rightarrow> None)"

definition valuesEqual :: "go_lib \<Rightarrow> any \<Rightarrow> any \<Rightarrow> bool" where
  "valuesEqual L actual want = (case actual of
       AStr a \<Rightarrow> a = toString L want
     | ABool a \<Rightarrow> (case toBool want of Some w \<Rightarrow> a = w | None \<Rightarrow> False)
     | AInt64 a \<Rightarrow> (case toInt64 want of Some w \<Rightarrow> a = w | None \<Rightarrow> False)
     | _ \<Rightarrow> sprint L actual = sprint L want)"

definition stringField :: "event \<Rightarrow> string \<Rightarrow> string option" where
  "stringField e field = (case Field e field of
       None \<Rightarrow> None
     | Some actual \<Rightarrow> (case actual of AStr s \<Rightarrow> Some s | _ \<Rightarrow> None))"

definition equality :: "go_lib \<Rightarrow> string \<Rightarrow> any \<Rightarrow> bool \<Rightarrow> predicate" where
  "equality L field want negate = (\<lambda>e. case Field e field of
       None \<Rightarrow> negate
     | Some actual \<Rightarrow> valuesEqual L actual want \<noteq> negate)"

fun member_loop :: "go_lib \<Rightarrow> any \<Rightarrow> any list \<Rightarrow> bool \<Rightarrow> bool" where
  "member_loop L actual [] negate = negate"
| "member_loop L actual (want # list) negate =
     (if valuesEqual L actual want then \<not> negate else member_loop L actual list negate)"

definition membership :: "go_lib \<Rightarrow> string \<Rightarrow> any \<Rightarrow> bool \<Rightarrow> compile_error + predicate" where
  "membership L field value negate = (case value of
       AList list \<Rightarrow> Inr (\<lambda>e. case Field e field of
           None \<Rightarrow> negate
         | Some actual \<Rightarrow> member_loop L actual list negate)
     | _ \<Rightarrow> Inl NeedsList)"

definition stringMatch :: "go_lib \<Rightarrow> string \<Rightarrow> string \<Rightarrow> any \<Rightarrow> compile_error + predicate" where
  "stringMatch L field op value =
     (let want = toString L value in
      Inr (\<lambda>e. case stringField e field of
          None \<Rightarrow> False
        | Some actual \<Rightarrow>
            (if op = ''contains'' then str_contains actual want
             else if op = ''startswith'' then has_prefix actual want
             else has_suffix actual want)))"

definition regexMatch :: "go_lib \<Rightarrow> string \<Rightarrow> any \<Rightarrow> compile_error + predicate" where
  "regexMatch L field value =
     (case regexp_compile L (toString L value) of
        None \<Rightarrow> Inl BadRegex
      | Some expr \<Rightarrow> Inr (\<lambda>e. case stringField e field of None \<Rightarrow> False | Some actual \<Rightarrow> expr actual))"

definition numberCompare :: "string \<Rightarrow> string \<Rightarrow> any \<Rightarrow> compile_error + predicate" where
  "numberCompare field op value =
     (case toInt64 value of
        None \<Rightarrow> Inl NeedsNumber
      | Some want \<Rightarrow> Inr (\<lambda>e. case Field e field of
            None \<Rightarrow> False
          | Some actual \<Rightarrow>
              (case actual of
                 AInt64 n \<Rightarrow>
                   (if op = ''gt'' then n > want
                    else if op = ''lt'' then n < want
                    else if op = ''ge'' then n \<ge> want
                    else n \<le> want)
               | _ \<Rightarrow> False)))"

definition cidrMatch :: "go_lib \<Rightarrow> string \<Rightarrow> any \<Rightarrow> compile_error + predicate" where
  "cidrMatch L field value =
     (case ParseCIDR (toString L value) of
        None \<Rightarrow> Inl BadCidr
      | Some net \<Rightarrow> Inr (\<lambda>e. case stringField e field of
            None \<Rightarrow> False
          | Some actual \<Rightarrow> (case ParseIP actual of None \<Rightarrow> False | Some b \<Rightarrow> Contains net b)))"

definition compileLeaf :: "go_lib \<Rightarrow> string \<Rightarrow> string \<Rightarrow> any \<Rightarrow> compile_error + predicate" where
  "compileLeaf L field op value =
     (if field = [] then Inl LeafNoField
      else if \<not> KnownField field then Inl (UnknownField field)
      else if op = ''exists'' then Inr (\<lambda>e. Field e field \<noteq> None)
      else if op = ''eq'' then Inr (equality L field value False)
      else if op = ''ne'' then Inr (equality L field value True)
      else if op = ''in'' then membership L field value False
      else if op = ''not_in'' then membership L field value True
      else if op = ''contains'' \<or> op = ''startswith'' \<or> op = ''endswith'' then stringMatch L field op value
      else if op = ''regex'' then regexMatch L field value
      else if op = ''gt'' \<or> op = ''lt'' \<or> op = ''ge'' \<or> op = ''le'' then numberCompare field op value
      else if op = ''cidr'' then cidrMatch L field value
      else Inl (UnknownOperator op))"

section \<open>Compilation (condition.go)\<close>

datatype conditionKind = kindLeaf | kindAll | kindAny | kindNot

definition classify :: "condition \<Rightarrow> compile_error + conditionKind" where
  "classify c =
     (let kinds = (if c_All c \<noteq> [] then [kindAll] else [])
                @ (if c_Any c \<noteq> [] then [kindAny] else [])
                @ (if c_Not c \<noteq> None then [kindNot] else [])
                @ (if c_Field c \<noteq> [] \<or> c_Op c \<noteq> [] then [kindLeaf] else [])
      in case kinds of [k] \<Rightarrow> Inr k | _ \<Rightarrow> Inl (BadShape (length kinds)))"

fun evalAll :: "predicate list \<Rightarrow> predicate" where
  "evalAll [] e = True"
| "evalAll (p # ps) e = (if \<not> p e then False else evalAll ps e)"

fun evalAny :: "predicate list \<Rightarrow> predicate" where
  "evalAny [] e = False"
| "evalAny (p # ps) e = (if p e then True else evalAny ps e)"

definition evalNot :: "predicate \<Rightarrow> predicate" where
  "evalNot p e = (\<not> p e)"

text \<open>
  \<open>Compile\<close> leaves the predicate in the node; a parent's evaluation reads the predicates of its
  children. Here the compiled predicate is the result. Compiling a nil child dereferences it.
\<close>

fun Compile :: "go_lib \<Rightarrow> condition \<Rightarrow> compile_error + predicate"
  and Compile_ptr :: "go_lib \<Rightarrow> condition option \<Rightarrow> compile_error + predicate"
  and compileChildren :: "go_lib \<Rightarrow> condition option list \<Rightarrow> compile_error + predicate list" where
  "Compile L (Condition alls anys inner field op value) =
     (case classify (Condition alls anys inner field op value) of
        Inl err \<Rightarrow> Inl err
      | Inr kindAll \<Rightarrow> (case compileChildren L alls of Inl err \<Rightarrow> Inl err | Inr ps \<Rightarrow> Inr (evalAll ps))
      | Inr kindAny \<Rightarrow> (case compileChildren L anys of Inl err \<Rightarrow> Inl err | Inr ps \<Rightarrow> Inr (evalAny ps))
      | Inr kindNot \<Rightarrow> (case Compile_ptr L inner of Inl err \<Rightarrow> Inl err | Inr p \<Rightarrow> Inr (evalNot p))
      | Inr kindLeaf \<Rightarrow> compileLeaf L field op value)"
| "Compile_ptr L None = Inl NilPointer"
| "Compile_ptr L (Some c) = Compile L c"
| "compileChildren L [] = Inr []"
| "compileChildren L (child # children) =
     (case Compile_ptr L child of
        Inl err \<Rightarrow> Inl err
      | Inr p \<Rightarrow> (case compileChildren L children of Inl err \<Rightarrow> Inl err | Inr ps \<Rightarrow> Inr (p # ps)))"

section \<open>What a condition means\<close>

text \<open>
  The meaning of a leaf, stated over the library relations \<^const>\<open>sublist\<close>, \<^const>\<open>prefix\<close> and
  \<^const>\<open>suffix\<close> rather than over the loops of the operators.
\<close>

definition leaf_holds :: "go_lib \<Rightarrow> string \<Rightarrow> string \<Rightarrow> any \<Rightarrow> event \<Rightarrow> bool" where
  "leaf_holds L f op v e =
     (if op = ''exists'' then Field e f \<noteq> None
      else if op = ''eq'' then \<exists>a. Field e f = Some a \<and> valuesEqual L a v
      else if op = ''ne'' then \<not> (\<exists>a. Field e f = Some a \<and> valuesEqual L a v)
      else if op = ''in'' then
        \<exists>a ws. Field e f = Some a \<and> v = AList ws \<and> (\<exists>w \<in> set ws. valuesEqual L a w)
      else if op = ''not_in'' then
        \<not> (\<exists>a ws. Field e f = Some a \<and> v = AList ws \<and> (\<exists>w \<in> set ws. valuesEqual L a w))
      else if op = ''contains'' then \<exists>s. Field e f = Some (AStr s) \<and> sublist (toString L v) s
      else if op = ''startswith'' then \<exists>s. Field e f = Some (AStr s) \<and> prefix (toString L v) s
      else if op = ''endswith'' then \<exists>s. Field e f = Some (AStr s) \<and> suffix (toString L v) s
      else if op = ''regex'' then
        \<exists>s r. Field e f = Some (AStr s) \<and> regexp_compile L (toString L v) = Some r \<and> r s
      else if op = ''gt'' then \<exists>n w. Field e f = Some (AInt64 n) \<and> toInt64 v = Some w \<and> w < n
      else if op = ''lt'' then \<exists>n w. Field e f = Some (AInt64 n) \<and> toInt64 v = Some w \<and> n < w
      else if op = ''ge'' then \<exists>n w. Field e f = Some (AInt64 n) \<and> toInt64 v = Some w \<and> w \<le> n
      else if op = ''le'' then \<exists>n w. Field e f = Some (AInt64 n) \<and> toInt64 v = Some w \<and> n \<le> w
      else
        \<exists>s net b. Field e f = Some (AStr s) \<and> ParseCIDR (toString L v) = Some net \<and>
          ParseIP s = Some b \<and> Contains net b)"

primrec holds :: "go_lib \<Rightarrow> condition \<Rightarrow> event \<Rightarrow> bool" where
  "holds L (Condition alls anys inner f op v) =
     (\<lambda>e. if alls \<noteq> [] then \<forall>h \<in> set (map (map_option (holds L)) alls). \<exists>p. h = Some p \<and> p e
          else if anys \<noteq> [] then \<exists>h \<in> set (map (map_option (holds L)) anys). \<exists>p. h = Some p \<and> p e
          else case map_option (holds L) inner of
                 Some p \<Rightarrow> \<not> p e
               | None \<Rightarrow> leaf_holds L f op v e)"

definition leaf_ok :: "go_lib \<Rightarrow> string \<Rightarrow> string \<Rightarrow> any \<Rightarrow> bool" where
  "leaf_ok L f op v \<longleftrightarrow>
     f \<noteq> [] \<and> KnownField f \<and>
     (op \<in> {''exists'', ''eq'', ''ne'', ''contains'', ''startswith'', ''endswith''} \<or>
      op \<in> {''in'', ''not_in''} \<and> (\<exists>ws. v = AList ws) \<or>
      op = ''regex'' \<and> regexp_compile L (toString L v) \<noteq> None \<or>
      op \<in> {''gt'', ''lt'', ''ge'', ''le''} \<and> toInt64 v \<noteq> None \<or>
      op = ''cidr'' \<and> ParseCIDR (toString L v) \<noteq> None)"

text \<open>A well-formed tree: every node is exactly one of the four kinds, and no child is nil.\<close>

inductive wf_cond :: "go_lib \<Rightarrow> condition \<Rightarrow> bool" for L where
  wf_all: "cs \<noteq> [] \<Longrightarrow> list_all (wf_cond L) cs \<Longrightarrow> wf_cond L (Condition (map Some cs) [] None [] [] v)"
| wf_any: "cs \<noteq> [] \<Longrightarrow> list_all (wf_cond L) cs \<Longrightarrow> wf_cond L (Condition [] (map Some cs) None [] [] v)"
| wf_not: "wf_cond L c \<Longrightarrow> wf_cond L (Condition [] [] (Some c) [] [] v)"
| wf_leaf: "leaf_ok L f op v \<Longrightarrow> wf_cond L (Condition [] [] None f op v)"
  monos list.pred_mono_strong

section \<open>The compiler is correct\<close>

lemma evalAll_iff: "evalAll ps e \<longleftrightarrow> (\<forall>p \<in> set ps. p e)"
  by (induction ps) auto

lemma evalAny_iff: "evalAny ps e \<longleftrightarrow> (\<exists>p \<in> set ps. p e)"
  by (induction ps) auto

lemma member_loop_iff: "member_loop L a ws neg \<longleftrightarrow> (\<exists>w \<in> set ws. valuesEqual L a w) \<noteq> neg"
  by (induction ws) auto

lemma stringField_Some: "stringField e f = Some s \<longleftrightarrow> Field e f = Some (AStr s)"
  by (auto simp: stringField_def split: option.splits any.splits)

lemma stringField_case:
  "(case stringField e f of None \<Rightarrow> False | Some s \<Rightarrow> P s) \<longleftrightarrow> (\<exists>s. Field e f = Some (AStr s) \<and> P s)"
  by (cases "stringField e f") (auto simp: stringField_Some [symmetric])

lemma equality_iff:
  "equality L f v neg e \<longleftrightarrow> (\<exists>a. Field e f = Some a \<and> valuesEqual L a v) \<noteq> neg"
  by (auto simp: equality_def split: option.splits)

lemma membership_Inr:
  "membership L f v neg = Inr p \<longleftrightarrow>
     (\<exists>ws. v = AList ws \<and>
        p = (\<lambda>e. (\<exists>a. Field e f = Some a \<and> (\<exists>w \<in> set ws. valuesEqual L a w)) \<noteq> neg))"
proof -
  have "(case Field e f of None \<Rightarrow> neg | Some a \<Rightarrow> (\<exists>w \<in> set ws. valuesEqual L a w) \<noteq> neg)
      \<longleftrightarrow> (\<exists>a. Field e f = Some a \<and> (\<exists>w \<in> set ws. valuesEqual L a w)) \<noteq> neg" for e ws
    by (cases "Field e f") auto
  then show ?thesis
    unfolding membership_def member_loop_iff by (cases v) auto
qed

lemma stringMatch_Inr:
  "stringMatch L f op v = Inr p \<longleftrightarrow>
     p = (\<lambda>e. \<exists>s. Field e f = Some (AStr s) \<and>
            (if op = ''contains'' then sublist (toString L v) s
             else if op = ''startswith'' then prefix (toString L v) s
             else suffix (toString L v) s))"
  unfolding stringMatch_def Let_def stringField_case by (auto simp: go_str)

lemma regexMatch_Inr:
  "regexMatch L f v = Inr p \<longleftrightarrow>
     (\<exists>r. regexp_compile L (toString L v) = Some r \<and> p = (\<lambda>e. \<exists>s. Field e f = Some (AStr s) \<and> r s))"
  unfolding regexMatch_def stringField_case by (auto split: option.splits)

lemma numberCompare_Inr:
  "numberCompare f op v = Inr p \<longleftrightarrow>
     (\<exists>w. toInt64 v = Some w \<and>
        p = (\<lambda>e. \<exists>n. Field e f = Some (AInt64 n) \<and>
               (if op = ''gt'' then w < n else if op = ''lt'' then n < w
                else if op = ''ge'' then w \<le> n else n \<le> w)))"
proof -
  have "(case Field e f of None \<Rightarrow> False | Some a \<Rightarrow> (case a of AInt64 n \<Rightarrow> P n | _ \<Rightarrow> False))
      \<longleftrightarrow> (\<exists>n. Field e f = Some (AInt64 n) \<and> P n)" for P e
    by (auto split: option.splits any.splits)
  then show ?thesis
    unfolding numberCompare_def by (cases "toInt64 v") (simp_all add: eq_commute [of p])
qed

lemma cidrMatch_Inr:
  "cidrMatch L f v = Inr p \<longleftrightarrow>
     (\<exists>net. ParseCIDR (toString L v) = Some net \<and>
        p = (\<lambda>e. \<exists>s b. Field e f = Some (AStr s) \<and> ParseIP s = Some b \<and> Contains net b))"
proof -
  have "(case stringField e f of None \<Rightarrow> False
         | Some s \<Rightarrow> (case ParseIP s of None \<Rightarrow> False | Some b \<Rightarrow> Contains net b))
      \<longleftrightarrow> (\<exists>s b. Field e f = Some (AStr s) \<and> ParseIP s = Some b \<and> Contains net b)" for e net
    unfolding stringField_case by (auto split: option.splits)
  then show ?thesis
    unfolding cidrMatch_def by (auto split: option.splits)
qed

lemmas operator_facts = membership_Inr stringMatch_Inr regexMatch_Inr numberCompare_Inr cidrMatch_Inr

definition operators :: "string list" where
  "operators = [''exists'', ''eq'', ''ne'', ''contains'', ''startswith'', ''endswith'', ''in'', ''not_in'',
     ''regex'', ''gt'', ''lt'', ''ge'', ''le'', ''cidr'']"


lemma compileLeaf_ok: "(\<exists>p. compileLeaf L f op v = Inr p) \<longleftrightarrow> leaf_ok L f op v"
proof (cases "f \<noteq> [] \<and> KnownField f \<and> op \<in> set operators")
  case True
  then have f: "f \<noteq> []" "KnownField f" and op: "op \<in> set operators"
    by blast+
  from op show ?thesis
    unfolding compileLeaf_def leaf_ok_def operators_def list.set
    by (elim insertE emptyE) (simp_all add: f operator_facts)
next
  case False
  then show ?thesis
    unfolding compileLeaf_def leaf_ok_def operators_def by auto
qed

lemma leaf_ok_operators: "leaf_ok L f op v \<Longrightarrow> f \<noteq> [] \<and> KnownField f \<and> op \<in> set operators"
  unfolding leaf_ok_def operators_def by auto

lemma compileLeaf_holds:
  assumes "compileLeaf L f op v = Inr p"
  shows "p = leaf_holds L f op v"
proof
  fix e
  have f: "f \<noteq> []" "KnownField f" and op: "op \<in> set operators"
    using assms compileLeaf_ok leaf_ok_operators by blast+
  from op assms show "p e = leaf_holds L f op v e"
    unfolding compileLeaf_def leaf_holds_def operators_def list.set
    by (elim insertE emptyE) (simp_all add: f operator_facts, auto simp: equality_iff)
qed

lemma classify_Inr:
  "classify (Condition alls anys inner f op v) = Inr k \<longleftrightarrow>
     k = kindAll \<and> alls \<noteq> [] \<and> anys = [] \<and> inner = None \<and> f = [] \<and> op = [] \<or>
     k = kindAny \<and> alls = [] \<and> anys \<noteq> [] \<and> inner = None \<and> f = [] \<and> op = [] \<or>
     k = kindNot \<and> alls = [] \<and> anys = [] \<and> inner \<noteq> None \<and> f = [] \<and> op = [] \<or>
     k = kindLeaf \<and> alls = [] \<and> anys = [] \<and> inner = None \<and> (f \<noteq> [] \<or> op \<noteq> [])"
  by (auto simp: classify_def)

lemma Compile_ptr_Inr: "Compile_ptr L co = Inr p \<longleftrightarrow> (\<exists>c. co = Some c \<and> Compile L c = Inr p)"
  by (cases co) auto

lemma compileChildren_Inr:
  "compileChildren L cs = Inr ps \<Longrightarrow>
     \<exists>ds. cs = map Some ds \<and> list_all2 (\<lambda>d p. Compile L d = Inr p) ds ps"
proof (induction cs arbitrary: ps)
  case (Cons co cs)
  then obtain c p qs where co: "co = Some c" "Compile L c = Inr p"
    and cs: "compileChildren L cs = Inr qs" and ps: "ps = p # qs"
    by (auto simp: Compile_ptr_Inr split: sum.splits)
  from Cons.IH [OF cs] obtain ds where "cs = map Some ds" "list_all2 (\<lambda>d p. Compile L d = Inr p) ds qs"
    by blast
  with co ps show ?case
    by (intro exI [of _ "c # ds"]) simp
qed simp

lemma compileChildren_map_Some:
  "list_all2 (\<lambda>d p. Compile L d = Inr p) ds ps \<Longrightarrow> compileChildren L (map Some ds) = Inr ps"
  by (induction rule: list_all2_induct) simp_all

lemma Compile_Inr:
  "Compile L (Condition alls anys inner f op v) = Inr p \<longleftrightarrow>
     (\<exists>ps. alls \<noteq> [] \<and> anys = [] \<and> inner = None \<and> f = [] \<and> op = [] \<and>
        compileChildren L alls = Inr ps \<and> p = evalAll ps) \<or>
     (\<exists>ps. alls = [] \<and> anys \<noteq> [] \<and> inner = None \<and> f = [] \<and> op = [] \<and>
        compileChildren L anys = Inr ps \<and> p = evalAny ps) \<or>
     (\<exists>c q. alls = [] \<and> anys = [] \<and> inner = Some c \<and> f = [] \<and> op = [] \<and>
        Compile L c = Inr q \<and> p = evalNot q) \<or>
     alls = [] \<and> anys = [] \<and> inner = None \<and> (f \<noteq> [] \<or> op \<noteq> []) \<and> compileLeaf L f op v = Inr p"
  by (auto simp: Compile_ptr_Inr classify_def split: sum.splits)

text \<open>Induction on a successful compilation: one case per kind of node.\<close>

lemma Compile_induct [consumes 1, case_names All Any Not Leaf]:
  assumes "Compile L c = Inr p"
    and All: "\<And>ds ps v. ds \<noteq> [] \<Longrightarrow> list_all2 P ds ps \<Longrightarrow> P (Condition (map Some ds) [] None [] [] v) (evalAll ps)"
    and Any: "\<And>ds ps v. ds \<noteq> [] \<Longrightarrow> list_all2 P ds ps \<Longrightarrow> P (Condition [] (map Some ds) None [] [] v) (evalAny ps)"
    and Not: "\<And>d q v. P d q \<Longrightarrow> P (Condition [] [] (Some d) [] [] v) (evalNot q)"
    and Leaf: "\<And>f op v q. compileLeaf L f op v = Inr q \<Longrightarrow> P (Condition [] [] None f op v) q"
  shows "P c p"
  using assms(1)
proof (induction c arbitrary: p)
  case (Condition alls anys inner f op v)
  have children: "\<exists>ds. cs = map Some ds \<and> list_all2 P ds ps"
    if cs: "compileChildren L cs = Inr ps" and IH: "\<And>d q. Some d \<in> set cs \<Longrightarrow> Compile L d = Inr q \<Longrightarrow> P d q"
    for cs ps
  proof -
    obtain ds where ds: "cs = map Some ds" "list_all2 (\<lambda>d p. Compile L d = Inr p) ds ps"
      using compileChildren_Inr [OF cs] by blast
    then have "list_all2 P ds ps"
      using IH by (auto simp: list_all2_conv_all_nth)
    with ds show ?thesis
      by blast
  qed
  from Condition.prems consider
      ps where "alls \<noteq> []" "anys = []" "inner = None" "f = []" "op = []" "compileChildren L alls = Inr ps"
        "p = evalAll ps"
    | ps where "alls = []" "anys \<noteq> []" "inner = None" "f = []" "op = []" "compileChildren L anys = Inr ps"
        "p = evalAny ps"
    | d q where "alls = []" "anys = []" "inner = Some d" "f = []" "op = []" "Compile L d = Inr q" "p = evalNot q"
    | "alls = []" "anys = []" "inner = None" "compileLeaf L f op v = Inr p"
    unfolding Compile_Inr by blast
  then show ?case
  proof cases
    case 1
    then obtain ds where "alls = map Some ds" "list_all2 P ds ps"
      using children [of alls ps] Condition.IH(1) by auto
    with 1 show ?thesis
      using All by auto
  next
    case 2
    then obtain ds where "anys = map Some ds" "list_all2 P ds ps"
      using children [of anys ps] Condition.IH(2) by auto
    with 2 show ?thesis
      using Any by auto
  next
    case 3
    then show ?thesis
      using Condition.IH(3) Not by auto
  next
    case 4
    then show ?thesis
      using Leaf by blast
  qed
qed

lemma Compile_eq_holds: "Compile L c = Inr p \<Longrightarrow> p = holds L c"
proof (induction rule: Compile_induct)
  case (All ds ps v)
  then have "ps = map (holds L) ds"
    by (auto intro!: nth_equalityI simp: list_all2_conv_all_nth)
  then show ?case
    using \<open>ds \<noteq> []\<close> by (auto simp: evalAll_iff)
next
  case (Any ds ps v)
  then have "ps = map (holds L) ds"
    by (auto intro!: nth_equalityI simp: list_all2_conv_all_nth)
  then show ?case
    using \<open>ds \<noteq> []\<close> by (auto simp: evalAny_iff)
next
  case (Leaf f op v q)
  then show ?case
    by (auto simp: compileLeaf_holds)
qed (auto simp: evalNot_def)

lemma Compile_imp_wf: "Compile L c = Inr p \<Longrightarrow> wf_cond L c"
proof (induction rule: Compile_induct)
  case (Leaf f op v q)
  then show ?case
    using compileLeaf_ok by (blast intro: wf_leaf)
qed (auto simp: list_all2_conv_all_nth list_all_length intro: wf_cond.intros)

lemma compileChildren_ok:
  "list_all (\<lambda>c. wf_cond L c \<and> (\<exists>p. Compile L c = Inr p)) cs \<Longrightarrow>
     \<exists>ps. compileChildren L (map Some cs) = Inr ps"
  by (induction cs) auto

lemma wf_imp_Compile: "wf_cond L c \<Longrightarrow> \<exists>p. Compile L c = Inr p"
proof (induction rule: wf_cond.induct)
  case (wf_leaf f op v)
  moreover have "f \<noteq> []"
    using wf_leaf by (simp add: leaf_ok_def)
  ultimately show ?case
    using compileLeaf_ok [of L f op v] unfolding Compile_Inr by blast
next
  case (wf_all cs v)
  then show ?case
    using compileChildren_ok [of L cs] unfolding Compile_Inr by auto
next
  case (wf_any cs v)
  then show ?case
    using compileChildren_ok [of L cs] unfolding Compile_Inr by auto
next
  case (wf_not c v)
  then show ?case
    unfolding Compile_Inr by simp
qed

text \<open>
  C1. The condition compiler accepts exactly the well-formed trees (one kind per node, no nil child,
  known field, known operator with an operand of its kind), and the predicate it returns decides
  the meaning of the tree on every event.
\<close>

theorem Compile_correct:
  "case Compile L c of
     Inl err \<Rightarrow> \<not> wf_cond L c
   | Inr p \<Rightarrow> wf_cond L c \<and> (\<forall>e. p e = holds L c e)"
  using Compile_eq_holds [of L c] Compile_imp_wf [of L c] wf_imp_Compile [of L c]
  by (auto split: sum.split)

text \<open>
  The negated operators are complements, on every event and also where the field is absent:
  \<open>ne\<close> holds exactly where \<open>eq\<close> does not, and \<open>not_in\<close> exactly where \<open>in\<close> does not.
\<close>

theorem negated_operators_complement:
  "rel_sum (=) (\<lambda>p q. \<forall>e. q e = (\<not> p e)) (compileLeaf L f ''eq'' v) (compileLeaf L f ''ne'' v) \<and>
   rel_sum (=) (\<lambda>p q. \<forall>e. q e = (\<not> p e)) (compileLeaf L f ''in'' v) (compileLeaf L f ''not_in'' v)"
proof
  show "rel_sum (=) (\<lambda>p q. \<forall>e. q e = (\<not> p e)) (compileLeaf L f ''eq'' v) (compileLeaf L f ''ne'' v)"
    by (simp add: compileLeaf_def equality_iff)
  show "rel_sum (=) (\<lambda>p q. \<forall>e. q e = (\<not> p e)) (compileLeaf L f ''in'' v) (compileLeaf L f ''not_in'' v)"
    by (cases v) (auto simp: compileLeaf_def membership_def member_loop_iff split: option.split)
qed

end
