(* ===== verification/Detect_Correlate.thy ===== *)
theory Detect_Correlate
  imports Event_Model
begin

text \<open>
  The per-process risk correlator, \<^verbatim>\<open>internal/detect/correlate.go\<close>. Risk accumulates per process
  inside a sliding window and an incident opens the first time it crosses the threshold. The theory
  gives the correlator with its bounded map, a reference machine that keeps every process for ever,
  the simulation between them, and what a burst of activity of one process produces.
\<close>

section \<open>State\<close>

definition severityScores :: "(severity, int) gomap" where
  "severityScores = [(SeverityLow, 10), (SeverityMedium, 25), (SeverityHigh, 50), (SeverityCritical, 80)]"

definition maxTrackedProcesses :: nat where
  "maxTrackedProcesses = 16384"

text \<open>The keys of the \<open>techniques\<close> map are what the program reads of it.\<close>

record procState =
  ps_score :: int
  ps_techniques :: "string list"
  ps_ruleIDs :: "string list"
  ps_first :: go_time
  ps_last :: go_time
  ps_opened :: bool

record correlator =
  c_window :: duration
  c_threshold :: int
  c_states :: "(string, procState) gomap"

definition NewCorrelator :: "duration \<Rightarrow> int \<Rightarrow> correlator" where
  "NewCorrelator window threshold = \<lparr>c_window = window, c_threshold = threshold, c_states = []\<rparr>"

section \<open>Operations\<close>

definition scoreOf :: "alert \<Rightarrow> int" where
  "scoreOf al =
     (if a_RiskScore al > 0 then a_RiskScore al
      else case map_of severityScores (a_Severity al) of Some n \<Rightarrow> n | None \<Rightarrow> 0)"

text \<open>\<open>clock\<close> is the reading of the correlator's clock at the call.\<close>

definition eventTime :: "go_time \<Rightarrow> event \<Rightarrow> go_time" where
  "eventTime clock e = (if is_zero (e_Timestamp e) then clock else e_Timestamp e)"

definition sweep :: "go_time \<Rightarrow> correlator \<Rightarrow> correlator" where
  "sweep now c =
     (if length (c_states c) \<le> maxTrackedProcesses then c
      else c\<lparr>c_states := filter (\<lambda>(key, state). \<not> time_sub now (ps_last state) > c_window c) (c_states c)\<rparr>)"

definition fresh_state :: "go_time \<Rightarrow> procState" where
  "fresh_state now = \<lparr>ps_score = 0, ps_techniques = [], ps_ruleIDs = [], ps_first = now, ps_last = now,
     ps_opened = False\<rparr>"

definition stateFor :: "correlator \<Rightarrow> string \<Rightarrow> go_time \<Rightarrow> correlator \<times> procState" where
  "stateFor c key now =
     (let new = (let state = fresh_state now in
                 (sweep now (c\<lparr>c_states := AList.update key state (c_states c)\<rparr>), state))
      in case map_of (c_states c) key of
           None \<Rightarrow> new
         | Some state \<Rightarrow> if time_sub now (ps_last state) > c_window c then new else (c, state))"

definition dedupeStrings :: "string list \<Rightarrow> string list" where
  "dedupeStrings values = dedupe_from [] values"

definition buildIncident :: "event \<Rightarrow> procState \<Rightarrow> incident" where
  "buildIncident e state =
     (let techniques = sort (filter (\<lambda>i. i \<noteq> []) (ps_techniques state)) in
      \<lparr>i_ID = ''INC-'' @ e_Host e @ ''-'' @ int_str (unix_nano (ps_first state)),
       i_Host = e_Host e,
       i_ProcessKey = ProcessKey e,
       i_RiskScore = ps_score state,
       i_Techniques = techniques,
       i_RuleIDs = dedupeStrings (ps_ruleIDs state),
       i_FirstSeen = ps_first state,
       i_LastSeen = ps_last state,
       i_Status = IncidentOpen,
       i_Summary = ''process '' @ p_Name (e_Process e) @ '' (pid '' @ word_str (p_PID (e_Process e))
         @ '') accumulated risk '' @ int_str (ps_score state) @ '' across ''
         @ nat_str (length techniques) @ '' techniques''\<rparr>)"

definition add_alert :: "procState \<Rightarrow> alert \<Rightarrow> procState" where
  "add_alert state al = state
     \<lparr>ps_score := add_int64 (ps_score state) (scoreOf al),
      ps_techniques := List.insert (t_ID (a_Technique al)) (ps_techniques state),
      ps_ruleIDs := ps_ruleIDs state @ [a_RuleID al]\<rparr>"

text \<open>
  The state is a pointer shared with the map, so the updates made after \<open>stateFor\<close> reach the map
  exactly if the key is still there (\<open>sweep\<close> may have removed it when the window is negative).
\<close>

definition write_back :: "string \<Rightarrow> procState \<Rightarrow> correlator \<Rightarrow> correlator" where
  "write_back key state c =
     (if map_of (c_states c) key = None then c
      else c\<lparr>c_states := AList.update key state (c_states c)\<rparr>)"

definition Observe :: "correlator \<Rightarrow> go_time \<Rightarrow> event \<Rightarrow> alert list \<Rightarrow> correlator \<times> incident option" where
  "Observe c clock e alerts =
     (if alerts = [] then (c, None)
      else
        let now = eventTime clock e;
            (c, state) = stateFor c (ProcessKey e) now;
            state = foldl add_alert state alerts;
            state = state\<lparr>ps_last := now\<rparr>
        in if ps_opened state \<or> ps_score state < c_threshold c
           then (write_back (ProcessKey e) state c, None)
           else let state = state\<lparr>ps_opened := True\<rparr>
                in (write_back (ProcessKey e) state c, Some (buildIncident e state)))"

type_synonym observation = "go_time \<times> event \<times> alert list"

fun observe_all :: "correlator \<Rightarrow> observation list \<Rightarrow> correlator \<times> incident option list" where
  "observe_all c [] = (c, [])"
| "observe_all c ((clock, e, alerts) # obs) =
     (let (c', i) = Observe c clock e alerts; (c'', is) = observe_all c' obs in (c'', i # is))"

section \<open>A reference machine\<close>

text \<open>
  One machine per process, with no map and no eviction: the contract the correlator promises its
  callers. A machine restarts when it is seen again after its window.
\<close>

definition process_step ::
  "duration \<Rightarrow> int \<Rightarrow> procState option \<Rightarrow> go_time \<Rightarrow> event \<Rightarrow> alert list \<Rightarrow> procState \<times> incident option" where
  "process_step window threshold s now e alerts =
     (let s0 = (case s of Some st \<Rightarrow> if time_sub now (ps_last st) > window then fresh_state now else st
                        | None \<Rightarrow> fresh_state now);
          s1 = (foldl add_alert s0 alerts)\<lparr>ps_last := now\<rparr>
      in if ps_opened s1 \<or> ps_score s1 < threshold then (s1, None)
         else (s1\<lparr>ps_opened := True\<rparr>, Some (buildIncident e (s1\<lparr>ps_opened := True\<rparr>))))"

fun reference_all ::
  "duration \<Rightarrow> int \<Rightarrow> (string \<rightharpoonup> procState) \<Rightarrow> observation list \<Rightarrow> incident option list" where
  "reference_all window threshold m [] = []"
| "reference_all window threshold m ((clock, e, alerts) # obs) =
     (if alerts = [] then None # reference_all window threshold m obs
      else let (s, i) = process_step window threshold (m (ProcessKey e)) (eventTime clock e) e alerts
           in i # reference_all window threshold (m(ProcessKey e \<mapsto> s)) obs)"

section \<open>The bounded map implements the reference machine\<close>

text \<open>
  \<open>sim\<close> relates the correlator's map to the machines: they agree, except that the map may have lost
  a process whose window had elapsed by the time \<open>now\<close>.
\<close>

definition lost :: "duration \<Rightarrow> go_time \<Rightarrow> procState option \<Rightarrow> bool" where
  "lost window now s \<longleftrightarrow> (\<exists>st. s = Some st \<and> time_sub now (ps_last st) > window)"

definition sim :: "correlator \<Rightarrow> (string \<rightharpoonup> procState) \<Rightarrow> go_time \<Rightarrow> bool" where
  "sim c m now \<longleftrightarrow> wf_map (c_states c) \<and>
     (\<forall>k. map_of (c_states c) k = m k \<or> map_of (c_states c) k = None \<and> lost (c_window c) now (m k))"

lemma lost_mono: "lost w t s \<Longrightarrow> t \<le> t' \<Longrightarrow> lost w t' s"
  using time_sub_mono [of t t'] by (auto simp: lost_def intro: order_less_le_trans)

lemma sim_mono: "sim c m t \<Longrightarrow> t \<le> t' \<Longrightarrow> sim c m t'"
  unfolding sim_def using lost_mono by blast

lemma sweep_fields [simp]:
  "c_window (sweep now c) = c_window c" "c_threshold (sweep now c) = c_threshold c"
  by (simp_all add: sweep_def)

lemma sweep_lookup:
  assumes "wf_map (c_states c)"
  shows "map_of (c_states (sweep now c)) k = map_of (c_states c) k \<or>
         map_of (c_states (sweep now c)) k = None \<and> lost (c_window c) now (map_of (c_states c) k)"
  using assms by (auto simp: sweep_def map_of_filter lost_def split: option.splits)

lemma wf_sweep [simp]: "wf_map (c_states c) \<Longrightarrow> wf_map (c_states (sweep now c))"
  by (simp add: sweep_def)

text \<open>What \<open>stateFor\<close> returns: the current state of the process, or a fresh one.\<close>

definition current :: "duration \<Rightarrow> go_time \<Rightarrow> procState option \<Rightarrow> procState" where
  "current window now s =
     (case s of Some st \<Rightarrow> if time_sub now (ps_last st) > window then fresh_state now else st
              | None \<Rightarrow> fresh_state now)"

lemma current_lost [simp]: "lost w now s \<Longrightarrow> current w now s = fresh_state now"
  by (auto simp: lost_def current_def)

lemma stateFor_state: "snd (stateFor c k now) = current (c_window c) now (map_of (c_states c) k)"
  by (auto simp: stateFor_def current_def Let_def split: option.split)

lemma stateFor_fields [simp]:
  "c_window (fst (stateFor c k now)) = c_window c" "c_threshold (fst (stateFor c k now)) = c_threshold c"
  by (auto simp: stateFor_def Let_def split: option.split)

lemma wf_stateFor [simp]: "wf_map (c_states c) \<Longrightarrow> wf_map (c_states (fst (stateFor c k now)))"
  by (auto simp: stateFor_def Let_def split: option.split)

lemma stateFor_kept:
  assumes "wf_map (c_states c)" "0 \<le> c_window c"
  shows "map_of (c_states (fst (stateFor c k now))) k \<noteq> None"
proof -
  have "map_of (c_states (sweep now (c\<lparr>c_states := AList.update k (fresh_state now) (c_states c)\<rparr>))) k \<noteq> None"
    using sweep_lookup [of "c\<lparr>c_states := AList.update k (fresh_state now) (c_states c)\<rparr>" now k] assms
    by (auto simp: lost_def fresh_state_def)
  then show ?thesis
    by (auto simp: stateFor_def Let_def split: option.split)
qed

lemma stateFor_others:
  assumes "wf_map (c_states c)" "k' \<noteq> k"
  shows "map_of (c_states (fst (stateFor c k now))) k' = map_of (c_states c) k' \<or>
         map_of (c_states (fst (stateFor c k now))) k' = None \<and> lost (c_window c) now (map_of (c_states c) k')"
  using sweep_lookup [of "c\<lparr>c_states := AList.update k (fresh_state now) (c_states c)\<rparr>" now k'] assms
  by (auto simp: stateFor_def Let_def split: option.split)

lemma write_back_lookup:
  "map_of (c_states c) k \<noteq> None \<Longrightarrow> map_of (c_states (write_back k s c)) = (map_of (c_states c))(k \<mapsto> s)"
  by (auto simp: write_back_def)

lemma write_back_fields [simp]:
  "c_window (write_back k s c) = c_window c" "c_threshold (write_back k s c) = c_threshold c"
  "wf_map (c_states c) \<Longrightarrow> wf_map (c_states (write_back k s c))"
  by (simp_all add: write_back_def)

lemma Observe_step:
  assumes "alerts \<noteq> []"
  shows "Observe c clock e alerts =
    (let now = eventTime clock e;
         (s, i) = process_step (c_window c) (c_threshold c) (map_of (c_states c) (ProcessKey e)) now e alerts
     in (write_back (ProcessKey e) s (fst (stateFor c (ProcessKey e) now)), i))"
proof -
  obtain c' st where st: "stateFor c (ProcessKey e) (eventTime clock e) = (c', st)"
    by force
  then have "st = current (c_window c) (eventTime clock e) (map_of (c_states c) (ProcessKey e))"
    "c_threshold c' = c_threshold c"
    using stateFor_state stateFor_fields(2) by (metis snd_conv, metis fst_conv)
  then show ?thesis
    using assms unfolding Observe_def process_step_def current_def [symmetric] by (simp add: st Let_def)
qed

lemma process_step_current:
  "process_step w t s now e alerts = process_step w t (Some (current w now s)) now e alerts"
  by (simp add: process_step_def current_def fresh_state_def Let_def split: option.split)

lemma Observe_sim:
  assumes sim: "sim c m now" and "now \<le> eventTime clock e" "alerts \<noteq> []" "0 \<le> c_window c"
    and ref: "process_step (c_window c) (c_threshold c) (m (ProcessKey e)) (eventTime clock e) e alerts = (s, i)"
  shows "\<exists>c'. Observe c clock e alerts = (c', i) \<and> sim c' (m(ProcessKey e \<mapsto> s)) (eventTime clock e) \<and>
           c_window c' = c_window c \<and> c_threshold c' = c_threshold c"
proof -
  let ?k = "ProcessKey e" and ?now = "eventTime clock e"
  let ?c1 = "fst (stateFor c ?k ?now)"
  have sim': "sim c m ?now"
    using sim_mono sim assms(2) by blast
  then have wf: "wf_map (c_states c)"
    by (simp add: sim_def)
  have "current (c_window c) ?now (map_of (c_states c) ?k) = current (c_window c) ?now (m ?k)"
    using sim' [unfolded sim_def, THEN conjunct2, THEN spec, of ?k] by (auto simp: current_def [of _ _ None])
  then have step: "process_step (c_window c) (c_threshold c) (map_of (c_states c) ?k) ?now e alerts = (s, i)"
    using ref process_step_current [of _ _ "map_of (c_states c) ?k"] process_step_current [of _ _ "m ?k"] by simp
  have "map_of (c_states ?c1) k' = m k' \<or> map_of (c_states ?c1) k' = None \<and> lost (c_window c) ?now (m k')"
    if "k' \<noteq> ?k" for k'
    using stateFor_others [OF wf that, of ?now] sim' [unfolded sim_def, THEN conjunct2, THEN spec, of k'] by auto
  then have "sim (write_back ?k s ?c1) (m(?k \<mapsto> s)) ?now"
    unfolding sim_def write_back_lookup [OF stateFor_kept [OF wf assms(4)]] by (simp add: wf)
  then show ?thesis
    using Observe_step [OF assms(3), of c clock e] step by (simp add: Let_def)
qed

fun ordered_from :: "go_time \<Rightarrow> observation list \<Rightarrow> bool" where
  "ordered_from t [] = True"
| "ordered_from t ((clock, e, alerts) # obs) =
     (if alerts = [] then ordered_from t obs else t \<le> eventTime clock e \<and> ordered_from (eventTime clock e) obs)"

lemma observe_all_sim:
  "sim c m now \<Longrightarrow> 0 \<le> c_window c \<Longrightarrow> ordered_from now obs \<Longrightarrow>
     snd (observe_all c obs) = reference_all (c_window c) (c_threshold c) m obs"
proof (induction obs arbitrary: c m now)
  case (Cons ob obs)
  obtain clock e alerts where ob: "ob = (clock, e, alerts)"
    by (cases ob)
  show ?case
  proof (cases "alerts = []")
    case True
    then show ?thesis
      using Cons.IH [OF Cons.prems(1,2)] Cons.prems(3) ob by (simp add: Observe_def case_prod_beta)
  next
    case False
    obtain s i where ref: "process_step (c_window c) (c_threshold c) (m (ProcessKey e)) (eventTime clock e) e alerts = (s, i)"
      by force
    obtain c' where c': "Observe c clock e alerts = (c', i)" "sim c' (m(ProcessKey e \<mapsto> s)) (eventTime clock e)"
      "c_window c' = c_window c" "c_threshold c' = c_threshold c"
      using Observe_sim [OF Cons.prems(1) _ False Cons.prems(2) ref] Cons.prems(3) ob False by auto
    have "snd (observe_all c' obs) = reference_all (c_window c) (c_threshold c) (m(ProcessKey e \<mapsto> s)) obs"
      using Cons.IH [OF c'(2)] c' Cons.prems ob False by (simp add: fun_upd_def)
    then show ?thesis
      using ob False ref c'(1) by (simp add: case_prod_beta)
  qed
qed simp

section \<open>A burst of one process\<close>

lemma scoreOf_nonneg: "0 \<le> scoreOf al"
  by (auto simp: scoreOf_def severityScores_def)

text \<open>The exact risk of a list of observations, and the rules behind it.\<close>

definition risk :: "observation list \<Rightarrow> int" where
  "risk obs = sum_list (map (\<lambda>(clock, e, alerts). sum_list (map scoreOf alerts)) obs)"

definition rules_of :: "observation list \<Rightarrow> string list" where
  "rules_of obs = concat (map (\<lambda>(clock, e, alerts). map a_RuleID alerts) obs)"

lemma risk_append [simp]: "risk (xs @ ys) = risk xs + risk ys"
  by (simp add: risk_def)

lemma risk_nonneg: "0 \<le> risk obs"
  by (auto simp: risk_def intro!: sum_list_nonneg scoreOf_nonneg)

lemma rules_of_append [simp]: "rules_of (xs @ ys) = rules_of xs @ rules_of ys"
  by (simp add: rules_of_def)

lemma foldl_add_alert:
  "in_int64 (ps_score s) \<Longrightarrow>
     ps_score (foldl add_alert s als) = to_int64 (ps_score s + sum_list (map scoreOf als)) \<and>
     ps_ruleIDs (foldl add_alert s als) = ps_ruleIDs s @ map a_RuleID als \<and>
     ps_first (foldl add_alert s als) = ps_first s \<and>
     ps_opened (foldl add_alert s als) = ps_opened s"
proof (induction als arbitrary: s)
  case (Cons al als)
  then show ?case
    by (simp add: add_alert_def add_int64_def to_int64_add_left add.assoc)
qed simp

lemma buildIncident_fields [simp]:
  "i_RiskScore (buildIncident e s) = ps_score s"
  "i_RuleIDs (buildIncident e s) = dedupeStrings (ps_ruleIDs s)"
  "i_ProcessKey (buildIncident e s) = ProcessKey e"
  "i_Host (buildIncident e s) = e_Host e"
  "i_Techniques (buildIncident e s) = sort (filter (\<lambda>i. i \<noteq> []) (ps_techniques s))"
  by (simp_all add: buildIncident_def Let_def)

text \<open>A burst: every observation is of the process \<open>k\<close>, alerts, and comes within the window of the one before.\<close>

fun burst :: "duration \<Rightarrow> string \<Rightarrow> go_time \<Rightarrow> observation list \<Rightarrow> bool" where
  "burst w k t [] = True"
| "burst w k t ((clock, e, alerts) # obs) =
     (ProcessKey e = k \<and> alerts \<noteq> [] \<and> time_sub (eventTime clock e) t \<le> w \<and> burst w k (eventTime clock e) obs)"

text \<open>
  After a prefix \<open>done\<close> of a burst the machine holds its exact risk, and has opened an incident
  exactly if that risk has reached the threshold.
\<close>

definition tracks :: "int \<Rightarrow> observation list \<Rightarrow> go_time \<Rightarrow> procState \<Rightarrow> bool" where
  "tracks thr past t s \<longleftrightarrow> ps_score s = risk past \<and> ps_ruleIDs s = rules_of past \<and> ps_last s = t \<and>
     ps_opened s = (past \<noteq> [] \<and> thr \<le> risk past)"

definition burst_outcome :: "int \<Rightarrow> observation list \<Rightarrow> observation \<Rightarrow> incident option \<Rightarrow> bool" where
  "burst_outcome thr past ob i \<longleftrightarrow>
     (if (past = [] \<or> risk past < thr) \<and> thr \<le> risk (past @ [ob])
      then \<exists>inc. i = Some inc \<and> i_RiskScore inc = risk (past @ [ob]) \<and>
             i_RuleIDs inc = dedupeStrings (rules_of (past @ [ob])) \<and>
             i_ProcessKey inc = ProcessKey (fst (snd ob))
      else i = None)"

lemma process_step_tracks:
  assumes "tracks thr past t s" "time_sub now t \<le> w" "in_int64 (risk (past @ [(clock, e, alerts)]))"
  shows "tracks thr (past @ [(clock, e, alerts)]) now (fst (process_step w thr (Some s) now e alerts)) \<and>
         burst_outcome thr past (clock, e, alerts) (snd (process_step w thr (Some s) now e alerts))"
proof -
  let ?s = "foldl add_alert s alerts"
  have new: "risk [(clock, e, alerts)] = sum_list (map scoreOf alerts)"
    "rules_of [(clock, e, alerts)] = map a_RuleID alerts"
    by (simp_all add: risk_def rules_of_def)
  have "0 \<le> risk past" "0 \<le> risk [(clock, e, alerts)]"
    by (rule risk_nonneg)+
  then have "in_int64 (risk past)"
    using assms(3) by (auto simp: in_int64_def int64_min_def)
  then have fold: "ps_score ?s = risk (past @ [(clock, e, alerts)])"
    "ps_ruleIDs ?s = rules_of (past @ [(clock, e, alerts)])" "ps_opened ?s = ps_opened s"
    using foldl_add_alert [of s alerts] assms(1,3) by (simp_all add: tracks_def new)
  have step: "process_step w thr (Some s) now e alerts =
      (if ps_opened ?s \<or> ps_score ?s < thr then (?s\<lparr>ps_last := now\<rparr>, None)
       else (?s\<lparr>ps_last := now, ps_opened := True\<rparr>,
             Some (buildIncident e (?s\<lparr>ps_last := now, ps_opened := True\<rparr>))))"
    using assms(1,2) by (simp add: process_step_def tracks_def Let_def)
  show ?thesis
  proof (cases "ps_opened ?s \<or> ps_score ?s < thr")
    case True
    then show ?thesis
      unfolding step using assms(1) \<open>0 \<le> risk [(clock, e, alerts)]\<close> fold
      by (auto simp: tracks_def burst_outcome_def)
  next
    case False
    then show ?thesis
      unfolding step using assms(1) fold by (auto simp: tracks_def burst_outcome_def)
  qed
qed

lemma reference_burst:
  assumes "burst w k t obs" "m k = Some s" "tracks thr past t s" "in_int64 (risk (past @ obs))"
    and "j < length obs"
  shows "burst_outcome thr (past @ take j obs) (obs ! j) (reference_all w thr m obs ! j)"
  using assms
proof (induction obs arbitrary: m s t past j)
  case (Cons ob obs)
  obtain clock e alerts where ob: "ob = (clock, e, alerts)"
    by (cases ob)
  obtain s' i where step: "process_step w thr (Some s) (eventTime clock e) e alerts = (s', i)"
    by force
  have "0 \<le> risk past" "0 \<le> risk obs" "0 \<le> risk [ob]"
    by (rule risk_nonneg)+
  moreover have "risk (past @ ob # obs) = risk past + risk [ob] + risk obs"
    by (simp add: risk_def)
  ultimately have "in_int64 (risk (past @ [ob]))"
    using Cons.prems(4) by (auto simp: in_int64_def int64_min_def)
  then have *: "tracks thr (past @ [ob]) (eventTime clock e) s'" "burst_outcome thr past ob i"
    using process_step_tracks [OF Cons.prems(3)] step Cons.prems(1) by (force simp: ob)+
  have run: "reference_all w thr m (ob # obs) = i # reference_all w thr (m(k \<mapsto> s')) obs"
    using Cons.prems(1,2) step by (simp add: ob)
  show ?case
  proof (cases j)
    case 0
    then show ?thesis
      using *(2) run by simp
  next
    case (Suc j')
    have "burst_outcome thr ((past @ [ob]) @ take j' obs) (obs ! j') (reference_all w thr (m(k \<mapsto> s')) obs ! j')"
      using Cons.IH [OF _ _ *(1), of "m(k \<mapsto> s')" j'] Cons.prems Suc by (simp add: ob fun_upd_def)
    then show ?thesis
      using run Suc by simp
  qed
qed simp

lemma reference_first:
  assumes "burst w k t (ob # obs)" "m k = None" "t = eventTime (fst ob) (fst (snd ob))"
  shows "reference_all w thr m (ob # obs) = reference_all w thr (m(k \<mapsto> fresh_state t)) (ob # obs)"
  using assms process_step_current [of w thr None t]
  by (cases ob) (simp add: current_def)

text \<open>
  C3. The bounded correlator reports exactly what unbounded per-process machines would: on any
  sequence of observations in time order, over any number of processes, evicting elapsed states
  when the map outgrows its bound never changes an incident.
\<close>

theorem Observe_refines_reference:
  assumes "0 \<le> w" "ordered_from t obs"
  shows "snd (observe_all (NewCorrelator w thr) obs) = reference_all w thr Map.empty obs"
  using observe_all_sim [of "NewCorrelator w thr" Map.empty t obs] assms
  by (simp add: sim_def NewCorrelator_def)

text \<open>
  A burst of one process (each alerting event within the window of the one before) opens one
  incident, at the event whose alerts carry the accumulated risk to the threshold, with that exact
  risk and the rules seen so far, and none before or after.
\<close>

theorem burst_opens_one_incident:
  assumes "wf_map (c_states c)" "map_of (c_states c) k = None" "0 \<le> c_window c"
    and "ordered_from t obs" "burst (c_window c) k t obs" "in_int64 (risk obs)" "j < length obs"
    and "t = eventTime (fst (hd obs)) (fst (snd (hd obs)))"
  shows "burst_outcome (c_threshold c) (take j obs) (obs ! j) (snd (observe_all c obs) ! j)"
proof -
  have "snd (observe_all c obs) = reference_all (c_window c) (c_threshold c) (map_of (c_states c)) obs"
    using observe_all_sim [of c "map_of (c_states c)" t obs] assms by (simp add: sim_def)
  also have "\<dots> = reference_all (c_window c) (c_threshold c) ((map_of (c_states c))(k \<mapsto> fresh_state t)) obs"
    using reference_first [of _ k t "hd obs" "tl obs"] assms by (cases obs) auto
  finally have run: "snd (observe_all c obs) =
    reference_all (c_window c) (c_threshold c) ((map_of (c_states c))(k \<mapsto> fresh_state t)) obs" .
  have "tracks (c_threshold c) [] t (fresh_state t)"
    by (simp add: tracks_def risk_def rules_of_def fresh_state_def)
  then show ?thesis
    using reference_burst [OF assms(5), of "(map_of (c_states c))(k \<mapsto> fresh_state t)" "fresh_state t"
      "c_threshold c" "[]" j] assms(6,7)
    unfolding run by simp
qed

section \<open>A concrete run\<close>

text \<open>
  Two events of one process, one minute apart, then one of another process: a medium alert, a high
  one that carries the risk over the threshold of 60, and a low one.
\<close>

definition sample_alert :: "event \<Rightarrow> string \<Rightarrow> severity \<Rightarrow> alert" where
  "sample_alert e r s = \<lparr>a_Timestamp = e_Timestamp e, a_RuleID = r, a_RuleName = r, a_Description = [],
     a_Severity = s, a_Technique = \<lparr>t_ID = ''T1059'', t_Name = [], t_Tactic = []\<rparr>, a_RiskScore = 0,
     a_Event = e, a_Response = None, a_RequestedAction = []\<rparr>"

definition sample_event :: "uint32 \<Rightarrow> go_time \<Rightarrow> event" where
  "sample_event pid t = zero_event\<lparr>e_Timestamp := t, e_Process := zero_process\<lparr>p_PID := pid\<rparr>\<rparr>"

definition sample_burst :: "observation list" where
  "sample_burst =
     [(0, sample_event 7 0, [sample_alert (sample_event 7 0) ''R1'' SeverityMedium]),
      (0, sample_event 7 60, [sample_alert (sample_event 7 60) ''R2'' SeverityHigh])]"

lemmas sample_defs = sample_burst_def sample_event_def sample_alert_def zero_defs ProcessKey_def processKey_def
  eventTime_def is_zero_def zero_time_def risk_def scoreOf_def severityScores_def NewCorrelator_def

theorem Observe_refines_reference_witness:
  "ordered_from 0 sample_burst \<and>
   snd (observe_all (NewCorrelator 300 60) sample_burst) = reference_all 300 60 Map.empty sample_burst"
proof -
  have "ordered_from 0 sample_burst"
    by (simp add: sample_defs)
  then show ?thesis
    using Observe_refines_reference [of 300 0 sample_burst 60] by simp
qed

theorem burst_opens_one_incident_witness:
  "\<exists>inc. snd (observe_all (NewCorrelator 300 60) sample_burst) ! 1 = Some inc \<and> i_RiskScore inc = 75"
proof -
  let ?out = "snd (observe_all (NewCorrelator 300 60) sample_burst) ! 1"
  have risk: "risk (take 1 sample_burst) = 25" "risk sample_burst = 75"
    "risk (take 1 sample_burst @ [sample_burst ! 1]) = 75" "length sample_burst = 2"
    by (simp_all add: sample_defs)
  have "burst 300 (processKey 7 0) 0 sample_burst" "ordered_from 0 sample_burst"
    "eventTime (fst (hd sample_burst)) (fst (snd (hd sample_burst))) = 0"
    by (simp_all add: sample_defs time_sub_def int64_min_def int64_max_def)
  then have "burst_outcome 60 (take 1 sample_burst) (sample_burst ! 1) ?out"
    using burst_opens_one_incident [of "NewCorrelator 300 60" "processKey 7 0" 0 sample_burst 1] risk
    by (simp add: NewCorrelator_def in_int64_def int64_min_def int64_max_def)
  then show ?thesis
    unfolding burst_outcome_def risk by (auto simp: risk(3) [simplified])
qed

end
