(* ===== verification/Detect_Engine.thy ===== *)
theory Detect_Engine
  imports Detect_Condition Detect_Correlate
begin

text \<open>
  Rules, the rule loader and the detection engine: \<^verbatim>\<open>internal/detect/rule.go\<close>, \<^verbatim>\<open>loader.go\<close> and
  \<^verbatim>\<open>engine.go\<close>. The theory shows which directories load and to what, and which alerts an event
  raises.
\<close>

section \<open>Rules (rule.go)\<close>

text \<open>\<open>r_eval\<close> is the predicate that compiling \<open>r_Match\<close> left in the tree, the one \<open>Eval\<close> runs.\<close>

record rule =
  r_ID :: string
  r_Name :: string
  r_Description :: string
  r_Severity :: severity
  r_Technique :: technique
  r_Enabled :: bool
  r_RiskScore :: int
  r_Response :: string
  r_Match :: condition
  r_eval :: predicate

definition Matches :: "rule \<Rightarrow> event \<Rightarrow> bool" where
  "Matches r e \<longleftrightarrow> r_Enabled r \<and> r_eval r e"

definition ToAlert :: "rule \<Rightarrow> event \<Rightarrow> alert" where
  "ToAlert r e = \<lparr>a_Timestamp = e_Timestamp e, a_RuleID = r_ID r, a_RuleName = r_Name r,
     a_Description = r_Description r, a_Severity = r_Severity r, a_Technique = r_Technique r,
     a_RiskScore = r_RiskScore r, a_Event = e, a_Response = None, a_RequestedAction = r_Response r\<rparr>"

section \<open>Loading rules (loader.go)\<close>

record ruleYAML =
  y_ID :: string
  y_Name :: string
  y_Description :: string
  y_Severity :: string
  y_Technique :: technique
  y_Enabled :: "bool option"
  y_RiskScore :: int
  y_Response :: string
  y_Match :: "condition option"

datatype rule_error = MissingID | MissingMatch | BadSeverity string | BadCondition compile_error

datatype load_error =
    ScanFailed
  | ReadFailed string
  | ParseFailed string
  | BadRule string string rule_error
  | DuplicateID string string string
  | NoRules

text \<open>
  The rule directory: \<open>rd_glob\<close> lists the \<open>*.yaml\<close> paths, \<open>rd_read\<close> reads a file and \<open>rd_decode\<close> is
  the strict YAML decoder, each \<open>None\<close> where it fails.
\<close>

record rule_dir =
  rd_glob :: "string list option"
  rd_read :: "string \<Rightarrow> string option"
  rd_decode :: "string \<Rightarrow> ruleYAML list option"

definition compileRule :: "go_lib \<Rightarrow> ruleYAML \<Rightarrow> rule_error + rule" where
  "compileRule L doc =
     (if y_ID doc = [] then Inl MissingID
      else case y_Match doc of
        None \<Rightarrow> Inl MissingMatch
      | Some match \<Rightarrow>
          (case ParseSeverity (y_Severity doc) of
             None \<Rightarrow> Inl (BadSeverity (y_Severity doc))
           | Some severity \<Rightarrow>
               (case Compile L match of
                  Inl err \<Rightarrow> Inl (BadCondition err)
                | Inr eval \<Rightarrow>
                    Inr \<lparr>r_ID = y_ID doc, r_Name = y_Name doc, r_Description = y_Description doc,
                      r_Severity = severity, r_Technique = y_Technique doc,
                      r_Enabled = (case y_Enabled doc of None \<Rightarrow> True | Some b \<Rightarrow> b),
                      r_RiskScore = y_RiskScore doc, r_Response = y_Response doc,
                      r_Match = match, r_eval = eval\<rparr>)))"

fun compile_docs :: "go_lib \<Rightarrow> string \<Rightarrow> ruleYAML list \<Rightarrow> load_error + rule list" where
  "compile_docs L path [] = Inr []"
| "compile_docs L path (doc # docs) =
     (case compileRule L doc of
        Inl err \<Rightarrow> Inl (BadRule path (y_ID doc) err)
      | Inr r \<Rightarrow> (case compile_docs L path docs of Inl err \<Rightarrow> Inl err | Inr rs \<Rightarrow> Inr (r # rs)))"

definition loadFile :: "go_lib \<Rightarrow> rule_dir \<Rightarrow> string \<Rightarrow> load_error + rule list" where
  "loadFile L D path =
     (case rd_read D path of
        None \<Rightarrow> Inl (ReadFailed path)
      | Some data \<Rightarrow>
          (case rd_decode D data of
             None \<Rightarrow> Inl (ParseFailed path)
           | Some docs \<Rightarrow> compile_docs L path docs))"

text \<open>The inner loop: \<open>seen\<close> maps the ids so far to the path they came from.\<close>

fun collect_file ::
  "string \<Rightarrow> rule list \<Rightarrow> (string, string) gomap \<times> rule list \<Rightarrow> load_error + ((string, string) gomap \<times> rule list)"
where
  "collect_file path [] acc = Inr acc"
| "collect_file path (r # rs) (seen, rules) =
     (case map_of seen (r_ID r) of
        Some other \<Rightarrow> Inl (DuplicateID (r_ID r) other path)
      | None \<Rightarrow> collect_file path rs (AList.update (r_ID r) path seen, rules @ [r]))"

fun collect_files ::
  "go_lib \<Rightarrow> rule_dir \<Rightarrow> string list \<Rightarrow> (string, string) gomap \<times> rule list \<Rightarrow> load_error + rule list" where
  "collect_files L D [] (seen, rules) = Inr rules"
| "collect_files L D (path # paths) acc =
     (case loadFile L D path of
        Inl err \<Rightarrow> Inl err
      | Inr fileRules \<Rightarrow>
          (case collect_file path fileRules acc of
             Inl err \<Rightarrow> Inl err
           | Inr acc' \<Rightarrow> collect_files L D paths acc'))"

definition LoadDir :: "go_lib \<Rightarrow> rule_dir \<Rightarrow> load_error + rule list" where
  "LoadDir L D =
     (case rd_glob D of
        None \<Rightarrow> Inl ScanFailed
      | Some paths \<Rightarrow>
          (case collect_files L D paths ([], []) of
             Inl err \<Rightarrow> Inl err
           | Inr rules \<Rightarrow> if rules = [] then Inl NoRules else Inr (sort_key r_ID rules)))"

section \<open>The engine (engine.go)\<close>

record result =
  res_Alerts :: "alert list"
  res_Incident :: "incident option"

text \<open>\<open>en_intel\<close> is the attached \<open>IntelSource\<close>: its \<open>Match\<close> method.\<close>

record engine =
  en_rules :: "rule list"
  en_correlator :: "correlator option"
  en_intel :: "(event \<Rightarrow> intel_hit list) option"

definition NewEngine :: "rule list \<Rightarrow> correlator option \<Rightarrow> engine" where
  "NewEngine rules c = \<lparr>en_rules = rules, en_correlator = c, en_intel = None\<rparr>"

definition SetIntel :: "(event \<Rightarrow> intel_hit list) option \<Rightarrow> engine \<Rightarrow> engine" where
  "SetIntel source en = en\<lparr>en_intel := source\<rparr>"

definition intelAlert :: "event \<Rightarrow> intel_hit \<Rightarrow> alert" where
  "intelAlert e hit = \<lparr>a_Timestamp = e_Timestamp e,
     a_RuleID = ''INTEL-'' @ to_upper (h_Type hit),
     a_RuleName = ''Threat intel match'',
     a_Description = h_Field hit @ '' '' @ quote (h_Indicator hit) @ '' matched an indicator from feed ''
       @ h_Source hit,
     a_Severity = SeverityHigh,
     a_Technique = (if h_Type hit = ''ip'' \<or> h_Type hit = ''domain''
       then \<lparr>t_ID = ''T1071'', t_Name = ''Application Layer Protocol'', t_Tactic = ''command-and-control''\<rparr>
       else zero_technique),
     a_RiskScore = 60, a_Event = e, a_Response = None, a_RequestedAction = []\<rparr>"

fun rule_alerts :: "rule list \<Rightarrow> event \<Rightarrow> alert list \<Rightarrow> alert list" where
  "rule_alerts [] e alerts = alerts"
| "rule_alerts (r # rs) e alerts = rule_alerts rs e (if Matches r e then alerts @ [ToAlert r e] else alerts)"

definition Evaluate :: "engine \<Rightarrow> go_time \<Rightarrow> event \<Rightarrow> engine \<times> result" where
  "Evaluate en clock e =
     (let alerts = rule_alerts (en_rules en) e [];
          alerts = (case en_intel en of None \<Rightarrow> alerts
                    | Some match \<Rightarrow> foldl (\<lambda>as hit. as @ [intelAlert e hit]) alerts (match e))
      in case en_correlator en of
           None \<Rightarrow> (en, \<lparr>res_Alerts = alerts, res_Incident = None\<rparr>)
         | Some c \<Rightarrow>
             let (c', inc) = Observe c clock e alerts
             in (en\<lparr>en_correlator := Some c'\<rparr>, \<lparr>res_Alerts = alerts, res_Incident = inc\<rparr>))"

section \<open>What loads\<close>

lemma compileRule_Inr:
  "compileRule L doc = Inr r \<longleftrightarrow>
     (\<exists>match severity. y_ID doc \<noteq> [] \<and> y_Match doc = Some match \<and> wf_cond L match \<and>
        ParseSeverity (y_Severity doc) = Some severity \<and>
        r = \<lparr>r_ID = y_ID doc, r_Name = y_Name doc, r_Description = y_Description doc,
             r_Severity = severity, r_Technique = y_Technique doc, r_Enabled = (y_Enabled doc \<noteq> Some False),
             r_RiskScore = y_RiskScore doc, r_Response = y_Response doc, r_Match = match,
             r_eval = holds L match\<rparr>)"
proof -
  have compile: "wf_cond L m \<Longrightarrow> Compile L m = Inr (holds L m)" "\<not> wf_cond L m \<Longrightarrow> \<exists>err. Compile L m = Inl err" for m
    using Compile_eq_holds Compile_imp_wf wf_imp_Compile by (blast, metis sum.exhaust)
  have enabled: "(case y_Enabled doc of None \<Rightarrow> True | Some b \<Rightarrow> b) = (y_Enabled doc \<noteq> Some False)"
    by (auto split: option.split)
  show ?thesis
  proof (cases "\<exists>m. y_Match doc = Some m \<and> wf_cond L m")
    case True
    then show ?thesis
      unfolding compileRule_def enabled by (auto simp: compile(1) split: option.split)
  next
    case False
    then show ?thesis
      unfolding compileRule_def using compile(2) [of "the (y_Match doc)"] by (auto split: option.split)
  qed
qed

lemma compile_docs_Inr: "compile_docs L path docs = Inr rs \<longleftrightarrow> list_all2 (\<lambda>doc r. compileRule L doc = Inr r) docs rs"
proof (induction docs arbitrary: rs)
  case Nil
  then show ?case by auto
next
  case (Cons doc docs)
  note IH = this
  show ?case
  proof (cases rs)
    case Nil
    then show ?thesis
      by (auto split: sum.split)
  next
    case (Cons r rs')
    then show ?thesis
      unfolding Cons list.rel_inject using IH [of rs'] by (auto split: sum.split)
  qed
qed

text \<open>The documents of a file, where it can be read and decoded.\<close>

definition file_docs :: "rule_dir \<Rightarrow> string \<Rightarrow> ruleYAML list \<Rightarrow> bool" where
  "file_docs D path docs \<longleftrightarrow> (\<exists>data. rd_read D path = Some data \<and> rd_decode D data = Some docs)"

lemma loadFile_Inr:
  "loadFile L D path = Inr rs \<longleftrightarrow>
     (\<exists>docs. file_docs D path docs \<and> list_all2 (\<lambda>doc r. compileRule L doc = Inr r) docs rs)"
  by (auto simp: loadFile_def file_docs_def compile_docs_Inr split: option.splits)

lemma collect_file_imp:
  "collect_file path rs (seen, rules) = Inr (seen', rules') \<Longrightarrow> dom (map_of seen) = r_ID ` set rules \<Longrightarrow>
     distinct (map r_ID rules) \<Longrightarrow>
     rules' = rules @ rs \<and> distinct (map r_ID rules') \<and> dom (map_of seen') = r_ID ` set rules'"
proof (induction rs arbitrary: seen rules)
  case (Cons r rs)
  then have "map_of seen (r_ID r) = None"
    and rest: "collect_file path rs (AList.update (r_ID r) path seen, rules @ [r]) = Inr (seen', rules')"
    by (auto split: option.splits)
  then have "r_ID r \<notin> r_ID ` set rules"
    using Cons.prems(2) by blast
  then have "dom (map_of (AList.update (r_ID r) path seen)) = r_ID ` set (rules @ [r])"
    "distinct (map r_ID (rules @ [r]))"
    using Cons.prems(2,3) by simp_all
  from Cons.IH [OF rest this] show ?case
    unfolding append_assoc append_Cons append_Nil .
qed simp

lemma collect_file_ok:
  "distinct (map r_ID (rules @ rs)) \<Longrightarrow> dom (map_of seen) = r_ID ` set rules \<Longrightarrow>
     \<exists>acc. collect_file path rs (seen, rules) = Inr acc"
proof (induction rs arbitrary: seen rules)
  case (Cons r rs)
  then have "map_of seen (r_ID r) = None"
    by auto
  then show ?case
    using Cons.IH [of "rules @ [r]" "AList.update (r_ID r) path seen"] Cons.prems
    by (simp del: fun_upd_apply)
qed simp

lemma collect_files_imp:
  "collect_files L D paths (seen, rules) = Inr out \<Longrightarrow> dom (map_of seen) = r_ID ` set rules \<Longrightarrow>
     distinct (map r_ID rules) \<Longrightarrow>
     \<exists>rss. list_all2 (\<lambda>p rs. loadFile L D p = Inr rs) paths rss \<and> out = rules @ concat rss \<and>
       distinct (map r_ID out)"
proof (induction paths arbitrary: seen rules)
  case (Cons p paths)
  obtain rs seen' rules' where rs: "loadFile L D p = Inr rs"
    and acc: "collect_file p rs (seen, rules) = Inr (seen', rules')"
    and rest: "collect_files L D paths (seen', rules') = Inr out"
    using Cons.prems(1) by (auto split: sum.splits)
  obtain rss where "list_all2 (\<lambda>p rs. loadFile L D p = Inr rs) paths rss" "out = rules' @ concat rss"
    "distinct (map r_ID out)"
    using Cons.IH [OF rest] collect_file_imp [OF acc Cons.prems(2,3)] by blast
  then show ?case
    using collect_file_imp [OF acc Cons.prems(2,3)] rs by (intro exI [of _ "rs # rss"]) simp
qed auto

lemma collect_files_ok:
  "list_all2 (\<lambda>p rs. loadFile L D p = Inr rs) paths rss \<Longrightarrow> distinct (map r_ID (rules @ concat rss)) \<Longrightarrow>
     dom (map_of seen) = r_ID ` set rules \<Longrightarrow> collect_files L D paths (seen, rules) = Inr (rules @ concat rss)"
proof (induction arbitrary: seen rules rule: list_all2_induct)
  case (Cons p paths rs rss)
  obtain seen' rules' where acc: "collect_file p rs (seen, rules) = Inr (seen', rules')"
    using collect_file_ok [of rules rs seen p] Cons.prems by (auto simp: Int_Un_distrib)
  then have rules': "rules' = rules @ rs" "dom (map_of seen') = r_ID ` set rules'"
    using collect_file_imp [OF acc] Cons.prems by auto
  have "distinct (map r_ID (rules' @ concat rss))"
    unfolding rules'(1) using Cons.prems(1) by (metis append.assoc concat.simps(2))
  then show ?case
    using Cons.IH [OF _ rules'(2)] Cons.hyps acc by (simp add: rules'(1))
qed simp

text \<open>The rules of a directory, as its documents describe them.\<close>

definition dir_rules :: "go_lib \<Rightarrow> rule_dir \<Rightarrow> ruleYAML list \<Rightarrow> rule list \<Rightarrow> bool" where
  "dir_rules L D docs rules \<longleftrightarrow>
     (\<exists>paths docss. rd_glob D = Some paths \<and> list_all2 (file_docs D) paths docss \<and> docs = concat docss \<and>
        list_all2 (\<lambda>doc r. compileRule L doc = Inr r) docs rules)"

lemma loadFiles_docs:
  assumes "list_all2 (\<lambda>p rs. loadFile L D p = Inr rs) paths rss"
  shows "\<exists>docss. list_all2 (file_docs D) paths docss \<and>
    list_all2 (\<lambda>doc r. compileRule L doc = Inr r) (concat docss) (concat rss)"
  using assms
proof (induction rule: list_all2_induct)
  case (Cons p paths rs rss)
  then obtain docs docss where "file_docs D p docs" "list_all2 (\<lambda>doc r. compileRule L doc = Inr r) docs rs"
    "list_all2 (file_docs D) paths docss"
    "list_all2 (\<lambda>doc r. compileRule L doc = Inr r) (concat docss) (concat rss)"
    unfolding loadFile_Inr by blast
  then show ?case
    by (intro exI [of _ "docs # docss"]) (simp add: list_all2_appendI)
qed simp

lemma docs_loadFiles:
  assumes "list_all2 (file_docs D) paths docss" "list_all2 (\<lambda>doc r. compileRule L doc = Inr r) (concat docss) rules"
  shows "\<exists>rss. list_all2 (\<lambda>p rs. loadFile L D p = Inr rs) paths rss \<and> rules = concat rss"
  using assms
proof (induction arbitrary: rules rule: list_all2_induct)
  case (Cons p paths docs docss)
  then obtain rs rules' where "rules = rs @ rules'" "list_all2 (\<lambda>doc r. compileRule L doc = Inr r) docs rs"
    and rest: "list_all2 (\<lambda>doc r. compileRule L doc = Inr r) (concat docss) rules'"
    by (auto simp: list_all2_append1)
  moreover obtain rss where "list_all2 (\<lambda>p rs. loadFile L D p = Inr rs) paths rss" "rules' = concat rss"
    using Cons.IH [OF rest] by blast
  ultimately show ?case
    using Cons.hyps by (intro exI [of _ "rs # rss"]) (auto simp: loadFile_Inr)
qed simp

lemma LoadDir_Inr:
  "LoadDir L D = Inr out \<longleftrightarrow>
     (\<exists>docs rules. dir_rules L D docs rules \<and> rules \<noteq> [] \<and> distinct (map r_ID rules) \<and> out = sort_key r_ID rules)"
  (is "_ \<longleftrightarrow> ?R")
proof
  assume "LoadDir L D = Inr out"
  then obtain paths rules where "rd_glob D = Some paths" "collect_files L D paths ([], []) = Inr rules"
    "rules \<noteq> []" "out = sort_key r_ID rules"
    by (auto simp: LoadDir_def split: option.splits sum.splits if_splits)
  moreover from this obtain rss where "list_all2 (\<lambda>p rs. loadFile L D p = Inr rs) paths rss"
    "rules = concat rss" "distinct (map r_ID rules)"
    using collect_files_imp [of L D paths "[]" "[]" rules] by auto
  moreover from this obtain docss where "list_all2 (file_docs D) paths docss"
    "list_all2 (\<lambda>doc r. compileRule L doc = Inr r) (concat docss) rules"
    using loadFiles_docs [of L D paths rss] by blast
  ultimately show ?R
    unfolding dir_rules_def by (intro exI [of _ "concat docss"] exI [of _ rules]) auto
next
  assume ?R
  then obtain paths docss rules where *: "rd_glob D = Some paths" "list_all2 (file_docs D) paths docss"
    "list_all2 (\<lambda>doc r. compileRule L doc = Inr r) (concat docss) rules" "rules \<noteq> []"
    "distinct (map r_ID rules)" "out = sort_key r_ID rules"
    unfolding dir_rules_def by blast
  obtain rss where rss: "list_all2 (\<lambda>p rs. loadFile L D p = Inr rs) paths rss" "rules = concat rss"
    using docs_loadFiles [OF *(2,3)] by blast
  then have "collect_files L D paths ([], []) = Inr rules"
    using collect_files_ok [OF rss(1), of "[]" "[]"] *(5) by simp
  then show "LoadDir L D = Inr out"
    using * by (simp add: LoadDir_def)
qed

section \<open>What fires\<close>

lemma foldl_snoc: "foldl (\<lambda>ys x. ys @ [f x]) ys xs = ys @ map f xs"
  by (induction xs arbitrary: ys) auto

lemma rule_alerts_eq: "rule_alerts rs e als = als @ map (\<lambda>r. ToAlert r e) (filter (\<lambda>r. Matches r e) rs)"
  by (induction rs arbitrary: als) auto

lemma Evaluate_alerts:
  "res_Alerts (snd (Evaluate en clock e)) =
     map (\<lambda>r. ToAlert r e) (filter (\<lambda>r. Matches r e) (en_rules en)) @
     (case en_intel en of None \<Rightarrow> [] | Some match \<Rightarrow> map (intelAlert e) (match e))"
  by (auto simp: Evaluate_def rule_alerts_eq foldl_snoc case_prod_beta Let_def split: option.split)

lemma Evaluate_incident:
  "res_Incident (snd (Evaluate en clock e)) =
     (case en_correlator en of None \<Rightarrow> None
      | Some c \<Rightarrow> snd (Observe c clock e (res_Alerts (snd (Evaluate en clock e)))))"
  by (auto simp: Evaluate_def case_prod_beta Let_def split: option.split)

lemma Evaluate_rules [simp]: "en_rules (fst (Evaluate en clock e)) = en_rules en"
  "en_intel (fst (Evaluate en clock e)) = en_intel en"
  by (auto simp: Evaluate_def case_prod_beta Let_def split: option.split)

text \<open>The documents a directory should fire on an event.\<close>

definition doc_fires :: "go_lib \<Rightarrow> event \<Rightarrow> ruleYAML \<Rightarrow> bool" where
  "doc_fires L e doc \<longleftrightarrow> y_Enabled doc \<noteq> Some False \<and> (\<exists>m. y_Match doc = Some m \<and> holds L m e)"

lemma compileRule_Matches: "compileRule L doc = Inr r \<Longrightarrow> Matches r e = doc_fires L e doc \<and> r_ID r = y_ID doc"
  by (auto simp: compileRule_Inr Matches_def doc_fires_def)

lemma fired_ids:
  "list_all2 (\<lambda>doc r. compileRule L doc = Inr r) docs rules \<Longrightarrow>
     map r_ID (filter (\<lambda>r. Matches r e) rules) = map y_ID (filter (doc_fires L e) docs)"
  by (induction rule: list_all2_induct) (auto simp: compileRule_Matches)

lemma map_filter_sort_key: "map f (filter P (sort_key f xs)) = sort (map f (filter P xs))"
proof (rule properties_for_sort [symmetric])
  show "mset (map f (filter P (sort_key f xs))) = mset (map f (filter P xs))"
    by (simp add: mset_filter)
  show "sorted (map f (filter P (sort_key f xs)))"
    by (rule sorted_filter) simp
qed

lemma list_all2_functional:
  assumes "\<And>x y z. R x y \<Longrightarrow> R x z \<Longrightarrow> y = z" and "list_all2 R xs ys" "list_all2 R xs zs"
  shows "ys = zs"
  using assms(2,3)
proof (induction arbitrary: zs rule: list_all2_induct)
  case (Cons x xs y ys)
  then obtain z zs' where "zs = z # zs'" "R x z" "list_all2 R xs zs'"
    by (auto simp: list_all2_Cons1)
  then show ?case
    using Cons assms(1) [of x y z] by simp
qed simp

lemma dir_rules_unique:
  assumes "dir_rules L D docs rules" "dir_rules L D docs' rules'"
  shows "docs = docs' \<and> rules = rules'"
proof -
  have files: "docss = docss'" if "list_all2 (file_docs D) paths docss" "list_all2 (file_docs D) paths docss'"
    for paths docss docss'
    by (rule list_all2_functional [OF _ that]) (auto simp: file_docs_def)
  obtain paths docss docss' where "list_all2 (file_docs D) paths docss" "list_all2 (file_docs D) paths docss'"
    "docs = concat docss" "docs' = concat docss'"
    using assms unfolding dir_rules_def by auto
  then have "docs = docs'"
    using files by blast
  moreover have "rules = rules'" if "docs = docs'"
    by (rule list_all2_functional [of "\<lambda>doc r. compileRule L doc = Inr r" docs])
      (use assms that in \<open>auto simp: dir_rules_def\<close>)
  ultimately show ?thesis
    by blast
qed

text \<open>
  C13. A rule directory loads exactly if it can be listed, every file can be read and decoded, every
  document compiles, there is at least one rule and no two share an id; the result is the rules in
  increasing order of id.
\<close>

theorem LoadDir_correct:
  "(\<exists>docs rules. dir_rules L D docs rules \<and> rules \<noteq> [] \<and> distinct (map r_ID rules) \<and> mset out = mset rules \<and>
      sorted_wrt (\<lambda>r r'. r_ID r < r_ID r') out) \<longleftrightarrow> LoadDir L D = Inr out"
proof -
  have "mset out = mset rules \<and> sorted_wrt (\<lambda>r r'. r_ID r < r_ID r') out \<longleftrightarrow> out = sort_key r_ID rules"
    if "distinct (map r_ID rules)" for rules
  proof
    assume out: "mset out = mset rules \<and> sorted_wrt (\<lambda>r r'. r_ID r < r_ID r') out"
    then have "sorted (map r_ID out)"
      by (auto simp: sorted_wrt_map elim: sorted_wrt_mono_rel [rotated])
    moreover have "inj_on r_ID (set rules)"
      using that by (simp add: distinct_map)
    ultimately show "out = sort_key r_ID rules"
      using out by (intro sort_key_inj_key_eq [symmetric]) auto
  next
    assume "out = sort_key r_ID rules"
    moreover have "distinct (map r_ID (sort_key r_ID rules))"
      using that by (simp add: distinct_map)
    ultimately show "mset out = mset rules \<and> sorted_wrt (\<lambda>r r'. r_ID r < r_ID r') out"
      using strict_sorted_iff [of "map r_ID out"] sorted_sort_key [of r_ID rules] by (simp add: sorted_wrt_map)
  qed
  then show ?thesis
    unfolding LoadDir_Inr by blast
qed

text \<open>
  C2. Detection end to end: for rules loaded from a directory, the rule alerts of an event are, in
  order of id, those of the documents that are not disabled and whose condition holds on the event;
  the threat-intelligence alerts follow.
\<close>

theorem loaded_rules_fire:
  assumes "LoadDir L D = Inr rules" "dir_rules L D docs docrules"
  shows "map a_RuleID (res_Alerts (snd (Evaluate (SetIntel src (NewEngine rules c)) clock e))) =
    sort (map y_ID (filter (doc_fires L e) docs)) @
    (case src of None \<Rightarrow> [] | Some match \<Rightarrow> map (\<lambda>h. ''INTEL-'' @ to_upper (h_Type h)) (match e))"
proof -
  have rules: "rules = sort_key r_ID docrules"
    using assms dir_rules_unique unfolding LoadDir_Inr by blast
  have docs: "list_all2 (\<lambda>doc r. compileRule L doc = Inr r) docs docrules"
    using assms(2) by (auto simp: dir_rules_def)
  have "map a_RuleID (map (\<lambda>r. ToAlert r e) (filter (\<lambda>r. Matches r e) rules))
      = sort (map y_ID (filter (doc_fires L e) docs))"
    unfolding rules using map_filter_sort_key [of r_ID "\<lambda>r. Matches r e" docrules] fired_ids [OF docs, of e]
    by (simp add: ToAlert_def comp_def)
  then show ?thesis
    unfolding Evaluate_alerts
    by (cases src) (simp_all add: NewEngine_def SetIntel_def intelAlert_def comp_def)
qed

text \<open>A directory of one file with two documents, out of order, and an event of one of them.\<close>

definition sample_doc :: "string \<Rightarrow> string \<Rightarrow> ruleYAML" where
  "sample_doc i name = \<lparr>y_ID = i, y_Name = i, y_Description = [], y_Severity = ''high'',
     y_Technique = zero_technique, y_Enabled = None, y_RiskScore = 0, y_Response = [],
     y_Match = Some (leaf_cond ''process.name'' ''eq'' (AStr name))\<rparr>"

definition sample_docs :: "ruleYAML list" where
  "sample_docs = [sample_doc ''R2'' ''nc'', sample_doc ''R1'' ''bash'']"

definition sample_dir :: rule_dir where
  "sample_dir = \<lparr>rd_glob = Some [''rules.yaml''], rd_read = (\<lambda>_. Some []), rd_decode = (\<lambda>_. Some sample_docs)\<rparr>"

definition sample_exec :: event where
  "sample_exec = zero_event\<lparr>e_Process := zero_process\<lparr>p_Name := ''bash''\<rparr>\<rparr>"

lemma sample_doc_compiles: "\<exists>r. compileRule literal_lib (sample_doc i n) = Inr r \<and> r_ID r = i" if "i \<noteq> []"
proof -
  have "leaf_ok literal_lib ''process.name'' ''eq'' (AStr n)"
    by (simp add: leaf_ok_def KnownField_def fieldAccessors_def)
  then show ?thesis
    using that unfolding compileRule_Inr
    by (auto simp: sample_doc_def ParseSeverity_def severityNames_def intro: wf_leaf)
qed

lemma sample_dir_loads:
  "\<exists>rules. dir_rules literal_lib sample_dir sample_docs rules \<and> LoadDir literal_lib sample_dir = Inr (sort_key r_ID rules)"
proof -
  obtain r2 r1 where r: "compileRule literal_lib (sample_doc ''R2'' ''nc'') = Inr r2" "r_ID r2 = ''R2''"
    "compileRule literal_lib (sample_doc ''R1'' ''bash'') = Inr r1" "r_ID r1 = ''R1''"
    using sample_doc_compiles [of "''R2''" "''nc''"] sample_doc_compiles [of "''R1''" "''bash''"] by auto
  have dir: "dir_rules literal_lib sample_dir sample_docs [r2, r1]"
    using r by (auto simp: dir_rules_def sample_dir_def file_docs_def sample_docs_def
        intro!: exI [of _ "[sample_docs]"])
  then have "LoadDir literal_lib sample_dir = Inr (sort_key r_ID [r2, r1])"
    unfolding LoadDir_Inr using r by fastforce
  then show ?thesis using dir by blast
qed

theorem loaded_rules_fire_witness:
  "\<exists>rules. LoadDir literal_lib sample_dir = Inr rules \<and>
     map a_RuleID (res_Alerts (snd (Evaluate (SetIntel None (NewEngine rules None)) 0 sample_exec))) = [''R1'']"
proof -
  obtain rules where dir: "dir_rules literal_lib sample_dir sample_docs rules"
    and load: "LoadDir literal_lib sample_dir = Inr (sort_key r_ID rules)"
    using sample_dir_loads by blast
  have "sort (map y_ID (filter (doc_fires literal_lib sample_exec) sample_docs)) = [''R1'']"
    by (simp add: sample_docs_def sample_doc_def doc_fires_def leaf_holds_def sample_exec_def zero_defs
        Field_def fieldAccessors_def str_present_def valuesEqual_def toString_def)
  then show ?thesis
    using loaded_rules_fire [OF load dir, of None None 0 sample_exec] load by simp
qed

end
