(* ===== verification/Detect_Content.thy ===== *)
theory Detect_Content
  imports Detect_Engine
begin

text \<open>
  Detection content: the rule test harness (\<^verbatim>\<open>internal/detect/test_harness.go\<close>) and rule packs
  (\<^verbatim>\<open>internal/detect/pack.go\<close>). The theory shows that the report's counters account for every test,
  and which packs the digest under a signature cannot tell apart.
\<close>

section \<open>Rule tests (test\_harness.go)\<close>

abbreviation (input) ExpectFire :: string where "ExpectFire \<equiv> ''fire''"
abbreviation (input) ExpectNoFire :: string where "ExpectNoFire \<equiv> ''no-fire''"

text \<open>An event spec is a JSON-shaped map; its type is a parameter, as is the JSON decoder.\<close>

record 's ruleTest =
  rt_Name :: string
  rt_Rule :: string
  rt_Expect :: string
  rt_Event :: "'s option"
  rt_Events :: "'s list"

definition eventSpecs :: "'s ruleTest \<Rightarrow> 's list" where
  "eventSpecs t = (case rt_Event t of Some e \<Rightarrow> e # rt_Events t | None \<Rightarrow> rt_Events t)"

datatype test_error = MissingRuleID | BadExpect string | NoEvent string

definition validate_test :: "'s ruleTest \<Rightarrow> test_error option" where
  "validate_test t =
     (if rt_Rule t = [] then Some MissingRuleID
      else if rt_Expect t \<noteq> ExpectFire \<and> rt_Expect t \<noteq> ExpectNoFire then Some (BadExpect (rt_Expect t))
      else if length (eventSpecs t) = 0 then Some (NoEvent (rt_Name t))
      else None)"

datatype tests_error = TScanFailed | TReadFailed string | TParseFailed string | TBadTest string nat test_error

record 's test_dir =
  td_glob :: "string list option"
  td_read :: "string \<Rightarrow> string option"
  td_decode :: "string \<Rightarrow> 's ruleTest list option"

fun validate_file :: "string \<Rightarrow> nat \<Rightarrow> 's ruleTest list \<Rightarrow> tests_error + 's ruleTest list" where
  "validate_file path i [] = Inr []"
| "validate_file path i (t # ts) =
     (case validate_test t of
        Some err \<Rightarrow> Inl (TBadTest path i err)
      | None \<Rightarrow> map_sum id ((#) t) (validate_file path (Suc i) ts))"

fun load_test_files :: "'s test_dir \<Rightarrow> string list \<Rightarrow> 's ruleTest list \<Rightarrow> tests_error + 's ruleTest list" where
  "load_test_files D [] tests = Inr tests"
| "load_test_files D (path # paths) tests =
     (case td_read D path of
        None \<Rightarrow> Inl (TReadFailed path)
      | Some raw \<Rightarrow>
          (case td_decode D raw of
             None \<Rightarrow> Inl (TParseFailed path)
           | Some fileTests \<Rightarrow>
               (case validate_file path 0 fileTests of
                  Inl err \<Rightarrow> Inl err
                | Inr ts \<Rightarrow> load_test_files D paths (tests @ ts))))"

definition LoadRuleTests :: "'s test_dir \<Rightarrow> tests_error + 's ruleTest list" where
  "LoadRuleTests D = (case td_glob D of None \<Rightarrow> Inl TScanFailed | Some paths \<Rightarrow> load_test_files D paths [])"

record ruleTestResult =
  tr_Name :: string
  tr_Rule :: string
  tr_Expect :: string
  tr_Fired :: bool
  tr_Pass :: bool
  tr_Reason :: string

record testReport =
  rp_Results :: "ruleTestResult list"
  rp_Total :: nat
  rp_Passed :: nat
  rp_FalsePositives :: nat
  rp_FalseNegatives :: nat
  rp_TestedRules :: "string list"

definition empty_report :: testReport where
  "empty_report = \<lparr>rp_Results = [], rp_Total = 0, rp_Passed = 0, rp_FalsePositives = 0,
     rp_FalseNegatives = 0, rp_TestedRules = []\<rparr>"

definition Failed :: "testReport \<Rightarrow> int" where
  "Failed r = int (rp_Total r) - int (rp_Passed r)"

definition FalsePositiveRate :: "testReport \<Rightarrow> real" where
  "FalsePositiveRate r =
     (let noFire = length (filter (\<lambda>res. tr_Expect res = ExpectNoFire) (rp_Results r)) in
      if noFire = 0 then 0 else real (rp_FalsePositives r) / real noFire)"

definition UntestedRules :: "testReport \<Rightarrow> rule list \<Rightarrow> string list" where
  "UntestedRules r rules = sort (filter (\<lambda>i. i \<notin> set (rp_TestedRules r)) (map r_ID rules))"

definition firedWord :: "bool \<Rightarrow> string" where
  "firedWord fired = (if fired then ''fired'' else ''did not fire'')"

text \<open>\<open>decode\<close> is the round trip of a spec through JSON into an event; \<open>None\<close> where it fails.\<close>

definition specToEvent :: "('s \<Rightarrow> event option) \<Rightarrow> 's \<Rightarrow> event option" where
  "specToEvent decode spec = map_option Normalize (decode spec)"

text \<open>The loop over the specs stops at the first that fires; a spec that fails to decode before is an error.\<close>

fun any_fires :: "('s \<Rightarrow> event option) \<Rightarrow> rule \<Rightarrow> 's list \<Rightarrow> bool option" where
  "any_fires decode r [] = Some False"
| "any_fires decode r (spec # specs) =
     (case specToEvent decode spec of
        None \<Rightarrow> None
      | Some e \<Rightarrow> if Matches r e then Some True else any_fires decode r specs)"

definition evaluateTest ::
  "('s \<Rightarrow> event option) \<Rightarrow> (string \<rightharpoonup> rule) \<Rightarrow> 's ruleTest \<Rightarrow> ruleTestResult option" where
  "evaluateTest decode byID t =
     (case byID (rt_Rule t) of
        None \<Rightarrow> Some \<lparr>tr_Name = rt_Name t, tr_Rule = rt_Rule t, tr_Expect = rt_Expect t, tr_Fired = False,
                  tr_Pass = False, tr_Reason = ''unknown rule id''\<rparr>
      | Some r \<Rightarrow>
          (case any_fires decode r (eventSpecs t) of
             None \<Rightarrow> None
           | Some fired \<Rightarrow>
               let pass = (fired = (rt_Expect t = ExpectFire)) in
               Some \<lparr>tr_Name = rt_Name t, tr_Rule = rt_Rule t, tr_Expect = rt_Expect t, tr_Fired = fired,
                 tr_Pass = pass,
                 tr_Reason = (if pass then [] else ''expected '' @ rt_Expect t @ '', rule '' @ firedWord fired)\<rparr>))"

definition record_result :: "'s ruleTest \<Rightarrow> ruleTestResult \<Rightarrow> testReport \<Rightarrow> testReport" where
  "record_result t res report =
     (let report = report\<lparr>rp_Total := Suc (rp_Total report)\<rparr>;
          report = (if tr_Pass res then report\<lparr>rp_Passed := Suc (rp_Passed report)\<rparr>
                    else if rt_Expect t = ExpectNoFire
                    then report\<lparr>rp_FalsePositives := Suc (rp_FalsePositives report)\<rparr>
                    else report\<lparr>rp_FalseNegatives := Suc (rp_FalseNegatives report)\<rparr>)
      in report\<lparr>rp_TestedRules := List.insert (rt_Rule t) (rp_TestedRules report),
                rp_Results := rp_Results report @ [res]\<rparr>)"

fun run_tests ::
  "('s \<Rightarrow> event option) \<Rightarrow> (string \<rightharpoonup> rule) \<Rightarrow> 's ruleTest list \<Rightarrow> testReport \<Rightarrow> testReport option" where
  "run_tests decode byID [] report = Some report"
| "run_tests decode byID (t # ts) report =
     (case evaluateTest decode byID t of
        None \<Rightarrow> None
      | Some res \<Rightarrow> run_tests decode byID ts (record_result t res report))"

definition rules_by_id :: "rule list \<Rightarrow> string \<rightharpoonup> rule" where
  "rules_by_id rules = foldl (\<lambda>m r. m(r_ID r \<mapsto> r)) Map.empty rules"

definition RunRuleTests :: "('s \<Rightarrow> event option) \<Rightarrow> rule list \<Rightarrow> 's ruleTest list \<Rightarrow> testReport option" where
  "RunRuleTests decode rules tests = run_tests decode (rules_by_id rules) tests empty_report"

section \<open>Rule packs (pack.go)\<close>

record packManifest =
  pm_Name :: string
  pm_Version :: string
  pm_Description :: string
  pm_Author :: string

record pack =
  pk_Manifest :: packManifest
  pk_Rules :: "rule list"
  pk_Digest :: string

datatype pack_error =
    NoManifest
  | BadManifest
  | ManifestIncomplete
  | PackRules load_error
  | PackScan
  | PackRead string
  | BadSignatureText
  | SignatureMismatch

text \<open>
  SHA-256 (a digest of a byte string), Ed25519 (\<open>ed_sign\<close> of a key and a message, \<open>ed_verify\<close> of a
  public key, a message and a signature) and base64 are arguments. \<open>pd_base\<close> is \<open>filepath.Base\<close>.
\<close>

record 'k pack_crypto =
  sha256_hex :: "string \<Rightarrow> string"
  ed_sign :: "'k \<Rightarrow> string \<Rightarrow> string"
  ed_verify :: "'k \<Rightarrow> string \<Rightarrow> string \<Rightarrow> bool"
  b64_encode :: "string \<Rightarrow> string"
  b64_decode :: "string \<Rightarrow> string option"

record pack_dir = rule_dir +
  pd_manifest :: "string option"
  pd_decode_manifest :: "string \<Rightarrow> packManifest option"
  pd_base :: "string \<Rightarrow> string"

text \<open>The bytes written to the hash: the manifest, then each file's base name and content.\<close>

fun digest_files :: "pack_dir \<Rightarrow> string list \<Rightarrow> string \<Rightarrow> pack_error + string" where
  "digest_files D [] acc = Inr acc"
| "digest_files D (path # paths) acc =
     (case rd_read D path of
        None \<Rightarrow> Inl (PackRead path)
      | Some content \<Rightarrow> digest_files D paths (acc @ pd_base D path @ content))"

definition packDigest :: "'k pack_crypto \<Rightarrow> pack_dir \<Rightarrow> string \<Rightarrow> pack_error + string" where
  "packDigest K D manifestBytes =
     (case rd_glob D of
        None \<Rightarrow> Inl PackScan
      | Some paths \<Rightarrow> map_sum id (sha256_hex K) (digest_files D (sort paths) manifestBytes))"

definition LoadPack :: "go_lib \<Rightarrow> 'k pack_crypto \<Rightarrow> pack_dir \<Rightarrow> pack_error + pack" where
  "LoadPack L K D =
     (case pd_manifest D of
        None \<Rightarrow> Inl NoManifest
      | Some manifestBytes \<Rightarrow>
          (case pd_decode_manifest D manifestBytes of
             None \<Rightarrow> Inl BadManifest
           | Some manifest \<Rightarrow>
               (if pm_Name manifest = [] \<or> pm_Version manifest = [] then Inl ManifestIncomplete
                else case LoadDir L (rule_dir.truncate D) of
                  Inl err \<Rightarrow> Inl (PackRules err)
                | Inr rules \<Rightarrow>
                    (case packDigest K D manifestBytes of
                       Inl err \<Rightarrow> Inl err
                     | Inr digest \<Rightarrow> Inr \<lparr>pk_Manifest = manifest, pk_Rules = rules, pk_Digest = digest\<rparr>))))"

definition Sign :: "'k pack_crypto \<Rightarrow> pack \<Rightarrow> 'k \<Rightarrow> string" where
  "Sign K p key = b64_encode K (ed_sign K key (pk_Digest p))"

definition Verify :: "'k pack_crypto \<Rightarrow> pack \<Rightarrow> string \<Rightarrow> 'k \<Rightarrow> pack_error option" where
  "Verify K p signature key =
     (case b64_decode K signature of
        None \<Rightarrow> Some BadSignatureText
      | Some raw \<Rightarrow> if \<not> ed_verify K key (pk_Digest p) raw then Some SignatureMismatch else None)"

section \<open>The report accounts for every test\<close>

definition no_fire :: "ruleTestResult \<Rightarrow> bool" where
  "no_fire res \<longleftrightarrow> tr_Expect res = ExpectNoFire"

definition report_ok :: "testReport \<Rightarrow> bool" where
  "report_ok r \<longleftrightarrow> rp_Total r = length (rp_Results r) \<and>
     rp_Passed r = length (filter tr_Pass (rp_Results r)) \<and>
     rp_FalsePositives r = length (filter (\<lambda>x. \<not> tr_Pass x \<and> no_fire x) (rp_Results r)) \<and>
     rp_FalseNegatives r = length (filter (\<lambda>x. \<not> tr_Pass x \<and> \<not> no_fire x) (rp_Results r)) \<and>
     set (rp_TestedRules r) = tr_Rule ` set (rp_Results r)"

lemma evaluateTest_ids:
  "evaluateTest decode byID t = Some res \<Longrightarrow>
     tr_Name res = rt_Name t \<and> tr_Rule res = rt_Rule t \<and> tr_Expect res = rt_Expect t"
  by (auto simp: evaluateTest_def Let_def split: option.splits)

lemma report_ok_record:
  assumes "report_ok r" "evaluateTest decode byID t = Some res"
  shows "report_ok (record_result t res r)"
  using assms(1) evaluateTest_ids [OF assms(2)]
  by (auto simp: report_ok_def record_result_def no_fire_def Let_def)

lemma run_tests_report:
  "run_tests decode byID ts r = Some r' \<Longrightarrow> report_ok r \<Longrightarrow>
     report_ok r' \<and> (\<exists>rs. rp_Results r' = rp_Results r @ rs \<and> list_all2 (\<lambda>t res. evaluateTest decode byID t = Some res) ts rs)"
proof (induction ts arbitrary: r)
  case (Cons t ts)
  then obtain res where res: "evaluateTest decode byID t = Some res"
    and rest: "run_tests decode byID ts (record_result t res r) = Some r'"
    by (auto split: option.splits)
  obtain rs where "report_ok r'" "rp_Results r' = rp_Results (record_result t res r) @ rs"
    "list_all2 (\<lambda>t res. evaluateTest decode byID t = Some res) ts rs"
    using Cons.IH [OF rest report_ok_record [OF Cons.prems(2) res]] by blast
  then show ?case
    using res by (auto simp: record_result_def Let_def list_all2_Cons1)
qed simp

lemma rate_bounds: "report_ok r \<Longrightarrow> 0 \<le> FalsePositiveRate r \<and> FalsePositiveRate r \<le> 1"
proof -
  assume "report_ok r"
  moreover have "length (filter (\<lambda>x. \<not> tr_Pass x \<and> no_fire x) xs) \<le> length (filter no_fire xs)" for xs
    by (induction xs) auto
  ultimately show ?thesis
    by (auto simp: FalsePositiveRate_def report_ok_def Let_def no_fire_def [symmetric])
qed

text \<open>A test passes exactly if its rule exists and fires on some event of the test as it should.\<close>

lemma any_fires_Some:
  "any_fires decode r specs = Some b \<Longrightarrow>
     b = (\<exists>spec \<in> set specs. \<exists>e. specToEvent decode spec = Some e \<and> Matches r e)"
  by (induction specs) (auto split: option.splits if_splits)

definition test_passes :: "('s \<Rightarrow> event option) \<Rightarrow> (string \<rightharpoonup> rule) \<Rightarrow> 's ruleTest \<Rightarrow> bool" where
  "test_passes decode byID t \<longleftrightarrow> (\<exists>r. byID (rt_Rule t) = Some r \<and>
     (\<exists>spec \<in> set (eventSpecs t). \<exists>e. specToEvent decode spec = Some e \<and> Matches r e) = (rt_Expect t = ExpectFire))"

lemma evaluateTest_pass:
  assumes "evaluateTest decode byID t = Some res"
  shows "tr_Rule res = rt_Rule t \<and> tr_Pass res = test_passes decode byID t"
  using assms any_fires_Some [of decode _ "eventSpecs t"]
  by (auto simp: evaluateTest_def test_passes_def Let_def split: option.splits)

text \<open>
  A rule-test run that ends has one result per test, in order, each passing exactly if the rule
  exists and its firing agrees with the expectation; passed, false-positive and false-negative counts
  add up to the total and the false-positive rate lies between 0 and 1.
\<close>

theorem RunRuleTests_report:
  "case RunRuleTests decode rules tests of
     None \<Rightarrow> True
   | Some rep \<Rightarrow>
       rp_Total rep = length tests \<and>
       rp_Passed rep + rp_FalsePositives rep + rp_FalseNegatives rep = rp_Total rep \<and>
       0 \<le> FalsePositiveRate rep \<and> FalsePositiveRate rep \<le> 1 \<and>
       list_all2 (\<lambda>t res. tr_Rule res = rt_Rule t \<and> tr_Pass res = test_passes decode (rules_by_id rules) t)
         tests (rp_Results rep)"
proof (cases "RunRuleTests decode rules tests")
  case (Some rep)
  then obtain ok: "report_ok rep"
    and results: "list_all2 (\<lambda>t res. evaluateTest decode (rules_by_id rules) t = Some res) tests (rp_Results rep)"
    using run_tests_report [of decode "rules_by_id rules" tests empty_report rep]
    by (auto simp: RunRuleTests_def report_ok_def empty_report_def)
  have sum: "length (filter tr_Pass xs) + length (filter (\<lambda>x. \<not> tr_Pass x \<and> no_fire x) xs)
      + length (filter (\<lambda>x. \<not> tr_Pass x \<and> \<not> no_fire x) xs) = length xs" for xs
    by (induction xs) auto
  have "list_all2 (\<lambda>t res. tr_Rule res = rt_Rule t \<and> tr_Pass res = test_passes decode (rules_by_id rules) t)
      tests (rp_Results rep)"
    by (rule list_all2_mono [OF results]) (rule evaluateTest_pass)
  then show ?thesis
    using ok rate_bounds [OF ok] sum [of "rp_Results rep"] list_all2_lengthD [OF results]
    by (simp add: Some report_ok_def)
qed simp

text \<open>
  A test that expects silence of a rule that does not exist is counted as a false positive,
  although nothing fired: the harness reports a rate of 1 for a misspelt rule id.
\<close>

theorem unknown_rule_counts_as_false_positive:
  assumes "rules_by_id rules (rt_Rule t) = None" "rt_Expect t = ExpectNoFire"
  shows "\<exists>rep res. RunRuleTests decode rules [t] = Some rep \<and> rp_Results rep = [res] \<and> \<not> tr_Fired res \<and>
    rp_FalsePositives rep = 1 \<and> FalsePositiveRate rep = 1"
  using assms
  by (auto simp: RunRuleTests_def evaluateTest_def record_result_def empty_report_def FalsePositiveRate_def)

theorem unknown_rule_counts_as_false_positive_witness:
  "\<exists>rep res. RunRuleTests (\<lambda>e. Some e) [] [\<lparr>rt_Name = ''quiet'', rt_Rule = ''R9'', rt_Expect = ExpectNoFire,
      rt_Event = Some zero_event, rt_Events = []\<rparr>] = Some rep \<and> rp_Results rep = [res] \<and> \<not> tr_Fired res \<and>
    rp_FalsePositives rep = 1 \<and> FalsePositiveRate rep = 1"
  by (rule unknown_rule_counts_as_false_positive) (simp_all add: rules_by_id_def)

section \<open>Pack signatures\<close>

definition pack_of :: "(string \<times> string) list \<Rightarrow> pack_dir" where
  "pack_of files = \<lparr>rd_glob = Some (map fst files), rd_read = map_of files, rd_decode = (\<lambda>_. None),
     pd_manifest = None, pd_decode_manifest = (\<lambda>_. None), pd_base = (\<lambda>p. p)\<rparr>"

text \<open>
  The digest does not separate the files it covers: a pack of two rule files and the pack whose
  single file holds the first file's bytes, the name of the second and the second's bytes have the
  same digest under every hash, so a signature of one verifies for the other.
\<close>

theorem packDigest_ambiguous:
  "packDigest K (pack_of [(''a.yaml'', x), (''b.yaml'', y)]) m =
   packDigest K (pack_of [(''a.yaml'', x @ ''b.yaml'' @ y)]) m"
proof -
  have "sort [''a.yaml'', ''b.yaml''] = [''a.yaml'', ''b.yaml'']"
    by code_simp
  then show ?thesis
    by (simp add: packDigest_def pack_of_def)
qed

end
