(* ===== verification/Decode.thy ===== *)
theory Decode
  imports Event_Model Go_Net
begin

text \<open>
  The wire decoder, \<^verbatim>\<open>internal/decode/wire.go\<close>: ring-buffer records of the kernel sensor to events.
  The host byte order is little-endian, as on the supported targets. The theory gives the layout of
  the kernel's struct as an encoder and proves that decoding inverts it.
\<close>

section \<open>Bytes\<close>

definition bytes_str :: "uint8 list \<Rightarrow> string" where
  "bytes_str bs = map (\<lambda>b. char_of (unat b)) bs"

definition str_bytes :: "string \<Rightarrow> uint8 list" where
  "str_bytes s = map (\<lambda>c. of_nat (of_char c)) s"

fun le_nat :: "uint8 list \<Rightarrow> nat" where
  "le_nat [] = 0"
| "le_nat (b # bs) = unat b + 256 * le_nat bs"

fun le_bytes :: "nat \<Rightarrow> nat \<Rightarrow> uint8 list" where
  "le_bytes 0 n = []"
| "le_bytes (Suc k) n = of_nat (n mod 256) # le_bytes k (n div 256)"

definition Uint16 :: "uint8 list \<Rightarrow> uint16" where
  "Uint16 bs = of_nat (le_nat (take 2 bs))"

definition Uint32 :: "uint8 list \<Rightarrow> uint32" where
  "Uint32 bs = of_nat (le_nat (take 4 bs))"

definition Uint64 :: "uint8 list \<Rightarrow> uint64" where
  "Uint64 bs = of_nat (le_nat (take 8 bs))"

section \<open>Layout (wire.go)\<close>

abbreviation (input) commLen :: nat where "commLen \<equiv> 16"
abbreviation (input) filenameLen :: nat where "filenameLen \<equiv> 256"
abbreviation (input) argsLen :: nat where "argsLen \<equiv> 512"
abbreviation (input) domainLen :: nat where "domainLen \<equiv> 256"
abbreviation (input) addrLen :: nat where "addrLen \<equiv> 16"
abbreviation (input) WireSize :: nat where "WireSize \<equiv> 1128"
abbreviation (input) afINet6 :: uint16 where "afINet6 \<equiv> 10"

abbreviation (input) offTimestamp :: nat where "offTimestamp \<equiv> 0"
abbreviation (input) offCgroupID :: nat where "offCgroupID \<equiv> 8"
abbreviation (input) offType :: nat where "offType \<equiv> 16"
abbreviation (input) offPID :: nat where "offPID \<equiv> 20"
abbreviation (input) offTID :: nat where "offTID \<equiv> 24"
abbreviation (input) offPPID :: nat where "offPPID \<equiv> 28"
abbreviation (input) offUID :: nat where "offUID \<equiv> 32"
abbreviation (input) offRet :: nat where "offRet \<equiv> 40"
abbreviation (input) offArgsLen :: nat where "offArgsLen \<equiv> 44"
abbreviation (input) offSport :: nat where "offSport \<equiv> 48"
abbreviation (input) offDport :: nat where "offDport \<equiv> 50"
abbreviation (input) offFamily :: nat where "offFamily \<equiv> 52"
abbreviation (input) offFmode :: nat where "offFmode \<equiv> 54"
abbreviation (input) offSaddr :: nat where "offSaddr \<equiv> 56"
abbreviation (input) offDaddr :: nat where "offDaddr \<equiv> 72"
abbreviation (input) offComm :: nat where "offComm \<equiv> 88"
abbreviation (input) offFilename :: nat where "offFilename \<equiv> 104"
abbreviation (input) offArgs :: nat where "offArgs \<equiv> 360"
abbreviation (input) offDomain :: nat where "offDomain \<equiv> 872"

definition slice :: "uint8 list \<Rightarrow> nat \<Rightarrow> nat \<Rightarrow> uint8 list" where
  "slice raw off len = take len (drop off raw)"

section \<open>Fields (wire.go)\<close>

fun indexZero_from :: "nat \<Rightarrow> uint8 list \<Rightarrow> int" where
  "indexZero_from i [] = - 1"
| "indexZero_from i (c # b) = (if c = 0 then int i else indexZero_from (Suc i) b)"

definition indexZero :: "uint8 list \<Rightarrow> int" where
  "indexZero b = indexZero_from 0 b"

definition cstr :: "uint8 list \<Rightarrow> string" where
  "cstr b = (let i = indexZero b in if i \<ge> 0 then bytes_str (take (nat i) b) else bytes_str b)"

definition parseArgs :: "uint8 list \<Rightarrow> uint32 \<Rightarrow> string list" where
  "parseArgs blob used =
     (let blob = (if unat used < length blob then take (unat used) blob else blob)
      in filter (\<lambda>p. p \<noteq> []) (split_on (CHR 0x00) (bytes_str blob)))"

definition allZero :: "uint8 list \<Rightarrow> bool" where
  "allZero b \<longleftrightarrow> list_all (\<lambda>c. c = 0) b"

definition ipv4 :: "uint8 list \<Rightarrow> string" where
  "ipv4 b = (if allZero b then [] else ip_String (as16 b))"

definition ipv6 :: "uint8 list \<Rightarrow> string" where
  "ipv6 b = (if allZero b then [] else ip_String b)"

definition ipAddr :: "uint16 \<Rightarrow> uint8 list \<Rightarrow> string" where
  "ipAddr family b = (if family = afINet6 then ipv6 b else ipv4 (take 4 b))"

text \<open>
  The loop of \<open>parseDNSName\<close>: what is left of the labels and the name so far; \<open>None\<close> is the early
  return of the empty name. Each round drops at least the length byte.
\<close>

function dns_labels :: "uint8 list \<Rightarrow> string \<Rightarrow> string option" where
  "dns_labels [] name = Some name"
| "dns_labels (l # rest) name =
     (if l = 0 then Some name
      else if unat l > 63 \<or> unat l > length rest then None
      else dns_labels (drop (unat l) rest)
        ((if name \<noteq> [] then name @ ''.'' else name) @ bytes_str (take (unat l) rest)))"
  by pat_completeness auto

termination dns_labels
  by (relation "measure (\<lambda>(labels, name). length labels)") auto

definition parseDNSName :: "uint8 list \<Rightarrow> string" where
  "parseDNSName query =
     (if length query \<le> 12 then []
      else case dns_labels (drop 12 query) [] of None \<Rightarrow> [] | Some name \<Rightarrow> name)"

section \<open>Records (wire.go)\<close>

record decoder =
  d_BootUnixNano :: int
  d_Hostname :: string

definition applyTypeSpecific :: "event \<Rightarrow> uint8 list \<Rightarrow> event" where
  "applyTypeSpecific e raw =
     (let filename = cstr (slice raw offFilename filenameLen);
          mode = Uint16 (drop offFmode raw);
          t = e_Type e
      in if t = EventExec \<or> t = EventExecBlocked then
           let args = parseArgs (slice raw offArgs argsLen) (Uint32 (drop offArgsLen raw)) in
           e\<lparr>e_Process := (e_Process e)\<lparr>p_Executable := filename, p_StartTimeNs := e_MonotonicNs e,
              p_Args := args, p_CommandLine := join '' '' args\<rparr>\<rparr>
         else if t = EventExit then e\<lparr>e_Process := (e_Process e)\<lparr>p_ExitCode := e_Ret e\<rparr>\<rparr>
         else if t = EventOpen then e\<lparr>e_File := zero_file\<lparr>f_Path := filename, f_Flags := mode\<rparr>\<rparr>
         else if t = EventUnlink then e\<lparr>e_File := zero_file\<lparr>f_Path := filename\<rparr>\<rparr>
         else if t = EventRename then
           e\<lparr>e_File := zero_file\<lparr>f_Path := filename, f_Target := cstr (slice raw offArgs argsLen)\<rparr>\<rparr>
         else if t = EventChmod then e\<lparr>e_File := zero_file\<lparr>f_Path := filename, f_Mode := mode\<rparr>\<rparr>
         else if t = EventConnect \<or> t = EventAccept then
           let family = Uint16 (drop offFamily raw) in
           e\<lparr>e_Network := zero_network\<lparr>n_Family := family,
              n_SrcIP := ipAddr family (slice raw offSaddr addrLen), n_SrcPort := Uint16 (drop offSport raw),
              n_DstIP := ipAddr family (slice raw offDaddr addrLen), n_DstPort := Uint16 (drop offDport raw)\<rparr>\<rparr>
         else if t = EventPtrace then
           e\<lparr>e_Syscall := zero_syscall\<lparr>s_Request := uint mode, s_TargetPID := word_of_int (e_Ret e)\<rparr>\<rparr>
         else if t = EventKmod \<or> t = EventMemfd then e\<lparr>e_File := zero_file\<lparr>f_Path := filename\<rparr>\<rparr>
         else if t = EventBPF \<or> t = EventMmapExec then e\<lparr>e_Syscall := zero_syscall\<lparr>s_Request := uint mode\<rparr>\<rparr>
         else if t = EventPrivChange then e\<lparr>e_Syscall := zero_syscall\<lparr>s_NewUID := word_of_int (e_Ret e)\<rparr>\<rparr>
         else if t = EventDNS then
           e\<lparr>e_Network := zero_network\<lparr>n_Family := Uint16 (drop offFamily raw),
              n_DstIP := ipv4 (slice raw offDaddr 4), n_DstPort := Uint16 (drop offDport raw),
              n_Domain := parseDNSName (slice raw offDomain domainLen)\<rparr>\<rparr>
         else if t = EventTamper then e\<lparr>e_Syscall := zero_syscall\<lparr>s_Request := uint mode\<rparr>\<rparr>
         else e)"

definition decode_header :: "decoder \<Rightarrow> uint8 list \<Rightarrow> event" where
  "decode_header d raw =
     (let monotonic = Uint64 (drop offTimestamp raw);
          t = Uint32 (drop offType raw)
      in zero_event\<lparr>e_SchemaVersion := SchemaVersion, e_MonotonicNs := monotonic,
           e_Timestamp := add_int64 (d_BootUnixNano d) (sint monotonic),
           e_Host := d_Hostname d, e_Type := t, e_CgroupID := Uint64 (drop offCgroupID raw),
           e_Ret := sint (Uint32 (drop offRet raw)), e_Action := Action t,
           e_Process := zero_process\<lparr>p_PID := Uint32 (drop offPID raw), p_TID := Uint32 (drop offTID raw),
             p_PPID := Uint32 (drop offPPID raw), p_Name := cstr (slice raw offComm commLen)\<rparr>,
           e_User := zero_user\<lparr>u_ID := Uint32 (drop offUID raw)\<rparr>\<rparr>)"

text \<open>The error carries the number of bytes the record had.\<close>

definition Decode :: "decoder \<Rightarrow> uint8 list \<Rightarrow> nat + event" where
  "Decode d raw =
     (if length raw < WireSize then Inl (length raw)
      else Inr (applyTypeSpecific (decode_header d raw) raw))"

section \<open>Encodings and their inverses\<close>

lemma bytes_str_str_bytes [simp]: "bytes_str (str_bytes s) = s"
proof -
  have "char_of (unat (of_nat (of_char c) :: uint8)) = c" for c
  proof -
    have "(of_char c :: nat) < 256"
      using nat_of_char_less_256 by blast
    then show ?thesis
      by (simp add: unat_of_nat)
  qed
  then show ?thesis
    by (simp add: bytes_str_def str_bytes_def comp_def)
qed

lemma length_str_bytes [simp]: "length (str_bytes s) = length s"
  by (simp add: str_bytes_def)

lemma bytes_str_append [simp]: "bytes_str (xs @ ys) = bytes_str xs @ bytes_str ys"
  by (simp add: bytes_str_def)

lemma bytes_str_Cons [simp]: "bytes_str (b # bs) = char_of (unat b) # bytes_str bs" "bytes_str [] = []"
  by (simp_all add: bytes_str_def)

lemma char_of_0 [simp]: "char_of (0 :: nat) = CHR 0x00"
  by code_simp

lemma length_le_bytes [simp]: "length (le_bytes k n) = k"
  by (induction k arbitrary: n) auto

lemma le_nat_le_bytes: "n < 256 ^ k \<Longrightarrow> le_nat (le_bytes k n) = n"
proof (induction k arbitrary: n)
  case (Suc k)
  have "n div 256 < 256 ^ k"
    using Suc.prems by (simp add: less_mult_imp_div_less mult.commute)
  then show ?case
    using Suc.IH by (simp add: unat_of_nat)
qed simp

lemma Uint_le_bytes [simp]:
  "Uint16 (le_bytes 2 (unat v) @ rest) = v"
  "Uint32 (le_bytes 4 (unat w) @ rest) = w"
  "Uint64 (le_bytes 8 (unat x) @ rest) = x"
proof -
  have "unat v < 2 ^ LENGTH(16)" "unat w < 2 ^ LENGTH(32)" "unat x < 2 ^ LENGTH(64)"
    by (rule unsigned_less)+
  then show "Uint16 (le_bytes 2 (unat v) @ rest) = v" "Uint32 (le_bytes 4 (unat w) @ rest) = w"
    "Uint64 (le_bytes 8 (unat x) @ rest) = x"
    unfolding Uint16_def Uint32_def Uint64_def by (simp_all add: le_nat_le_bytes del: le_bytes.simps)
qed

text \<open>A string in a field of fixed width, filled up with zero bytes.\<close>

definition pad :: "nat \<Rightarrow> string \<Rightarrow> uint8 list" where
  "pad n s = str_bytes s @ replicate (n - length s) 0"

definition no_nul :: "string \<Rightarrow> bool" where
  "no_nul s \<longleftrightarrow> CHR 0x00 \<notin> set s"

lemma byte_zero: "n < 256 \<Longrightarrow> (of_nat n :: uint8) = 0 \<longleftrightarrow> n = 0"
  by (simp add: word_unat_eq_iff unat_of_nat)

lemma str_byte_zero: "(of_nat (of_char c) :: uint8) = 0 \<longleftrightarrow> c = CHR 0x00"
proof -
  have "(of_char c :: nat) < 256"
    using nat_of_char_less_256 by blast
  moreover have "(of_char c :: nat) = 0 \<longleftrightarrow> c = CHR 0x00"
    using of_char_eq_iff [of c "CHR 0x00", where ?'a = nat] by simp
  ultimately show ?thesis
    by (simp add: byte_zero)
qed

lemma indexZero_no_nul:
  "no_nul s \<Longrightarrow> indexZero_from i (str_bytes s @ bs) =
     (case bs of [] \<Rightarrow> - 1 | b # bs' \<Rightarrow> indexZero_from (i + length s) bs)"
  by (induction s arbitrary: i) (auto simp: str_bytes_def no_nul_def str_byte_zero split: list.splits)

lemma cstr_pad: "no_nul s \<Longrightarrow> length s \<le> n \<Longrightarrow> cstr (pad n s) = s"
proof (cases "length s = n")
  case False
  assume "no_nul s" "length s \<le> n"
  with False obtain k where "n - length s = Suc k"
    by (cases "n - length s") auto
  then show ?thesis
    using \<open>no_nul s\<close> by (simp add: cstr_def indexZero_def pad_def indexZero_no_nul)
qed (simp add: cstr_def indexZero_def pad_def indexZero_no_nul [of s 0 "[]", simplified])

lemma length_pad [simp]: "length s \<le> n \<Longrightarrow> length (pad n s) = n"
  by (simp add: pad_def)

text \<open>The argument blob of the execve sensor: each argument with its terminating zero byte.\<close>

definition pack_args :: "string list \<Rightarrow> uint8 list" where
  "pack_args args = concat (map (\<lambda>a. str_bytes a @ [0]) args)"

lemma split_pack_args:
  "list_all no_nul args \<Longrightarrow> split_on (CHR 0x00) (bytes_str (pack_args args)) = args @ [[]]"
  by (induction args) (auto simp: pack_args_def no_nul_def split_on_append)

lemma parseArgs_pack_args:
  assumes "list_all no_nul args" "length (pack_args args) \<le> n" "n < 2 ^ 32"
  shows "parseArgs (pack_args args @ replicate (n - length (pack_args args)) 0) (of_nat (length (pack_args args))) =
    filter (\<lambda>a. a \<noteq> []) args"
proof -
  let ?l = "length (pack_args args)"
  have "unat (of_nat ?l :: uint32) = ?l"
    using assms(2,3) by (simp add: unat_of_nat)
  then show ?thesis
    using split_pack_args [OF assms(1)] by (auto simp: parseArgs_def Let_def)
qed

text \<open>A DNS query: a header, the labels with their lengths, the terminator and what follows.\<close>

definition pack_labels :: "string list \<Rightarrow> uint8 list" where
  "pack_labels labels = concat (map (\<lambda>l. of_nat (length l) # str_bytes l) labels)"

definition label_ok :: "string \<Rightarrow> bool" where
  "label_ok l \<longleftrightarrow> l \<noteq> [] \<and> length l \<le> 63"

lemma dns_labels_pack:
  "list_all label_ok labels \<Longrightarrow>
     dns_labels (pack_labels labels @ 0 # rest) name =
       Some (if labels = [] then name else if name = [] then join ''.'' labels else name @ ''.'' @ join ''.'' labels)"
proof (induction labels arbitrary: name)
  case (Cons l labels)
  have l: "l \<noteq> []" "unat (of_nat (length l) :: uint8) = length l" "length l \<le> 63" "(of_nat (length l) :: uint8) \<noteq> 0"
    using Cons.prems by (auto simp: label_ok_def unat_of_nat byte_zero)
  show ?case
    using l Cons.IH Cons.prems by (cases labels) (auto simp: pack_labels_def)
qed (simp add: pack_labels_def)

text \<open>
  The DNS name of a well-formed query is its labels joined by dots, whatever follows the
  terminator.
\<close>

theorem parseDNSName_labels:
  assumes "length header = 12" "list_all label_ok labels"
  shows "parseDNSName (header @ pack_labels labels @ 0 # rest) = join ''.'' labels"
  using dns_labels_pack [OF assms(2), of rest "[]"] assms(1) by (simp add: parseDNSName_def)

theorem parseDNSName_labels_witness:
  "parseDNSName (replicate 12 0 @ pack_labels [''example'', ''com''] @ [0, 7, 7]) = ''example.com''"
  using parseDNSName_labels [of "replicate 12 0" "[''example'', ''com'']" "[7, 7]"]
  by (simp add: label_ok_def)

text \<open>The kernel's \<open>struct event\<close>, field by field, and its bytes.\<close>

record wire =
  w_timestamp :: uint64
  w_cgroup :: uint64
  w_type :: uint32
  w_pid :: uint32
  w_tid :: uint32
  w_ppid :: uint32
  w_uid :: uint32
  w_gid :: uint32
  w_ret :: uint32
  w_args_len :: uint32
  w_sport :: uint16
  w_dport :: uint16
  w_family :: uint16
  w_fmode :: uint16
  w_saddr :: "uint8 list"
  w_daddr :: "uint8 list"
  w_comm :: "uint8 list"
  w_filename :: "uint8 list"
  w_args :: "uint8 list"
  w_domain :: "uint8 list"

definition layout :: "wire \<Rightarrow> uint8 list" where
  "layout w =
     le_bytes 8 (unat (w_timestamp w)) @ le_bytes 8 (unat (w_cgroup w)) @ le_bytes 4 (unat (w_type w)) @
     le_bytes 4 (unat (w_pid w)) @ le_bytes 4 (unat (w_tid w)) @ le_bytes 4 (unat (w_ppid w)) @
     le_bytes 4 (unat (w_uid w)) @ le_bytes 4 (unat (w_gid w)) @ le_bytes 4 (unat (w_ret w)) @
     le_bytes 4 (unat (w_args_len w)) @ le_bytes 2 (unat (w_sport w)) @ le_bytes 2 (unat (w_dport w)) @
     le_bytes 2 (unat (w_family w)) @ le_bytes 2 (unat (w_fmode w)) @ w_saddr w @ w_daddr w @ w_comm w @
     w_filename w @ w_args w @ w_domain w"

definition wf_wire :: "wire \<Rightarrow> bool" where
  "wf_wire w \<longleftrightarrow> length (w_saddr w) = addrLen \<and> length (w_daddr w) = addrLen \<and> length (w_comm w) = commLen \<and>
     length (w_filename w) = filenameLen \<and> length (w_args w) = argsLen \<and> length (w_domain w) = domainLen"

lemma layout_numbers:
  "Uint64 (layout w) = w_timestamp w" "Uint64 (drop 8 (layout w)) = w_cgroup w"
  "Uint32 (drop 16 (layout w)) = w_type w" "Uint32 (drop 20 (layout w)) = w_pid w"
  "Uint32 (drop 24 (layout w)) = w_tid w" "Uint32 (drop 28 (layout w)) = w_ppid w"
  "Uint32 (drop 32 (layout w)) = w_uid w" "Uint32 (drop 40 (layout w)) = w_ret w"
  "Uint32 (drop 44 (layout w)) = w_args_len w" "Uint16 (drop 48 (layout w)) = w_sport w"
  "Uint16 (drop 50 (layout w)) = w_dport w" "Uint16 (drop 52 (layout w)) = w_family w"
  "Uint16 (drop 54 (layout w)) = w_fmode w"
  by (simp_all add: layout_def del: le_bytes.simps)

lemma layout_arrays:
  assumes "wf_wire w"
  shows "slice (layout w) 56 16 = w_saddr w" "slice (layout w) 72 16 = w_daddr w"
    "slice (layout w) 88 16 = w_comm w" "slice (layout w) 104 256 = w_filename w"
    "slice (layout w) 360 512 = w_args w" "slice (layout w) 872 256 = w_domain w" "length (layout w) = 1128"
  using assms by (simp_all add: layout_def slice_def wf_wire_def del: le_bytes.simps)

lemma Decode_layout:
  assumes "wf_wire w"
  shows "Decode d (layout w) = Inr (applyTypeSpecific
    (zero_event\<lparr>e_SchemaVersion := SchemaVersion, e_MonotonicNs := w_timestamp w,
       e_Timestamp := add_int64 (d_BootUnixNano d) (sint (w_timestamp w)), e_Host := d_Hostname d,
       e_Type := w_type w, e_CgroupID := w_cgroup w, e_Ret := sint (w_ret w), e_Action := Action (w_type w),
       e_Process := zero_process\<lparr>p_PID := w_pid w, p_TID := w_tid w, p_PPID := w_ppid w, p_Name := cstr (w_comm w)\<rparr>,
       e_User := zero_user\<lparr>u_ID := w_uid w\<rparr>\<rparr>) (layout w))"
  by (simp add: Decode_def decode_header_def layout_numbers layout_arrays [OF assms] Let_def)

text \<open>
  The record the execve sensor submits (\<open>new_event\<close> and \<open>handle_exec\<close> in bpf/edr.bpf.c): the
  staging slot is cleared up to \<open>domain\<close>, so the return code, ports, family, mode and addresses are
  zero and \<open>domain\<close> holds whatever an earlier event left there; the identity fields, the command
  name, the path and the packed arguments are the kernel's.
\<close>

record exec_facts =
  x_timestamp :: uint64
  x_cgroup :: uint64
  x_pid :: uint32
  x_tid :: uint32
  x_ppid :: uint32
  x_uid :: uint32
  x_gid :: uint32
  x_comm :: string
  x_filename :: string
  x_argv :: "string list"
  x_stale :: "uint8 list"

definition exec_record :: "exec_facts \<Rightarrow> wire" where
  "exec_record x =
     \<lparr>w_timestamp = x_timestamp x, w_cgroup = x_cgroup x, w_type = EventExec, w_pid = x_pid x, w_tid = x_tid x,
      w_ppid = x_ppid x, w_uid = x_uid x, w_gid = x_gid x, w_ret = 0,
      w_args_len = of_nat (length (pack_args (x_argv x))), w_sport = 0, w_dport = 0, w_family = 0, w_fmode = 0,
      w_saddr = replicate 16 0, w_daddr = replicate 16 0, w_comm = pad 16 (x_comm x),
      w_filename = pad 256 (x_filename x),
      w_args = pack_args (x_argv x) @ replicate (512 - length (pack_args (x_argv x))) 0, w_domain = x_stale x\<rparr>"

text \<open>The strings hold no zero byte and fit their fields.\<close>

definition exec_fits :: "exec_facts \<Rightarrow> bool" where
  "exec_fits x \<longleftrightarrow> no_nul (x_comm x) \<and> length (x_comm x) \<le> 16 \<and> no_nul (x_filename x) \<and>
     length (x_filename x) \<le> 256 \<and> list_all no_nul (x_argv x) \<and> length (pack_args (x_argv x)) \<le> 512 \<and>
     length (x_stale x) = 256"

text \<open>
  C32. Decoding inverts the sensor's encoding of an \<open>execve\<close> whose strings fit the record: the times,
  the control group, the process, thread, parent and user ids, the command name and the executable
  come back, the arguments are the non-empty ones of the argument vector in order, the command line
  is these joined by spaces, and every field the sensor does not fill has its zero value. The group
  id and the stale bytes of the domain field leave no trace in the event.
\<close>

theorem Decode_exec:
  assumes "exec_fits x"
  shows "Decode d (layout (exec_record x)) = Inr
    (zero_event\<lparr>e_SchemaVersion := SchemaVersion, e_MonotonicNs := x_timestamp x,
       e_Timestamp := add_int64 (d_BootUnixNano d) (sint (x_timestamp x)), e_Host := d_Hostname d,
       e_Type := EventExec, e_CgroupID := x_cgroup x, e_Action := ''exec'',
       e_Process := zero_process\<lparr>p_PID := x_pid x, p_TID := x_tid x, p_PPID := x_ppid x, p_Name := x_comm x,
         p_Executable := x_filename x, p_StartTimeNs := x_timestamp x,
         p_Args := filter (\<lambda>a. a \<noteq> []) (x_argv x),
         p_CommandLine := join '' '' (filter (\<lambda>a. a \<noteq> []) (x_argv x))\<rparr>,
       e_User := zero_user\<lparr>u_ID := x_uid x\<rparr>\<rparr>)"
proof -
  let ?w = "exec_record x"
  have wf: "wf_wire ?w"
    using assms by (simp add: wf_wire_def exec_record_def exec_fits_def)
  have fields: "cstr (w_comm ?w) = x_comm x" "cstr (w_filename ?w) = x_filename x"
    "parseArgs (w_args ?w) (w_args_len ?w) = filter (\<lambda>a. a \<noteq> []) (x_argv x)"
    using assms parseArgs_pack_args [of "x_argv x" 512] by (simp_all add: exec_record_def exec_fits_def cstr_pad)
  have nums: "w_type ?w = EventExec" "w_timestamp ?w = x_timestamp x" "w_cgroup ?w = x_cgroup x"
    "w_pid ?w = x_pid x" "w_tid ?w = x_tid x" "w_ppid ?w = x_ppid x" "w_uid ?w = x_uid x" "w_ret ?w = 0"
    by (simp_all add: exec_record_def)
  show ?thesis
    unfolding Decode_layout [OF wf] applyTypeSpecific_def
    by (simp add: layout_numbers layout_arrays [OF wf] fields nums Let_def zero_defs Action_def eventActions_def)
qed

definition sample_exec :: exec_facts where
  "sample_exec = \<lparr>x_timestamp = 5, x_cgroup = 77, x_pid = 42, x_tid = 43, x_ppid = 1, x_uid = 1000, x_gid = 100,
     x_comm = ''sh'', x_filename = ''/bin/sh'', x_argv = [''sh'', ''-c'', [], ''id''], x_stale = replicate 256 9\<rparr>"

theorem Decode_exec_witness:
  "\<exists>e. Decode \<lparr>d_BootUnixNano = 1000, d_Hostname = ''h''\<rparr> (layout (exec_record sample_exec)) = Inr e \<and>
   p_Args (e_Process e) = [''sh'', ''-c'', ''id''] \<and> p_CommandLine (e_Process e) = ''sh -c id'' \<and>
   p_PID (e_Process e) = 42 \<and> p_TID (e_Process e) = 43 \<and> e_CgroupID e = 77 \<and> u_ID (e_User e) = 1000"
  using Decode_exec [of sample_exec "\<lparr>d_BootUnixNano = 1000, d_Hostname = ''h''\<rparr>"]
  by (simp add: sample_exec_def exec_fits_def no_nul_def pack_args_def zero_defs)

text \<open>
  A record shorter than the struct is refused with its length, and every other one decodes.
\<close>

theorem Decode_short: "Decode d raw = Inl n \<longleftrightarrow> n = length raw \<and> length raw < WireSize"
  by (auto simp: Decode_def)

text \<open>
  A query whose labels fill the buffer without a terminating zero length still yields a name.
\<close>

theorem parseDNSName_unterminated:
  "parseDNSName (replicate 12 0 @ pack_labels [''evil'', ''com'']) = ''evil.com''"
  by code_simp

end
