(* ===== verification/Yara.thy ===== *)
theory Yara
  imports Argus_Prelude
begin

text \<open>
  The YARA-subset engine, \<^verbatim>\<open>internal/yara/yara.go\<close> and \<^verbatim>\<open>compile.go\<close>: pattern search, condition
  evaluation and the recursive-descent parser over a cursor. A slice expression past the end of the
  source panics in Go; that outcome is the error \<open>Panic\<close>. The loops and the mutual recursion of the
  parser run on fuel, and enough of it is proved.
\<close>

section \<open>Compiled rules (yara.go)\<close>

text \<open>Bytes are characters. \<open>hb_value\<close> is meaningful where \<open>hb_wild\<close> is false.\<close>

record hexByte =
  hb_value :: char
  hb_wild :: bool

record pattern =
  pt_id :: string
  pt_bytes :: "hexByte list"
  pt_nocase :: bool
  pt_text :: bool

datatype ycond =
    IdentNode string
  | BoolNode bool
  | NotNode ycond
  | AndNode ycond ycond
  | OrNode ycond ycond
  | QuantNode int

record yrule =
  yr_name :: string
  yr_meta :: "(string, string) gomap"
  yr_patterns :: "pattern list"
  yr_cond :: "ycond option"

record yengine =
  ye_rules :: "yrule list"

section \<open>Scanning (yara.go)\<close>

definition fold_byte :: "char \<Rightarrow> char" where
  "fold_byte b = (if is_upper b then char_of (of_char b + 32 :: nat) else b)"

fun matchAt :: "bool \<Rightarrow> hexByte list \<Rightarrow> string \<Rightarrow> bool" where
  "matchAt nocase [] window = True"
| "matchAt nocase (hb # hbs) [] = False"
| "matchAt nocase (hb # hbs) (got # window) =
     (if hb_wild hb then matchAt nocase hbs window
      else if nocase then (if fold_byte got \<noteq> fold_byte (hb_value hb) then False else matchAt nocase hbs window)
      else if got \<noteq> hb_value hb then False else matchAt nocase hbs window)"

text \<open>The loop tries the windows of length \<open>m\<close> from left to right.\<close>

fun window_loop :: "pattern \<Rightarrow> nat \<Rightarrow> string \<Rightarrow> bool" where
  "window_loop pat m [] = False"
| "window_loop pat m (b # data) =
     (if length (b # data) < m then False
      else if matchAt (pt_nocase pat) (pt_bytes pat) (take m (b # data)) then True
      else window_loop pat m data)"

definition patternMatches :: "pattern \<Rightarrow> string \<Rightarrow> bool" where
  "patternMatches pat data =
     (let n = length data; m = length (pt_bytes pat) in
      if m = 0 \<or> m > n then False else window_loop pat m data)"

fun yeval :: "ycond \<Rightarrow> (string \<Rightarrow> bool) \<Rightarrow> int \<Rightarrow> int \<Rightarrow> bool" where
  "yeval (IdentNode i) hits npat cnt = hits i"
| "yeval (BoolNode v) hits npat cnt = v"
| "yeval (NotNode c) hits npat cnt = (\<not> yeval c hits npat cnt)"
| "yeval (AndNode l r) hits npat cnt = (yeval l hits npat cnt \<and> yeval r hits npat cnt)"
| "yeval (OrNode l r) hits npat cnt = (yeval l hits npat cnt \<or> yeval r hits npat cnt)"
| "yeval (QuantNode need) hits npat cnt =
     (if need < 0 then cnt = npat else if need = 0 then cnt \<ge> 1 else cnt \<ge> need)"

text \<open>One rule: the loop over its patterns collects the ids that hit and their number.\<close>

fun hit_loop :: "string \<Rightarrow> pattern list \<Rightarrow> (string \<Rightarrow> bool) \<times> int \<Rightarrow> (string \<Rightarrow> bool) \<times> int" where
  "hit_loop data [] acc = acc"
| "hit_loop data (pat # pats) (hits, cnt) =
     hit_loop data pats (if patternMatches pat data then (hits(pt_id pat := True), cnt + 1) else (hits, cnt))"

definition rule_matches :: "yrule \<Rightarrow> string \<Rightarrow> bool" where
  "rule_matches r data =
     (let (hits, cnt) = hit_loop data (yr_patterns r) (\<lambda>_. False, 0)
      in case yr_cond r of
           Some c \<Rightarrow> yeval c hits (int (length (yr_patterns r))) cnt
         | None \<Rightarrow> False)"

definition Scan :: "yengine option \<Rightarrow> string \<Rightarrow> string list" where
  "Scan en data =
     (case en of
        None \<Rightarrow> []
      | Some e \<Rightarrow> if data = [] then []
                 else map yr_name (filter (\<lambda>r. rule_matches r data) (ye_rules e)))"

section \<open>The cursor (compile.go)\<close>

datatype yara_error = Panic | OutOfFuel | Syntax string nat

definition y_eof :: "string \<Rightarrow> nat \<Rightarrow> bool" where
  "y_eof src pos \<longleftrightarrow> pos \<ge> length src"

definition charAt :: "string \<Rightarrow> nat \<Rightarrow> char" where
  "charAt src i = (if i < length src then src ! i else CHR 0x00)"

text \<open>The length of a block comment's body: up to the closing mark or the end of the source.\<close>

fun comment_len :: "string \<Rightarrow> nat" where
  "comment_len [] = 0"
| "comment_len (c # cs) = (if c = CHR ''*'' \<and> charAt cs 0 = CHR ''/'' then 0 else Suc (comment_len cs))"

text \<open>One round of the loop: the new cursor, or \<open>None\<close> where it returns.\<close>

definition skip_step :: "string \<Rightarrow> nat \<Rightarrow> nat option" where
  "skip_step src pos =
     (if pos < length src then
        let c = src ! pos in
        if c = CHR '' '' \<or> c = CHR 0x09 \<or> c = CHR 0x0A \<or> c = CHR 0x0D then Some (pos + 1)
        else if c = CHR ''/'' \<and> charAt src (pos + 1) = CHR ''/'' then
          Some (pos + length (takeWhile (\<lambda>c. c \<noteq> CHR 0x0A) (drop pos src)))
        else if c = CHR ''/'' \<and> charAt src (pos + 1) = CHR ''*'' then
          Some (pos + 2 + comment_len (drop (pos + 2) src) + 2)
        else None
      else None)"

lemma skip_step_Some:
  assumes "skip_step src pos = Some pos'"
  shows "pos < pos' \<and> pos < length src"
proof -
  have "0 < length (takeWhile (\<lambda>c. c \<noteq> CHR 0x0A) (drop pos src))"
    if "pos < length src" "src ! pos = CHR ''/''"
    using that by (cases "drop pos src") (auto simp: nth_via_drop)
  then show ?thesis
    using assms by (auto simp: skip_step_def Let_def split: if_splits)
qed

function skipSpace :: "string \<Rightarrow> nat \<Rightarrow> nat" where
  "skipSpace src pos = (case skip_step src pos of None \<Rightarrow> pos | Some pos' \<Rightarrow> skipSpace src pos')"
  by pat_completeness auto

termination skipSpace
  by (relation "measure (\<lambda>(src, pos). length src - pos)")
    (use skip_step_Some in \<open>auto intro: diff_less_mono2\<close>)

declare skipSpace.simps [simp del]

definition is_ident_start :: "char \<Rightarrow> bool" where
  "is_ident_start c \<longleftrightarrow> c = CHR ''_'' \<or> is_lower c \<or> is_upper c"

text \<open>The slice \<open>src[start:pos]\<close> is out of range where the cursor is already past the end.\<close>

definition parseIdent :: "string \<Rightarrow> nat \<Rightarrow> yara_error + string \<times> nat" where
  "parseIdent src pos =
     (if pos > length src then Inl Panic
      else let w = (case drop pos src of
                      [] \<Rightarrow> []
                    | c # cs \<Rightarrow> if is_ident_start c then c # takeWhile (\<lambda>c. is_ident_start c \<or> is_digit c) cs else [])
           in Inr (w, pos + length w))"

definition acceptKeyword :: "string \<Rightarrow> string \<Rightarrow> nat \<Rightarrow> yara_error + bool \<times> nat" where
  "acceptKeyword kw src pos =
     sum_bind (parseIdent src (skipSpace src pos)) (\<lambda>(w, pos').
     if w = kw then Inr (True, pos') else Inr (False, pos))"

definition atSectionHeader :: "string \<Rightarrow> nat \<Rightarrow> yara_error + bool" where
  "atSectionHeader src pos =
     sum_bind (parseIdent src (skipSpace src pos)) (\<lambda>(w, pos').
     Inr (w \<noteq> [] \<and> charAt src (skipSpace src pos') = CHR '':''))"

section \<open>Literals (compile.go)\<close>

definition hexVal :: "char \<Rightarrow> int" where
  "hexVal c =
     (if is_digit c then int (of_char c) - 48
      else if CHR ''a'' \<le> c \<and> c \<le> CHR ''f'' then int (of_char c) - 87
      else if CHR ''A'' \<le> c \<and> c \<le> CHR ''F'' then int (of_char c) - 55
      else - 1)"

definition hex_pair :: "string \<Rightarrow> nat \<Rightarrow> char option" where
  "hex_pair src pos =
     (let hi = hexVal (charAt src pos); lo = hexVal (charAt src (pos + 1)) in
      if hi < 0 \<or> lo < 0 then None else Some (char_of (nat (16 * hi + lo))))"

definition parseEscape :: "string \<Rightarrow> nat \<Rightarrow> yara_error + char \<times> nat" where
  "parseEscape src pos =
     (if y_eof src pos then Inl (Syntax ''dangling escape'' pos)
      else let c = src ! pos; pos = pos + 1 in
        if c = CHR ''n'' then Inr (CHR 0x0A, pos)
        else if c = CHR ''t'' then Inr (CHR 0x09, pos)
        else if c = CHR ''r'' then Inr (CHR 0x0D, pos)
        else if c = CHR 0x5C then Inr (CHR 0x5C, pos)
        else if c = CHR 0x22 then Inr (CHR 0x22, pos)
        else if c = CHR ''x'' then
          (case hex_pair src pos of None \<Rightarrow> Inl (Syntax ''bad hex escape'' pos) | Some b \<Rightarrow> Inr (b, pos + 2))
        else Inl (Syntax ''unknown escape'' pos))"

fun string_loop :: "nat \<Rightarrow> string \<Rightarrow> nat \<Rightarrow> string \<Rightarrow> yara_error + string \<times> nat" where
  "string_loop 0 src pos out = Inl OutOfFuel"
| "string_loop (Suc n) src pos out =
     (if y_eof src pos then Inl (Syntax ''unterminated string'' pos)
      else let c = src ! pos in
        if c = CHR 0x22 then Inr (out, pos + 1)
        else if c = CHR 0x5C then
          sum_bind (parseEscape src (pos + 1)) (\<lambda>(esc, pos). string_loop n src pos (out @ [esc]))
        else string_loop n src (pos + 1) (out @ [c]))"

definition parseString :: "string \<Rightarrow> nat \<Rightarrow> yara_error + string \<times> nat" where
  "parseString src pos = string_loop (Suc (length src)) src (pos + 1) []"

fun hex_loop :: "nat \<Rightarrow> string \<Rightarrow> nat \<Rightarrow> hexByte list \<Rightarrow> yara_error + hexByte list \<times> nat" where
  "hex_loop 0 src pos out = Inl OutOfFuel"
| "hex_loop (Suc n) src pos out =
     (let pos = skipSpace src pos in
      if y_eof src pos then Inl (Syntax ''unterminated hex string'' pos)
      else if charAt src pos = CHR 0x7D then Inr (out, pos + 1)
      else if charAt src pos = CHR ''?'' then
        (if charAt src (pos + 1) \<noteq> CHR ''?'' then Inl (Syntax ''only full-byte wildcards are supported'' pos)
         else hex_loop n src (pos + 2) (out @ [\<lparr>hb_value = CHR 0x00, hb_wild = True\<rparr>]))
      else case hex_pair src pos of
        None \<Rightarrow> Inl (Syntax ''invalid hex byte'' pos)
      | Some b \<Rightarrow> hex_loop n src (pos + 2) (out @ [\<lparr>hb_value = b, hb_wild = False\<rparr>]))"

definition parseHex :: "string \<Rightarrow> nat \<Rightarrow> yara_error + hexByte list \<times> nat" where
  "parseHex src pos = hex_loop (Suc (length src)) src (pos + 1) []"

definition bytesToHex :: "string \<Rightarrow> hexByte list" where
  "bytesToHex b = map (\<lambda>c. \<lparr>hb_value = c, hb_wild = False\<rparr>) b"

definition is_blank :: "char \<Rightarrow> bool" where
  "is_blank c \<longleftrightarrow> c = CHR '' '' \<or> c = CHR 0x09 \<or> c = CHR 0x0A \<or> c = CHR 0x0D"

definition parseBareWord :: "string \<Rightarrow> nat \<Rightarrow> yara_error + string \<times> nat" where
  "parseBareWord src pos =
     (if pos > length src then Inl Panic
      else let w = takeWhile (\<lambda>c. \<not> is_blank c) (drop pos src) in Inr (w, pos + length w))"

text \<open>\<open>parseStringID\<close> is called on a dollar sign: the slice is the sign and the identifier after it.\<close>

definition parseStringID :: "string \<Rightarrow> nat \<Rightarrow> yara_error + string \<times> nat" where
  "parseStringID src pos =
     sum_bind (parseIdent src (pos + 1)) (\<lambda>(w, pos'). Inr (take (pos' - pos) (drop pos src), pos'))"

definition parseNumber :: "string \<Rightarrow> nat \<Rightarrow> int \<times> nat" where
  "parseNumber src pos =
     (let ds = takeWhile is_digit (drop pos src)
      in (foldl (\<lambda>n d. to_int64 (n * 10 + (int (of_char d) - 48))) 0 ds, pos + length ds))"

section \<open>Conditions (compile.go)\<close>

definition parseQuantifier :: "string \<Rightarrow> int \<Rightarrow> nat \<Rightarrow> yara_error + ycond \<times> nat" where
  "parseQuantifier src need pos =
     sum_bind (acceptKeyword ''of'' src pos) (\<lambda>(ok, pos).
     if \<not> ok then Inl (Syntax ''expected of'' pos)
     else sum_bind (acceptKeyword ''them'' src pos) (\<lambda>(ok, pos).
     if \<not> ok then Inl (Syntax ''expected them'' pos) else Inr (QuantNode need, pos)))"

text \<open>
  The four levels of the grammar. A parenthesis calls the topmost level again: that call is the
  argument \<open>inner\<close>, which the fuel of \<open>parseOr\<close> ties to itself.
\<close>

type_synonym cond_parser = "nat \<Rightarrow> yara_error + ycond \<times> nat"

definition parsePrimary :: "cond_parser \<Rightarrow> string \<Rightarrow> cond_parser" where
  "parsePrimary inner src pos =
     (let pos = skipSpace src pos; c = charAt src pos in
      if c = CHR ''('' then
        sum_bind (inner (pos + 1)) (\<lambda>(c, pos).
        let pos = skipSpace src pos in
        if charAt src pos \<noteq> CHR '')'' then Inl (Syntax ''expected )'' pos) else Inr (c, pos + 1))
      else if c = CHR ''$'' then sum_bind (parseStringID src pos) (\<lambda>(i, pos). Inr (IdentNode i, pos))
      else if is_digit c then (case parseNumber src pos of (need, pos) \<Rightarrow> parseQuantifier src need pos)
      else sum_bind (parseIdent src pos) (\<lambda>(w, pos).
        if w = ''true'' then Inr (BoolNode True, pos)
        else if w = ''false'' then Inr (BoolNode False, pos)
        else if w = ''all'' then parseQuantifier src (- 1) pos
        else if w = ''any'' then parseQuantifier src 0 pos
        else Inl (Syntax ''unexpected token in condition'' pos)))"

fun parseUnary :: "nat \<Rightarrow> cond_parser \<Rightarrow> string \<Rightarrow> cond_parser" where
  "parseUnary 0 inner src pos = Inl OutOfFuel"
| "parseUnary (Suc n) inner src pos =
     sum_bind (acceptKeyword ''not'' src pos) (\<lambda>(ok, pos).
     if ok then sum_bind (parseUnary n inner src pos) (\<lambda>(c, pos). Inr (NotNode c, pos))
     else parsePrimary inner src pos)"

fun and_loop :: "nat \<Rightarrow> cond_parser \<Rightarrow> string \<Rightarrow> ycond \<Rightarrow> cond_parser" where
  "and_loop 0 inner src left pos = Inl OutOfFuel"
| "and_loop (Suc n) inner src left pos =
     sum_bind (acceptKeyword ''and'' src pos) (\<lambda>(ok, pos).
     if ok then sum_bind (parseUnary (Suc (length src)) inner src pos) (\<lambda>(right, pos).
       and_loop n inner src (AndNode left right) pos)
     else Inr (left, pos))"

definition parseAnd :: "cond_parser \<Rightarrow> string \<Rightarrow> cond_parser" where
  "parseAnd inner src pos =
     sum_bind (parseUnary (Suc (length src)) inner src pos) (\<lambda>(left, pos).
     and_loop (Suc (length src)) inner src left pos)"

fun or_loop :: "nat \<Rightarrow> cond_parser \<Rightarrow> string \<Rightarrow> ycond \<Rightarrow> cond_parser" where
  "or_loop 0 inner src left pos = Inl OutOfFuel"
| "or_loop (Suc n) inner src left pos =
     sum_bind (acceptKeyword ''or'' src pos) (\<lambda>(ok, pos).
     if ok then sum_bind (parseAnd inner src pos) (\<lambda>(right, pos).
       or_loop n inner src (OrNode left right) pos)
     else Inr (left, pos))"

fun parseOr :: "nat \<Rightarrow> string \<Rightarrow> cond_parser" where
  "parseOr 0 src pos = Inl OutOfFuel"
| "parseOr (Suc n) src pos =
     sum_bind (parseAnd (parseOr n src) src pos) (\<lambda>(left, pos).
     or_loop (Suc (length src)) (parseOr n src) src left pos)"

definition parseCondition :: "string \<Rightarrow> cond_parser" where
  "parseCondition src pos = parseOr (Suc (length src)) src pos"

section \<open>Rules (compile.go)\<close>

fun meta_loop :: "nat \<Rightarrow> string \<Rightarrow> yrule \<Rightarrow> nat \<Rightarrow> yara_error + yrule \<times> nat" where
  "meta_loop 0 src r pos = Inl OutOfFuel"
| "meta_loop (Suc n) src r pos =
     sum_bind (atSectionHeader src pos) (\<lambda>header.
     if header then Inr (r, pos)
     else let pos = skipSpace src pos in
       if charAt src pos = CHR 0x7D then Inr (r, pos)
       else sum_bind (parseIdent src pos) (\<lambda>(key, pos).
         if key = [] then Inl (Syntax ''expected meta key'' pos)
         else let pos = skipSpace src pos in
           if charAt src pos \<noteq> CHR ''='' then Inl (Syntax ''expected = after meta key'' pos)
           else let pos = skipSpace src (pos + 1) in
             sum_bind (if charAt src pos = CHR 0x22 then parseString src pos else parseBareWord src pos) (\<lambda>(v, pos).
             meta_loop n src (r\<lparr>yr_meta := AList.update key v (yr_meta r)\<rparr>) pos)))"

definition parseMeta :: "string \<Rightarrow> yrule \<Rightarrow> nat \<Rightarrow> yara_error + yrule \<times> nat" where
  "parseMeta src r pos = meta_loop (Suc (length src)) src r pos"

fun modifier_loop :: "nat \<Rightarrow> string \<Rightarrow> bool \<Rightarrow> nat \<Rightarrow> yara_error + bool \<times> nat" where
  "modifier_loop 0 src nocase pos = Inl OutOfFuel"
| "modifier_loop (Suc n) src nocase pos =
     sum_bind (parseIdent src (skipSpace src pos)) (\<lambda>(w, pos').
     if w = ''nocase'' then modifier_loop n src True pos'
     else if w = ''ascii'' \<or> w = ''wide'' \<or> w = ''fullword'' \<or> w = ''private'' then modifier_loop n src nocase pos'
     else Inr (nocase, pos))"

definition parseStringModifiers :: "string \<Rightarrow> nat \<Rightarrow> yara_error + bool \<times> nat" where
  "parseStringModifiers src pos = modifier_loop (Suc (length src)) src False pos"

text \<open>The value of a string entry: its bytes, whether it is text, and whether it folds case.\<close>

definition parse_value :: "string \<Rightarrow> nat \<Rightarrow> yara_error + (hexByte list \<times> bool \<times> bool) \<times> nat" where
  "parse_value src pos =
     (if charAt src pos = CHR 0x22 then
        sum_bind (parseString src pos) (\<lambda>(t, pos).
        sum_bind (parseStringModifiers src pos) (\<lambda>(nocase, pos). Inr ((bytesToHex t, True, nocase), pos)))
      else if charAt src pos = CHR 0x7B then
        sum_bind (parseHex src pos) (\<lambda>(hx, pos). Inr ((hx, False, False), pos))
      else Inl (Syntax ''expected a text or hex value'' pos))"

fun strings_loop :: "nat \<Rightarrow> string \<Rightarrow> yrule \<Rightarrow> nat \<Rightarrow> yara_error + yrule \<times> nat" where
  "strings_loop 0 src r pos = Inl OutOfFuel"
| "strings_loop (Suc n) src r pos =
     sum_bind (atSectionHeader src pos) (\<lambda>header.
     if header then Inr (r, pos)
     else let pos = skipSpace src pos in
       if charAt src pos = CHR 0x7D then Inr (r, pos)
       else if charAt src pos \<noteq> CHR ''$'' then Inl (Syntax ''expected a string identifier'' pos)
       else sum_bind (parseStringID src pos) (\<lambda>(i, pos).
         let pos = skipSpace src pos in
         if charAt src pos \<noteq> CHR ''='' then Inl (Syntax ''expected ='' pos)
         else sum_bind (parse_value src (skipSpace src (pos + 1))) (\<lambda>((bs, txt, nocase), pos).
           if bs = [] then Inl (Syntax ''empty pattern'' pos)
           else strings_loop n src
             (r\<lparr>yr_patterns := yr_patterns r @ [\<lparr>pt_id = i, pt_bytes = bs, pt_nocase = nocase, pt_text = txt\<rparr>]\<rparr>) pos)))"

definition parseStrings :: "string \<Rightarrow> yrule \<Rightarrow> nat \<Rightarrow> yara_error + yrule \<times> nat" where
  "parseStrings src r pos = strings_loop (Suc (length src)) src r pos"

fun tag_loop :: "nat \<Rightarrow> string \<Rightarrow> nat \<Rightarrow> yara_error + nat" where
  "tag_loop 0 src pos = Inl OutOfFuel"
| "tag_loop (Suc n) src pos =
     (let pos = skipSpace src pos in
      if charAt src pos = CHR 0x7B then Inr pos
      else sum_bind (parseIdent src pos) (\<lambda>(w, pos). if w = [] then Inr pos else tag_loop n src pos))"

fun section_loop :: "nat \<Rightarrow> string \<Rightarrow> yrule \<Rightarrow> nat \<Rightarrow> yara_error + yrule \<times> nat" where
  "section_loop 0 src r pos = Inl OutOfFuel"
| "section_loop (Suc n) src r pos =
     (let pos = skipSpace src pos in
      if charAt src pos = CHR 0x7D then Inr (r, pos + 1)
      else if y_eof src pos then Inl (Syntax ''unterminated rule'' pos)
      else sum_bind (parseIdent src pos) (\<lambda>(sect, pos).
        let pos = skipSpace src pos in
        if charAt src pos \<noteq> CHR '':'' then Inl (Syntax ''expected : after section'' pos)
        else let pos = pos + 1 in
          sum_bind
            (if sect = ''meta'' then parseMeta src r pos
             else if sect = ''strings'' then parseStrings src r pos
             else if sect = ''condition'' then
               sum_bind (parseCondition src pos) (\<lambda>(c, pos). Inr (r\<lparr>yr_cond := Some c\<rparr>, pos))
             else Inl (Syntax ''unknown section'' pos))
            (\<lambda>(r, pos). section_loop n src r pos)))"

text \<open>What follows the name: the tags, the opening brace and the sections.\<close>

definition rule_body :: "string \<Rightarrow> string \<Rightarrow> nat \<Rightarrow> yara_error + yrule \<times> nat" where
  "rule_body src name pos =
     sum_bind (if charAt src pos = CHR '':'' then tag_loop (Suc (length src)) src (pos + 1) else Inr pos) (\<lambda>pos.
     let pos = skipSpace src pos in
     if charAt src pos \<noteq> CHR 0x7B then Inl (Syntax ''expected { to open rule'' pos)
     else sum_bind
       (section_loop (Suc (length src)) src
          \<lparr>yr_name = name, yr_meta = [], yr_patterns = [], yr_cond = None\<rparr> (pos + 1)) (\<lambda>(r, pos).
     if yr_cond r = None then Inl (Syntax ''rule has no condition'' pos) else Inr (r, pos)))"

definition parseRule :: "string \<Rightarrow> nat \<Rightarrow> yara_error + yrule \<times> nat" where
  "parseRule src pos =
     sum_bind (acceptKeyword ''rule'' src pos) (\<lambda>(ok, pos).
     if \<not> ok then Inl (Syntax ''expected rule'' pos)
     else sum_bind (parseIdent src (skipSpace src pos)) (\<lambda>(name, pos).
     if name = [] then Inl (Syntax ''expected rule name'' pos) else rule_body src name (skipSpace src pos)))"

fun rules_loop :: "nat \<Rightarrow> string \<Rightarrow> yrule list \<Rightarrow> nat \<Rightarrow> yara_error + yrule list" where
  "rules_loop 0 src rules pos = Inl OutOfFuel"
| "rules_loop (Suc n) src rules pos =
     (let pos = skipSpace src pos in
      if y_eof src pos then Inr rules
      else sum_bind (parseRule src pos) (\<lambda>(r, pos). rules_loop n src (rules @ [r]) pos))"

definition yara_Compile :: "string \<Rightarrow> yara_error + yengine" where
  "yara_Compile source =
     sum_bind (rules_loop (Suc (length source)) source [] 0) (\<lambda>rules.
     if rules = [] then Inl (Syntax ''no rules found'' (length source)) else Inr \<lparr>ye_rules = rules\<rparr>)"

section \<open>Scanning is search\<close>

text \<open>What a pattern means: some window of the data agrees with it byte for byte.\<close>

definition byte_ok :: "bool \<Rightarrow> hexByte \<Rightarrow> char \<Rightarrow> bool" where
  "byte_ok nocase hb b \<longleftrightarrow> hb_wild hb \<or> (if nocase then lower_char b = lower_char (hb_value hb) else b = hb_value hb)"

definition occurs_in :: "pattern \<Rightarrow> string \<Rightarrow> bool" where
  "occurs_in pat data \<longleftrightarrow> pt_bytes pat \<noteq> [] \<and>
     (\<exists>before window after. data = before @ window @ after \<and> list_all2 (byte_ok (pt_nocase pat)) (pt_bytes pat) window)"

lemma fold_byte_lower: "fold_byte b = lower_char b"
  by (simp add: fold_byte_def lower_char_def)

lemma matchAt_iff: "length hbs = length w \<Longrightarrow> matchAt nocase hbs w \<longleftrightarrow> list_all2 (byte_ok nocase) hbs w"
  by (induction nocase hbs w rule: matchAt.induct) (auto simp: byte_ok_def fold_byte_lower)

lemma window_loop_iff:
  assumes "m = length (pt_bytes pat)" "0 < m"
  shows "window_loop pat m data \<longleftrightarrow>
    (\<exists>before window after. data = before @ window @ after \<and> list_all2 (byte_ok (pt_nocase pat)) (pt_bytes pat) window)"
    (is "_ \<longleftrightarrow> ?occ data")
proof (induction data)
  case Nil
  then show ?case using assms by auto
next
  case (Cons b data)
  have "?occ (b # data) \<longleftrightarrow>
    (\<exists>window after. b # data = window @ after \<and> list_all2 (byte_ok (pt_nocase pat)) (pt_bytes pat) window) \<or> ?occ data"
    by (auto simp: Cons_eq_append_conv) blast+
  moreover have "(\<exists>window after. b # data = window @ after \<and> list_all2 (byte_ok (pt_nocase pat)) (pt_bytes pat) window)
    \<longleftrightarrow> m \<le> length (b # data) \<and> matchAt (pt_nocase pat) (pt_bytes pat) (take m (b # data))"
    (is "?L \<longleftrightarrow> ?R")
  proof
    assume ?L
    then obtain window after where "b # data = window @ after"
      "list_all2 (byte_ok (pt_nocase pat)) (pt_bytes pat) window"
      by blast
    moreover from this have "length window = m"
      using assms by (simp add: list_all2_lengthD)
    ultimately show ?R
      using assms by (simp add: matchAt_iff)
  next
    assume ?R
    then show ?L
      using assms matchAt_iff [of "pt_bytes pat" "take m (b # data)" "pt_nocase pat"]
      by (intro exI [of _ "take m (b # data)"] exI [of _ "drop m (b # data)"]) auto
  qed
  moreover have "?occ data \<longrightarrow> m \<le> length data"
    using assms by (auto dest: list_all2_lengthD)
  ultimately show ?case
    using Cons.IH by auto
qed

lemma patternMatches_iff: "patternMatches pat data \<longleftrightarrow> occurs_in pat data"
  using window_loop_iff [OF refl, of pat data]
  by (auto simp: patternMatches_def occurs_in_def Let_def dest: list_all2_lengthD)

fun ysat :: "pattern list \<Rightarrow> string \<Rightarrow> ycond \<Rightarrow> bool" where
  "ysat pats data (IdentNode i) = (\<exists>pat \<in> set pats. pt_id pat = i \<and> occurs_in pat data)"
| "ysat pats data (BoolNode v) = v"
| "ysat pats data (NotNode c) = (\<not> ysat pats data c)"
| "ysat pats data (AndNode l r) = (ysat pats data l \<and> ysat pats data r)"
| "ysat pats data (OrNode l r) = (ysat pats data l \<or> ysat pats data r)"
| "ysat pats data (QuantNode need) =
     (if need < 0 then \<forall>pat \<in> set pats. occurs_in pat data
      else if need = 0 then \<exists>pat \<in> set pats. occurs_in pat data
      else need \<le> int (length (filter (\<lambda>pat. occurs_in pat data) pats)))"

lemma hit_loop_eq:
  "hit_loop data pats (hits, cnt) =
     (\<lambda>i. hits i \<or> (\<exists>pat \<in> set pats. pt_id pat = i \<and> occurs_in pat data),
      cnt + int (length (filter (\<lambda>pat. occurs_in pat data) pats)))"
  by (induction data pats "(hits, cnt)" arbitrary: hits cnt rule: hit_loop.induct)
    (auto simp: patternMatches_iff fun_eq_iff)

lemma filter_all: "length (filter P xs) = length xs \<longleftrightarrow> (\<forall>x \<in> set xs. P x)"
proof (induction xs)
  case (Cons x xs)
  then show ?case
    using length_filter_le [of P xs] by (cases "P x") (auto simp del: length_filter_le)
qed simp

lemma filter_some: "1 \<le> length (filter P xs) \<longleftrightarrow> (\<exists>x \<in> set xs. P x)"
  by (induction xs) auto

lemma yeval_ysat:
  "yeval c (\<lambda>i. \<exists>pat \<in> set pats. pt_id pat = i \<and> occurs_in pat data) (int (length pats))
     (int (length (filter (\<lambda>pat. occurs_in pat data) pats))) = ysat pats data c"
proof (induction c)
  case (QuantNode need)
  then show ?case
    using filter_all [of "\<lambda>pat. occurs_in pat data" pats] filter_some [of "\<lambda>pat. occurs_in pat data" pats]
    by simp
qed auto

text \<open>
  C17. A scan returns, in rule order, the names of the rules whose condition holds of the data, where
  an identifier holds if one of its patterns occurs somewhere in the data (wildcards match any byte,
  \<open>nocase\<close> ignores ASCII case) and a quantifier counts the patterns that occur.
\<close>

theorem Scan_correct:
  "Scan (Some en) data = map yr_name (filter (\<lambda>r. data \<noteq> [] \<and>
     (\<exists>c. yr_cond r = Some c \<and> ysat (yr_patterns r) data c)) (ye_rules en))"
proof -
  have "rule_matches r data \<longleftrightarrow> (\<exists>c. yr_cond r = Some c \<and> ysat (yr_patterns r) data c)" for r
    by (auto simp: rule_matches_def hit_loop_eq yeval_ysat split: option.split)
  then show ?thesis
    by (simp add: Scan_def)
qed

section \<open>The parser always returns\<close>

text \<open>
  \<open>steps d pos r\<close>: the outcome is not a lack of fuel, and a success has moved the cursor from \<open>pos\<close>
  forward by at least \<open>d\<close>.
\<close>

definition steps :: "nat \<Rightarrow> nat \<Rightarrow> yara_error + 'a \<times> nat \<Rightarrow> bool" where
  "steps d pos r \<longleftrightarrow> (case r of Inl err \<Rightarrow> err \<noteq> OutOfFuel | Inr (v, pos') \<Rightarrow> pos + d \<le> pos')"

lemma steps_simps [simp]:
  "steps d pos (Inl err) \<longleftrightarrow> err \<noteq> OutOfFuel" "steps d pos (Inr (v, pos')) \<longleftrightarrow> pos + d \<le> pos'"
  by (simp_all add: steps_def)

lemma steps_mono: "steps d pos r \<Longrightarrow> pos0 + d0 \<le> pos + d \<Longrightarrow> steps d0 pos0 r"
  by (auto simp: steps_def split: sum.splits)

lemma steps_bind:
  assumes "steps d pos x" "\<And>v pos'. x = Inr (v, pos') \<Longrightarrow> pos + d \<le> pos' \<Longrightarrow> steps d' pos0 (f (v, pos'))"
  shows "steps d' pos0 (sum_bind x f)"
  using assms by (cases x) auto

lemma skipSpace_ge: "pos \<le> skipSpace src pos"
proof (induction src pos rule: skipSpace.induct)
  case (1 src pos)
  show ?case
  proof (cases "skip_step src pos")
    case None
    then show ?thesis by (subst skipSpace.simps) simp
  next
    case (Some pos')
    then have "pos' \<le> skipSpace src pos'" "pos < pos'"
      using 1 skip_step_Some by auto
    then show ?thesis using Some by (subst skipSpace.simps) simp
  qed
qed

lemma charAt_lt: "charAt src pos = c \<Longrightarrow> c \<noteq> CHR 0x00 \<Longrightarrow> pos < length src"
  by (auto simp: charAt_def split: if_splits)

lemma parseIdent_Inr: "parseIdent src pos = Inr (w, pos') \<Longrightarrow> pos' = pos + length w \<and> pos' \<le> length src"
proof -
  assume *: "parseIdent src pos = Inr (w, pos')"
  then have "pos' = pos + length w" "pos \<le> length src"
    by (auto simp: parseIdent_def Let_def split: if_splits)
  moreover have "length w \<le> length (drop pos src)"
    using * by (cases "drop pos src") (auto simp: parseIdent_def Let_def length_takeWhile_le split: if_splits)
  ultimately show ?thesis
    by simp
qed

lemma parseIdent_fuel: "parseIdent src pos \<noteq> Inl OutOfFuel"
  by (simp add: parseIdent_def Let_def)

lemma parseIdent_steps: "steps 0 pos (parseIdent src pos)"
  using parseIdent_fuel [of src pos]
  by (cases "parseIdent src pos") (auto dest: parseIdent_Inr)

lemma acceptKeyword_Inr:
  assumes "acceptKeyword kw src pos = Inr (ok, pos')" "kw \<noteq> []"
  shows "if ok then pos < pos' \<and> pos' \<le> length src else pos' = pos"
proof -
  obtain w q where w: "parseIdent src (skipSpace src pos) = Inr (w, q)"
    "(if w = kw then Inr (True, q) else Inr (False, pos)) = (Inr (ok, pos') :: yara_error + _)"
    using assms(1) unfolding acceptKeyword_def sum_bind_Inr by auto
  have "q = skipSpace src pos + length w" "q \<le> length src" "pos \<le> skipSpace src pos"
    using parseIdent_Inr [OF w(1)] skipSpace_ge by auto
  moreover have "w = [] \<longrightarrow> \<not> ok"
    using w(2) assms(2) by auto
  ultimately show ?thesis
    using w(2) by (cases "w = kw"; cases w) auto
qed

lemma acceptKeyword_steps: "kw \<noteq> [] \<Longrightarrow> steps 0 pos (acceptKeyword kw src pos)"
proof (cases "acceptKeyword kw src pos")
  case (Inl err)
  then show ?thesis
    by (auto simp: acceptKeyword_def sum_bind_Inl parseIdent_fuel split: if_splits)
next
  case (Inr r)
  moreover obtain ok pos' where "r = (ok, pos')"
    by (cases r)
  moreover assume "kw \<noteq> []"
  ultimately show ?thesis
    using acceptKeyword_Inr [of kw src pos ok pos'] by (simp split: if_splits)
qed

lemma atSectionHeader_fuel: "atSectionHeader src pos \<noteq> Inl OutOfFuel"
  by (auto simp: atSectionHeader_def sum_bind_Inl parseIdent_fuel)

lemma skipSpace_steps: "steps d (skipSpace src pos) r \<Longrightarrow> steps d pos r"
  using skipSpace_ge [of pos src] by (auto elim: steps_mono)

lemma parseEscape_steps: "steps 1 pos (parseEscape src pos)"
  by (auto simp: parseEscape_def Let_def y_eof_def split: option.split)

lemma string_loop_steps: "length src - pos < n \<Longrightarrow> steps 1 pos (string_loop n src pos out)"
proof (induction n arbitrary: pos out)
  case (Suc n)
  have rec: "steps 1 pos (string_loop n src q out')" if "pos < q" "pos < length src" for q out'
    by (rule steps_mono [OF Suc.IH]) (use that Suc.prems in auto)
  have "steps 1 pos (sum_bind (parseEscape src (pos + 1)) (\<lambda>(esc, q). string_loop n src q (out @ [esc])))"
    if "pos < length src"
    by (rule steps_bind [OF parseEscape_steps]) (use rec that in auto)
  then show ?case
    using rec by (auto simp: y_eof_def Let_def)
qed simp

lemma parseString_steps: "steps 1 pos (parseString src pos)"
  unfolding parseString_def by (rule steps_mono [OF string_loop_steps]) auto

lemma hex_loop_steps: "length src - pos < n \<Longrightarrow> steps 1 pos (hex_loop n src pos out)"
proof (induction n arbitrary: pos out)
  case (Suc n)
  let ?p = "skipSpace src pos"
  have rec: "steps 1 pos (hex_loop n src (Suc (Suc ?p)) out')" if "?p < length src" for out'
    by (rule steps_mono [OF Suc.IH]) (use that Suc.prems skipSpace_ge [of pos src] in auto)
  show ?case
    using rec skipSpace_ge [of pos src] by (auto simp: y_eof_def Let_def split: option.split)
qed simp

lemma parseHex_steps: "steps 1 pos (parseHex src pos)"
  unfolding parseHex_def by (rule steps_mono [OF hex_loop_steps]) auto

lemma parseBareWord_steps: "steps 0 pos (parseBareWord src pos)"
  by (simp add: parseBareWord_def Let_def)

lemma parseStringID_steps: "steps 1 pos (parseStringID src pos)"
  unfolding parseStringID_def by (rule steps_bind [OF parseIdent_steps]) auto

lemma parseNumber_snd: "is_digit (charAt src pos) \<Longrightarrow> pos < snd (parseNumber src pos)"
proof -
  assume d: "is_digit (charAt src pos)"
  then have pos: "pos < length src"
    by (auto simp: charAt_def is_digit_def split: if_splits)
  then have "drop pos src = charAt src pos # drop (Suc pos) src"
    by (simp add: charAt_def Cons_nth_drop_Suc)
  then show ?thesis
    using d by (simp add: parseNumber_def Let_def)
qed

lemma parseQuantifier_steps: "steps 0 pos (parseQuantifier src need pos)"
  unfolding parseQuantifier_def
proof (rule steps_bind [OF acceptKeyword_steps])
  fix ok q
  assume "pos + 0 \<le> q"
  then have "steps 0 q (sum_bind (acceptKeyword ''them'' src q) (\<lambda>(ok, pos).
      if \<not> ok then Inl (Syntax ''expected them'' pos) else Inr (QuantNode need, pos)))"
    by (intro steps_bind [OF acceptKeyword_steps]) auto
  then show "steps 0 pos (case (ok, q) of (ok, pos) \<Rightarrow> if \<not> ok then Inl (Syntax ''expected of'' pos)
      else sum_bind (acceptKeyword ''them'' src pos) (\<lambda>(ok, pos).
        if \<not> ok then Inl (Syntax ''expected them'' pos) else Inr (QuantNode need, pos)))"
    using \<open>pos + 0 \<le> q\<close> by (auto elim: steps_mono)
qed simp

text \<open>A parenthesised condition after \<open>pos\<close> can be parsed.\<close>

definition inner_ok :: "string \<Rightarrow> nat \<Rightarrow> cond_parser \<Rightarrow> bool" where
  "inner_ok src pos inner \<longleftrightarrow> (\<forall>q. pos < q \<longrightarrow> q \<le> length src \<longrightarrow> steps 0 q (inner q))"

lemma inner_ok_mono: "inner_ok src pos inner \<Longrightarrow> pos \<le> q \<Longrightarrow> inner_ok src q inner"
  by (simp add: inner_ok_def)

lemma parsePrimary_steps:
  assumes "inner_ok src pos inner"
  shows "steps 1 pos (parsePrimary inner src pos)"
proof -
  let ?p = "skipSpace src pos"
  have p: "pos \<le> ?p"
    by (rule skipSpace_ge)
  have paren: "steps 1 ?p (sum_bind (inner (?p + 1)) (\<lambda>(c, q). let q = skipSpace src q in
      if charAt src q \<noteq> CHR '')'' then Inl (Syntax ''expected )'' q) else Inr (c, q + 1)))"
    if "charAt src ?p = CHR ''(''"
  proof (rule steps_bind)
    show "steps 0 (?p + 1) (inner (?p + 1))"
      using assms p charAt_lt [OF that] by (simp add: inner_ok_def)
  next
    fix c q
    assume "?p + 1 + 0 \<le> q"
    then show "steps 1 ?p (case (c, q) of (c, q) \<Rightarrow> let q = skipSpace src q in
        if charAt src q \<noteq> CHR '')'' then Inl (Syntax ''expected )'' q) else Inr (c, q + 1))"
      using skipSpace_ge [of q src] by (auto simp: Let_def)
  qed
  have ident: "steps 1 ?p (sum_bind (parseStringID src ?p) (\<lambda>(i, q). Inr (IdentNode i, q)))"
    by (rule steps_bind [OF parseStringID_steps]) auto
  have number: "steps 1 ?p (case parseNumber src ?p of (need, q) \<Rightarrow> parseQuantifier src need q)"
    if "is_digit (charAt src ?p)"
    using parseNumber_snd [OF that] steps_mono [OF parseQuantifier_steps]
    by (cases "parseNumber src ?p") auto
  have word: "steps 1 ?p (sum_bind (parseIdent src ?p) (\<lambda>(w, q).
      if w = ''true'' then Inr (BoolNode True, q) else if w = ''false'' then Inr (BoolNode False, q)
      else if w = ''all'' then parseQuantifier src (- 1) q else if w = ''any'' then parseQuantifier src 0 q
      else Inl (Syntax ''unexpected token in condition'' q)))"
  proof (rule steps_bind [OF parseIdent_steps])
    fix w q
    assume "parseIdent src ?p = Inr (w, q)"
    then have "q = ?p + length w"
      using parseIdent_Inr by blast
    then show "steps 1 ?p (case (w, q) of (w, q) \<Rightarrow>
        if w = ''true'' then Inr (BoolNode True, q) else if w = ''false'' then Inr (BoolNode False, q)
        else if w = ''all'' then parseQuantifier src (- 1) q else if w = ''any'' then parseQuantifier src 0 q
        else Inl (Syntax ''unexpected token in condition'' q))"
      by (auto intro: steps_mono [OF parseQuantifier_steps])
  qed
  show ?thesis
    by (rule skipSpace_steps [of 1 src])
      (use paren ident number word in \<open>simp add: parsePrimary_def Let_def\<close>)
qed

lemma accept_steps:
  assumes "kw \<noteq> []" "\<And>q. pos < q \<Longrightarrow> q \<le> length src \<Longrightarrow> steps d pos (f True q)" "steps d pos (f False pos)"
  shows "steps d pos (sum_bind (acceptKeyword kw src pos) (\<lambda>(ok, q). f ok q))"
proof (rule steps_bind [OF acceptKeyword_steps [OF assms(1)]])
  fix ok q
  assume "acceptKeyword kw src pos = Inr (ok, q)"
  from acceptKeyword_Inr [OF this assms(1)] show "steps d pos (case (ok, q) of (ok, q) \<Rightarrow> f ok q)"
    using assms(2,3) by (cases ok) auto
qed

lemma parseUnary_steps:
  "length src - pos < n \<Longrightarrow> inner_ok src pos inner \<Longrightarrow> steps 1 pos (parseUnary n inner src pos)"
proof (induction n arbitrary: pos)
  case (Suc n)
  have "steps 1 pos (sum_bind (parseUnary n inner src q) (\<lambda>(c, pos). Inr (NotNode c, pos)))"
    if "pos < q" "q \<le> length src" for q
    by (rule steps_bind [OF Suc.IH]) (use that Suc.prems in \<open>auto elim: inner_ok_mono\<close>)
  then show ?case
    unfolding parseUnary.simps
    by (intro accept_steps) (use parsePrimary_steps Suc.prems(2) in auto)
qed simp

lemma and_loop_steps:
  "length src - pos < n \<Longrightarrow> inner_ok src pos inner \<Longrightarrow> steps 0 pos (and_loop n inner src left pos)"
proof (induction n arbitrary: pos left)
  case (Suc n)
  have "steps 0 pos (sum_bind (parseUnary (Suc (length src)) inner src q) (\<lambda>(right, pos).
      and_loop n inner src (AndNode left right) pos))" if "pos < q" "q \<le> length src" for q
  proof (rule steps_bind [OF parseUnary_steps])
    show "inner_ok src q inner" using that Suc.prems(2) by (auto elim: inner_ok_mono)
  next
    fix v q'
    assume "q + 1 \<le> q'"
    then show "steps 0 pos (case (v, q') of (right, pos) \<Rightarrow> and_loop n inner src (AndNode left right) pos)"
      using that Suc.prems by (auto intro!: steps_mono [OF Suc.IH] elim: inner_ok_mono)
  qed simp
  then show ?case
    unfolding and_loop.simps by (intro accept_steps) auto
qed simp

lemma parseAnd_steps: "inner_ok src pos inner \<Longrightarrow> steps 1 pos (parseAnd inner src pos)"
  unfolding parseAnd_def
proof (rule steps_bind [OF parseUnary_steps])
  fix left q
  assume "inner_ok src pos inner" "pos + 1 \<le> q"
  then show "steps 1 pos (case (left, q) of (left, pos) \<Rightarrow> and_loop (Suc (length src)) inner src left pos)"
    by (auto simp del: and_loop.simps intro!: steps_mono [OF and_loop_steps] elim: inner_ok_mono)
qed auto

lemma or_loop_steps:
  "length src - pos < n \<Longrightarrow> inner_ok src pos inner \<Longrightarrow> steps 0 pos (or_loop n inner src left pos)"
proof (induction n arbitrary: pos left)
  case (Suc n)
  have "steps 0 pos (sum_bind (parseAnd inner src q) (\<lambda>(right, pos). or_loop n inner src (OrNode left right) pos))"
    if "pos < q" "q \<le> length src" for q
  proof (rule steps_bind [OF parseAnd_steps])
    show "inner_ok src q inner" using that Suc.prems(2) by (auto elim: inner_ok_mono)
  next
    fix v q'
    assume "q + 1 \<le> q'"
    then show "steps 0 pos (case (v, q') of (right, pos) \<Rightarrow> or_loop n inner src (OrNode left right) pos)"
      using that Suc.prems by (auto intro!: steps_mono [OF Suc.IH] elim: inner_ok_mono)
  qed
  then show ?case
    unfolding or_loop.simps by (intro accept_steps) auto
qed simp

lemma parseOr_steps: "length src - pos < n \<Longrightarrow> steps 1 pos (parseOr n src pos)"
proof (induction n arbitrary: pos)
  case (Suc n)
  have inner: "inner_ok src pos (parseOr n src)"
    unfolding inner_ok_def using Suc.prems by (auto intro!: steps_mono [OF Suc.IH])
  show ?case
    unfolding parseOr.simps
  proof (rule steps_bind [OF parseAnd_steps [OF inner]])
    fix left q
    assume "pos + 1 \<le> q"
    then show "steps 1 pos (case (left, q) of (left, pos) \<Rightarrow> or_loop (Suc (length src)) (parseOr n src) src left pos)"
      using inner by (auto simp del: or_loop.simps intro!: steps_mono [OF or_loop_steps] elim: inner_ok_mono)
  qed
qed simp

lemma parseCondition_steps: "steps 1 pos (parseCondition src pos)"
  unfolding parseCondition_def by (rule parseOr_steps) simp

lemma ident_bind_steps:
  assumes "\<And>w q. q = pos + length w \<Longrightarrow> q \<le> length src \<Longrightarrow> steps d pos0 (f w q)"
  shows "steps d pos0 (sum_bind (parseIdent src pos) (\<lambda>(w, q). f w q))"
proof (rule steps_bind [OF parseIdent_steps])
  fix w q
  assume "parseIdent src pos = Inr (w, q)"
  from parseIdent_Inr [OF this] show "steps d pos0 (case (w, q) of (w, q) \<Rightarrow> f w q)"
    using assms by simp
qed

lemma header_bind_steps:
  "(\<And>h. steps d pos (f h)) \<Longrightarrow> steps d pos (sum_bind (atSectionHeader src pos) f)"
  using atSectionHeader_fuel [of src pos] by (cases "atSectionHeader src pos") auto

lemma meta_loop_steps: "length src - pos < n \<Longrightarrow> steps 0 pos (meta_loop n src r pos)"
proof (induction n arbitrary: pos r)
  case (Suc n)
  let ?p = "skipSpace src pos"
  have entry: "steps 0 pos (sum_bind (if charAt src q = CHR 0x22 then parseString src q else parseBareWord src q)
      (\<lambda>(v, q). meta_loop n src (r' v) q))" if "pos < q" "pos < length src" for q r'
  proof (rule steps_bind)
    show "steps 0 q (if charAt src q = CHR 0x22 then parseString src q else parseBareWord src q)"
      using steps_mono [OF parseString_steps] parseBareWord_steps by auto
  next
    fix v q'
    assume "q + 0 \<le> q'"
    then show "steps 0 pos (case (v, q') of (v, q) \<Rightarrow> meta_loop n src (r' v) q)"
      using that Suc.prems by (auto intro!: steps_mono [OF Suc.IH])
  qed
  have "steps 0 pos (sum_bind (parseIdent src ?p) (\<lambda>(key, q).
      if key = [] then Inl (Syntax ''expected meta key'' q)
      else let q = skipSpace src q in
        if charAt src q \<noteq> CHR ''='' then Inl (Syntax ''expected = after meta key'' q)
        else let q = skipSpace src (q + 1) in
          sum_bind (if charAt src q = CHR 0x22 then parseString src q else parseBareWord src q) (\<lambda>(v, q).
          meta_loop n src (r\<lparr>yr_meta := AList.update key v (yr_meta r)\<rparr>) q)))"
  proof (rule ident_bind_steps)
    fix key :: string and q
    assume q: "q = ?p + length key" "q \<le> length src"
    let ?q = "skipSpace src (skipSpace src q + 1)"
    have "pos < ?q \<and> pos < length src" if "key \<noteq> []"
      using that q skipSpace_ge [of pos src] skipSpace_ge [of q src] skipSpace_ge [of "skipSpace src q + 1" src]
      by (cases key) auto
    then show "steps 0 pos (if key = [] then Inl (Syntax ''expected meta key'' q)
      else let q = skipSpace src q in
        if charAt src q \<noteq> CHR ''='' then Inl (Syntax ''expected = after meta key'' q)
        else let q = skipSpace src (q + 1) in
          sum_bind (if charAt src q = CHR 0x22 then parseString src q else parseBareWord src q) (\<lambda>(v, q).
          meta_loop n src (r\<lparr>yr_meta := AList.update key v (yr_meta r)\<rparr>) q))"
      using entry [of ?q "\<lambda>v. r\<lparr>yr_meta := AList.update key v (yr_meta r)\<rparr>"]
      by (cases "key = []"; cases "charAt src (skipSpace src q) = CHR ''=''")
        (simp_all add: Let_def split del: if_split cong del: if_weak_cong)
  qed
  then show ?case
    unfolding meta_loop.simps
    by (intro header_bind_steps) (use skipSpace_ge [of pos src] in \<open>auto simp: Let_def\<close>)
qed simp

lemma modifier_loop_steps: "length src - pos < n \<Longrightarrow> steps 0 pos (modifier_loop n src b pos)"
proof (induction n arbitrary: pos b)
  case (Suc n)
  have rec: "steps 0 pos (modifier_loop n src b' q)" if "pos < q" "q \<le> length src" for q b'
    using that Suc.prems by (auto intro!: steps_mono [OF Suc.IH])
  show ?case
    unfolding modifier_loop.simps
  proof (rule ident_bind_steps)
    fix w :: string and q
    assume "q = skipSpace src pos + length w" "q \<le> length src"
    then have "pos < q \<and> q \<le> length src" if "w \<noteq> []"
      using that skipSpace_ge [of pos src] by (cases w) auto
    then have "steps 0 pos (modifier_loop n src b' q)" if "w \<noteq> []" for b'
      using that rec by blast
    then show "steps 0 pos (if w = ''nocase'' then modifier_loop n src True q
        else if w = ''ascii'' \<or> w = ''wide'' \<or> w = ''fullword'' \<or> w = ''private'' then modifier_loop n src b q
        else Inr (b, pos))"
      by (cases "w = []") (simp_all del: modifier_loop.simps)
  qed
qed simp

lemma parse_value_steps: "steps 1 pos (parse_value src pos)"
proof -
  have "steps 1 pos (sum_bind (parseString src pos) (\<lambda>(t, q).
      sum_bind (parseStringModifiers src q) (\<lambda>(nocase, q). Inr ((bytesToHex t, True, nocase), q))))"
  proof (rule steps_bind [OF parseString_steps])
    fix t q
    assume "pos + 1 \<le> q"
    moreover have "steps 0 q (parseStringModifiers src q)"
      unfolding parseStringModifiers_def by (rule modifier_loop_steps) simp
    ultimately show "steps 1 pos (case (t, q) of (t, q) \<Rightarrow>
        sum_bind (parseStringModifiers src q) (\<lambda>(nocase, q). Inr ((bytesToHex t, True, nocase), q)))"
      by (auto intro: steps_bind)
  qed
  moreover have "steps 1 pos (sum_bind (parseHex src pos) (\<lambda>(hx, pos). Inr ((hx, False, False), pos)))"
    by (rule steps_bind [OF parseHex_steps]) auto
  ultimately show ?thesis
    by (simp add: parse_value_def)
qed

lemma strings_loop_steps: "length src - pos < n \<Longrightarrow> steps 0 pos (strings_loop n src r pos)"
proof (induction n arbitrary: pos r)
  case (Suc n)
  let ?p = "skipSpace src pos"
  have tail: "steps 0 pos (sum_bind (parse_value src q) (\<lambda>((bs, txt, nocase), q).
      if bs = [] then Inl (Syntax ''empty pattern'' q) else strings_loop n src (r' bs txt nocase) q))"
    if "pos < q" "pos < length src" for q r'
  proof (rule steps_bind [OF parse_value_steps])
    fix v q'
    assume "q + 1 \<le> q'"
    then have "steps 0 pos (strings_loop n src r'' q')" for r''
      using that Suc.prems by (auto intro!: steps_mono [OF Suc.IH])
    then show "steps 0 pos ((\<lambda>((bs, txt, nocase), q).
        if bs = [] then Inl (Syntax ''empty pattern'' q) else strings_loop n src (r' bs txt nocase) q) (v, q'))"
      by (cases v) (simp del: strings_loop.simps)
  qed
  have "steps 0 pos (sum_bind (parseStringID src ?p) (\<lambda>(i, pos).
         let pos = skipSpace src pos in
         if charAt src pos \<noteq> CHR ''='' then Inl (Syntax ''expected ='' pos)
         else sum_bind (parse_value src (skipSpace src (pos + 1))) (\<lambda>((bs, txt, nocase), pos).
           if bs = [] then Inl (Syntax ''empty pattern'' pos) else strings_loop n src (r' i bs txt nocase) pos)))"
    if "charAt src ?p = CHR ''$''" for r'
  proof (rule steps_bind [OF parseStringID_steps])
    fix i q
    assume "?p + 1 \<le> q"
    then have "pos < skipSpace src (skipSpace src q + 1)" "pos < length src"
      using skipSpace_ge [of pos src] skipSpace_ge [of q src] skipSpace_ge [of "skipSpace src q + 1" src]
        charAt_lt [OF that] by auto
    then show "steps 0 pos (case (i, q) of (i, pos) \<Rightarrow>
         let pos = skipSpace src pos in
         if charAt src pos \<noteq> CHR ''='' then Inl (Syntax ''expected ='' pos)
         else sum_bind (parse_value src (skipSpace src (pos + 1))) (\<lambda>((bs, txt, nocase), pos).
           if bs = [] then Inl (Syntax ''empty pattern'' pos) else strings_loop n src (r' i bs txt nocase) pos))"
      using tail [of "skipSpace src (skipSpace src q + 1)" "r' i"] by (simp add: Let_def del: strings_loop.simps)
  qed
  then show ?case
    unfolding strings_loop.simps
    by (intro header_bind_steps) (use skipSpace_ge [of pos src] in \<open>auto simp: Let_def simp del: strings_loop.simps\<close>)
qed simp

lemma tag_loop_fuel:
  "length src - pos < n \<Longrightarrow> case tag_loop n src pos of Inl err \<Rightarrow> err \<noteq> OutOfFuel | Inr q \<Rightarrow> pos \<le> q"
proof (induction n arbitrary: pos)
  case (Suc n)
  let ?p = "skipSpace src pos"
  have p: "pos \<le> ?p"
    by (rule skipSpace_ge)
  show ?case
  proof (cases "parseIdent src ?p")
    case (Inl err)
    then show ?thesis
      using p parseIdent_fuel [of src ?p] by (auto simp: Let_def)
  next
    case (Inr wq)
    obtain w q where w: "parseIdent src ?p = Inr (w, q)"
      using Inr by (cases wq) auto
    have "q = ?p + length w" "q \<le> length src"
      using parseIdent_Inr [OF w] by auto
    moreover from this p have "pos < q" if "w \<noteq> []"
      using that by (cases w) auto
    moreover have "tag_loop (Suc n) src pos =
        (if charAt src ?p = CHR 0x7B then Inr ?p else if w = [] then Inr q else tag_loop n src q)"
      using w by (simp add: Let_def)
    moreover have "case tag_loop n src q of Inl err \<Rightarrow> err \<noteq> OutOfFuel | Inr q' \<Rightarrow> q \<le> q'" if "w \<noteq> []"
      by (rule Suc.IH) (use that Suc.prems calculation in linarith)
    ultimately show ?thesis
      using p by (cases "w = []") (auto split: sum.splits)
  qed
qed simp

lemma section_loop_steps: "length src - pos < n \<Longrightarrow> steps 1 pos (section_loop n src r pos)"
proof (induction n arbitrary: pos r)
  case (Suc n)
  let ?p = "skipSpace src pos"
  have body: "steps 0 q (if sect = ''meta'' then parseMeta src r q
      else if sect = ''strings'' then parseStrings src r q
      else if sect = ''condition'' then sum_bind (parseCondition src q) (\<lambda>(c, q). Inr (r\<lparr>yr_cond := Some c\<rparr>, q))
      else Inl (Syntax ''unknown section'' q))" for sect q
  proof -
    have "steps 0 q (sum_bind (parseCondition src q) (\<lambda>(c, q). Inr (r\<lparr>yr_cond := Some c\<rparr>, q)))"
      by (rule steps_bind [OF parseCondition_steps]) auto
    then show ?thesis
      by (simp add: parseMeta_def parseStrings_def meta_loop_steps strings_loop_steps
          del: meta_loop.simps strings_loop.simps)
  qed
  have rest: "steps 1 pos (sum_bind (if sect = ''meta'' then parseMeta src r q
      else if sect = ''strings'' then parseStrings src r q
      else if sect = ''condition'' then sum_bind (parseCondition src q) (\<lambda>(c, q). Inr (r\<lparr>yr_cond := Some c\<rparr>, q))
      else Inl (Syntax ''unknown section'' q)) (\<lambda>(r, q). section_loop n src r q))"
    if "pos < q" "pos < length src" for sect q
  proof (rule steps_bind [OF body])
    fix r' q'
    assume "q + 0 \<le> q'"
    then show "steps 1 pos (case (r', q') of (r, q) \<Rightarrow> section_loop n src r q)"
      using that Suc.prems by (auto simp del: section_loop.simps intro!: steps_mono [OF Suc.IH])
  qed
  have "steps 1 pos (sum_bind (parseIdent src ?p) (\<lambda>(sect, pos).
        let pos = skipSpace src pos in
        if charAt src pos \<noteq> CHR '':'' then Inl (Syntax ''expected : after section'' pos)
        else let pos = pos + 1 in
          sum_bind (if sect = ''meta'' then parseMeta src r pos
             else if sect = ''strings'' then parseStrings src r pos
             else if sect = ''condition'' then
               sum_bind (parseCondition src pos) (\<lambda>(c, pos). Inr (r\<lparr>yr_cond := Some c\<rparr>, pos))
             else Inl (Syntax ''unknown section'' pos))
            (\<lambda>(r, pos). section_loop n src r pos)))"
    if "?p < length src"
  proof (rule ident_bind_steps)
    fix sect :: string and q
    assume "q = ?p + length sect"
    then have "pos < skipSpace src q + 1" "pos < length src"
      using skipSpace_ge [of pos src] skipSpace_ge [of q src] that by auto
    then show "steps 1 pos (let pos = skipSpace src q in
        if charAt src pos \<noteq> CHR '':'' then Inl (Syntax ''expected : after section'' pos)
        else let pos = pos + 1 in
          sum_bind (if sect = ''meta'' then parseMeta src r pos
             else if sect = ''strings'' then parseStrings src r pos
             else if sect = ''condition'' then
               sum_bind (parseCondition src pos) (\<lambda>(c, pos). Inr (r\<lparr>yr_cond := Some c\<rparr>, pos))
             else Inl (Syntax ''unknown section'' pos))
            (\<lambda>(r, pos). section_loop n src r pos))"
      using rest [of "skipSpace src q + 1" sect] unfolding Let_def
      by (cases "charAt src (skipSpace src q) = CHR '':''") (simp_all split del: if_split cong del: if_weak_cong)
  qed
  then show ?case
    using skipSpace_ge [of pos src] unfolding section_loop.simps Let_def
    by (cases "charAt src ?p = CHR 0x7D"; cases "y_eof src ?p")
      (simp_all add: y_eof_def split del: if_split cong del: if_weak_cong)
qed simp

lemma rule_body_steps: "steps 1 pos (rule_body src name pos)"
proof -
  have tail: "steps 1 pos (let q = skipSpace src q' in
      if charAt src q \<noteq> CHR 0x7B then Inl (Syntax ''expected { to open rule'' q)
      else sum_bind (section_loop (Suc (length src)) src r (q + 1)) (\<lambda>(r, q).
        if yr_cond r = None then Inl (Syntax ''rule has no condition'' q) else Inr (r, q)))" if "pos \<le> q'" for q' r
  proof -
    have "steps 1 pos (sum_bind (section_loop (Suc (length src)) src r (skipSpace src q' + 1)) (\<lambda>(r, q).
        if yr_cond r = None then Inl (Syntax ''rule has no condition'' q) else Inr (r, q)))"
      by (rule steps_bind [OF section_loop_steps]) (use that skipSpace_ge [of q' src] in auto)
    then show ?thesis
      by (simp add: Let_def del: section_loop.simps)
  qed
  have "case tag_loop (Suc (length src)) src (pos + 1) of Inl err \<Rightarrow> err \<noteq> OutOfFuel | Inr q' \<Rightarrow> pos + 1 \<le> q'"
    by (rule tag_loop_fuel) simp
  then show ?thesis
    unfolding rule_body_def using tail
    by (cases "charAt src pos = CHR '':''"; cases "tag_loop (Suc (length src)) src (pos + 1)")
      (simp_all del: tag_loop.simps section_loop.simps)
qed

lemma parseRule_steps: "steps 1 pos (parseRule src pos)"
proof -
  have body: "steps 1 pos (rule_body src name (skipSpace src q))" if "pos \<le> q" for name q
    by (rule steps_mono [OF rule_body_steps]) (use that skipSpace_ge [of q src] in auto)
  have "steps 1 pos (sum_bind (parseIdent src (skipSpace src q)) (\<lambda>(name, pos).
      if name = [] then Inl (Syntax ''expected rule name'' pos) else rule_body src name (skipSpace src pos)))"
    if "pos < q" for q
    using body that skipSpace_ge [of q src] by (intro ident_bind_steps) auto
  then show ?thesis
    unfolding parseRule_def by (intro accept_steps) auto
qed

lemma rules_loop_fuel: "length src - pos < n \<Longrightarrow> rules_loop n src rules pos \<noteq> Inl OutOfFuel"
proof (induction n arbitrary: rules pos)
  case (Suc n)
  let ?p = "skipSpace src pos"
  have p: "pos \<le> ?p"
    by (rule skipSpace_ge)
  show ?case
  proof (cases "y_eof src ?p")
    case False
    have "steps 1 ?p (parseRule src ?p)"
      by (rule parseRule_steps)
    then show ?thesis
      using False p Suc.prems Suc.IH by (cases "parseRule src ?p") (auto simp: Let_def y_eof_def)
  qed (simp add: Let_def)
qed simp

text \<open>
  Compiling any YARA source returns: the fuel given to the loops and to the recursion of the
  parser is enough for every input, so the outcome is an engine, a syntax error or a panic.
\<close>

theorem yara_Compile_returns: "yara_Compile source \<noteq> Inl OutOfFuel"
  using rules_loop_fuel [of source 0 "Suc (length source)" "[]"]
  by (auto simp: yara_Compile_def sum_bind_Inl simp del: rules_loop.simps split: if_splits)

text \<open>
  An unterminated block comment after the keyword \<open>rule\<close> panics: the comment scanner leaves the
  cursor two bytes past the end of the source and the next identifier is sliced from there.
\<close>

theorem unterminated_comment_panics: "yara_Compile ''rule /*'' = Inl Panic"
  by code_simp

text \<open>
  A condition may name a string the rule does not define: the rule compiles and matches no data.
\<close>

theorem undefined_string_compiles:
  "\<exists>en. yara_Compile ''rule r { condition: $b }'' = Inr en \<and> length (ye_rules en) = 1 \<and> Scan (Some en) data = []"
proof -
  have "yara_Compile ''rule r { condition: $b }'' =
      Inr \<lparr>ye_rules = [\<lparr>yr_name = ''r'', yr_meta = [], yr_patterns = [], yr_cond = Some (IdentNode ''$b'')\<rparr>]\<rparr>"
    by code_simp
  then show ?thesis
    by (simp add: Scan_def rule_matches_def)
qed

end
