(* ===== verification/Enrich.thy ===== *)
theory Enrich
  imports Event_Model Yara
begin

text \<open>
  Event enrichment, \<^verbatim>\<open>internal/enrich\<close>: the process tree (\<^verbatim>\<open>proctree.go\<close>), the user, container and
  hash caches (\<^verbatim>\<open>users.go\<close>, \<^verbatim>\<open>containers.go\<close>, \<^verbatim>\<open>hash.go\<close>), the YARA scan (\<^verbatim>\<open>yarascan.go\<close>) and their
  composition (\<^verbatim>\<open>enricher.go\<close>). What the code reads of the host at a call is an argument. The caches
  share one contract, a locale interpreted on each of them.
\<close>

section \<open>The host\<close>

record file_stat =
  st_regular :: bool
  st_size :: int
  st_inode :: uint64
  st_mtime :: go_time

text \<open>
  The user database, the cgroup files, symbolic links, file status and file content (\<open>None\<close> where
  the call fails), and the hexadecimal SHA-256 of a content.
\<close>

record host_env =
  he_user :: "uint32 \<Rightarrow> string option"
  he_cgroup :: "uint32 \<Rightarrow> string option"
  he_readlink :: "string \<Rightarrow> string option"
  he_stat :: "string \<Rightarrow> file_stat option"
  he_read :: "string \<Rightarrow> string option"
  he_sha256 :: "string \<Rightarrow> string"

section \<open>The process tree (proctree.go)\<close>

definition defaultAncestryDepth :: nat where
  "defaultAncestryDepth = 16"

record procInfo =
  pi_ppid :: uint32
  pi_name :: string
  pi_exe :: string
  pi_startNs :: uint64

record processTree =
  pt_procs :: "uint32 \<rightharpoonup> procInfo"
  pt_maxDepth :: nat

definition NewProcessTree :: processTree where
  "NewProcessTree = \<lparr>pt_procs = Map.empty, pt_maxDepth = defaultAncestryDepth\<rparr>"

definition startOf :: "event \<Rightarrow> uint64" where
  "startOf e = (if p_StartTimeNs (e_Process e) \<noteq> 0 then p_StartTimeNs (e_Process e) else e_MonotonicNs e)"

text \<open>The loop: \<open>depth\<close> counts the rounds that are left.\<close>

fun ancestry_loop :: "(uint32 \<rightharpoonup> procInfo) \<Rightarrow> uint32 \<Rightarrow> nat \<Rightarrow> uint32 \<Rightarrow> string list" where
  "ancestry_loop procs pid 0 current = []"
| "ancestry_loop procs pid (Suc depth) current =
     (if current = 0 \<or> current = pid then []
      else case procs current of
             None \<Rightarrow> []
           | Some info \<Rightarrow> pi_name info # ancestry_loop procs pid depth (pi_ppid info))"

definition ancestry :: "processTree \<Rightarrow> uint32 \<Rightarrow> uint32 \<Rightarrow> string list" where
  "ancestry t pid ppid = ancestry_loop (pt_procs t) pid (pt_maxDepth t) ppid"

definition track :: "event \<Rightarrow> processTree \<Rightarrow> processTree" where
  "track e t =
     (let pid = p_PID (e_Process e); ty = e_Type e in
      if ty = EventExec \<or> ty = EventExecBlocked then
        t\<lparr>pt_procs := (pt_procs t)(pid \<mapsto> \<lparr>pi_ppid = p_PPID (e_Process e), pi_name = p_Name (e_Process e),
          pi_exe = p_Executable (e_Process e), pi_startNs = startOf e\<rparr>)\<rparr>
      else if ty = EventFork then
        t\<lparr>pt_procs := (pt_procs t)(pid \<mapsto> \<lparr>pi_ppid = p_PPID (e_Process e), pi_name = p_Name (e_Process e),
          pi_exe = [], pi_startNs = startOf e\<rparr>)\<rparr>
      else if ty = EventExit then t\<lparr>pt_procs := (pt_procs t)(pid := None)\<rparr>
      else t)"

definition annotate :: "processTree \<Rightarrow> process \<Rightarrow> process" where
  "annotate t p =
     (let p = (case pt_procs t (p_PPID p) of
                 Some parent \<Rightarrow> p\<lparr>p_ParentName := pi_name parent, p_ParentExecutable := pi_exe parent\<rparr>
               | None \<Rightarrow> p);
          p = (case pt_procs t (p_PID p) of
                 Some self \<Rightarrow> if p_StartTimeNs p = 0 then p\<lparr>p_StartTimeNs := pi_startNs self\<rparr> else p
               | None \<Rightarrow> p)
      in p\<lparr>p_Ancestors := ancestry t (p_PID p) (p_PPID p)\<rparr>)"

definition tree_Enrich :: "processTree \<Rightarrow> event \<Rightarrow> processTree \<times> event" where
  "tree_Enrich t e = (let t = track e t in (t, e\<lparr>e_Process := annotate t (e_Process e)\<rparr>))"

section \<open>Caches (users.go, containers.go, hash.go)\<close>

type_synonym userResolver = "uint32 \<rightharpoonup> string"

definition lookupSystemUser :: "host_env \<Rightarrow> uint32 \<Rightarrow> string \<times> bool" where
  "lookupSystemUser H uid = (case he_user H uid of None \<Rightarrow> ([], False) | Some n \<Rightarrow> (n, True))"

definition user_Name :: "host_env \<Rightarrow> userResolver \<Rightarrow> uint32 \<Rightarrow> string \<times> userResolver" where
  "user_Name H r uid =
     (case r uid of
        Some name \<Rightarrow> (name, r)
      | None \<Rightarrow> let (name, ok) = lookupSystemUser H uid in (name, r(uid \<mapsto> name)))"

definition is_hex :: "char \<Rightarrow> bool" where
  "is_hex c \<longleftrightarrow> is_digit c \<or> CHR ''a'' \<le> c \<and> c \<le> CHR ''f''"

text \<open>The leftmost match of the pattern, which prefers 64 characters over 32 at a position.\<close>

fun find_container_id :: "string \<Rightarrow> string" where
  "find_container_id [] = []"
| "find_container_id (c # s) =
     (if 64 \<le> length (c # s) \<and> list_all is_hex (take 64 (c # s)) then take 64 (c # s)
      else if 32 \<le> length (c # s) \<and> list_all is_hex (take 32 (c # s)) then take 32 (c # s)
      else find_container_id s)"

definition runtimeMarkers :: "(string \<times> string) list" where
  "runtimeMarkers = [(''docker'', ''docker''), (''crio'', ''cri-o''), (''containerd'', ''containerd''),
     (''kubepods'', ''containerd''), (''libpod'', ''podman'')]"

fun first_runtime :: "string \<Rightarrow> (string \<times> string) list \<Rightarrow> string" where
  "first_runtime cgroup [] = []"
| "first_runtime cgroup ((marker, runtime) # ms) =
     (if str_contains cgroup marker then runtime else first_runtime cgroup ms)"

definition parseContainer :: "string \<Rightarrow> container" where
  "parseContainer cgroup =
     (let i = find_container_id cgroup in
      if i = [] then zero_container
      else \<lparr>c_ID = i, c_Runtime = first_runtime cgroup runtimeMarkers\<rparr>)"

type_synonym containerResolver = "uint32 \<rightharpoonup> container"

definition container_Resolve :: "host_env \<Rightarrow> containerResolver \<Rightarrow> uint32 \<Rightarrow> container \<times> containerResolver" where
  "container_Resolve H r pid =
     (case r pid of
        Some c \<Rightarrow> (c, r)
      | None \<Rightarrow>
          (case he_cgroup H pid of
             None \<Rightarrow> (zero_container, r(pid \<mapsto> zero_container))
           | Some content \<Rightarrow> let c = parseContainer content in (c, r(pid \<mapsto> c))))"

record hasher =
  ha_cache :: "string \<rightharpoonup> string"
  ha_maxBytes :: int

definition hashFile :: "host_env \<Rightarrow> string \<Rightarrow> string" where
  "hashFile H path = (case he_read H path of None \<Rightarrow> [] | Some data \<Rightarrow> he_sha256 H data)"

definition cacheKey :: "string \<Rightarrow> file_stat \<Rightarrow> string" where
  "cacheKey path info = path @ ''|'' @ word_str (st_inode info) @ ''|'' @ int_str (unix_nano (st_mtime info))
     @ ''|'' @ int_str (st_size info)"

definition cached_hash :: "(string \<Rightarrow> string) \<Rightarrow> (string \<rightharpoonup> string) \<Rightarrow> string \<times> string \<Rightarrow> string \<times> (string \<rightharpoonup> string)" where
  "cached_hash digest cache k =
     (case cache (snd k) of
        Some v \<Rightarrow> (v, cache)
      | None \<Rightarrow> let d = digest (fst k) in (d, cache(snd k \<mapsto> d)))"

definition Hash :: "host_env \<Rightarrow> hasher \<Rightarrow> string \<Rightarrow> string \<times> hasher" where
  "Hash H h path =
     (case he_stat H path of
        None \<Rightarrow> ([], h)
      | Some info \<Rightarrow>
          (if \<not> st_regular info then ([], h)
           else if ha_maxBytes h > 0 \<and> st_size info > ha_maxBytes h then ([], h)
           else let (d, cache) = cached_hash (hashFile H) (ha_cache h) (path, cacheKey path info)
                in (d, h\<lparr>ha_cache := cache\<rparr>)))"

section \<open>YARA scanning (yarascan.go)\<close>

record yaraScanner =
  ys_engine :: yengine
  ys_maxBytes :: int

definition yara_Scan :: "host_env \<Rightarrow> yaraScanner \<Rightarrow> string \<Rightarrow> string list" where
  "yara_Scan H s path =
     (case he_stat H path of
        None \<Rightarrow> []
      | Some info \<Rightarrow>
          (if \<not> st_regular info then []
           else case he_read H path of
             None \<Rightarrow> []
           | Some content \<Rightarrow>
               Scan (Some (ys_engine s))
                 (if ys_maxBytes s > 0 then take (nat (ys_maxBytes s)) content else content)))"

section \<open>The enricher (enricher.go)\<close>

record enrich_options =
  eo_ProcessTree :: bool
  eo_ResolveUsers :: bool
  eo_ContainerAware :: bool
  eo_HashExecutables :: bool
  eo_HashMaxBytes :: int
  eo_Yara :: "yengine option"
  eo_YaraMaxBytes :: int

record enricher =
  er_tree :: "processTree option"
  er_users :: "userResolver option"
  er_containers :: "containerResolver option"
  er_hasher :: "hasher option"
  er_yara :: "yaraScanner option"

definition enrich_New :: "enrich_options \<Rightarrow> enricher" where
  "enrich_New opts =
     \<lparr>er_tree = (if eo_ProcessTree opts then Some NewProcessTree else None),
      er_users = (if eo_ResolveUsers opts then Some Map.empty else None),
      er_containers = (if eo_ContainerAware opts then Some Map.empty else None),
      er_hasher = (if eo_HashExecutables opts
        then Some \<lparr>ha_cache = Map.empty, ha_maxBytes = eo_HashMaxBytes opts\<rparr> else None),
      er_yara = map_option (\<lambda>en. \<lparr>ys_engine = en, ys_maxBytes = eo_YaraMaxBytes opts\<rparr>) (eo_Yara opts)\<rparr>"

definition is_exec :: "event \<Rightarrow> bool" where
  "is_exec e \<longleftrightarrow> e_Type e = EventExec \<or> e_Type e = EventExecBlocked"

definition scanExecutable :: "host_env \<Rightarrow> yaraScanner \<Rightarrow> event \<Rightarrow> event" where
  "scanExecutable H s e =
     (if is_exec e \<and> p_Executable (e_Process e) \<noteq> [] \<and> length (p_YaraMatches (e_Process e)) = 0
      then e\<lparr>e_Process := (e_Process e)\<lparr>p_YaraMatches := yara_Scan H s (p_Executable (e_Process e))\<rparr>\<rparr> else e)"

definition hashExecutable :: "host_env \<Rightarrow> hasher \<Rightarrow> event \<Rightarrow> event \<times> hasher" where
  "hashExecutable H h e =
     (if is_exec e \<and> p_Executable (e_Process e) \<noteq> [] \<and> p_SHA256 (e_Process e) = []
      then let (d, h) = Hash H h (p_Executable (e_Process e))
           in (e\<lparr>e_Process := (e_Process e)\<lparr>p_SHA256 := d\<rparr>\<rparr>, h)
      else (e, h))"

definition shellNames :: "string list" where
  "shellNames = [''sh'', ''bash'', ''dash'', ''zsh'', ''ksh'', ''ash'']"

definition isShell :: "string \<Rightarrow> bool" where
  "isShell name \<longleftrightarrow> name \<in> set shellNames"

definition stdioIsSocket :: "host_env \<Rightarrow> uint32 \<Rightarrow> bool" where
  "stdioIsSocket H pid \<longleftrightarrow>
     list_ex (\<lambda>fd. case he_readlink H (''/proc/'' @ word_str pid @ ''/fd/'' @ nat_str fd) of
         None \<Rightarrow> False
       | Some target \<Rightarrow> has_prefix target ''socket:'') [0, 1, 2]"

definition markStdioSocket :: "host_env \<Rightarrow> event \<Rightarrow> event" where
  "markStdioSocket H e =
     (if e_Type e \<noteq> EventExec \<or> p_StdioSocket (e_Process e) \<or> \<not> isShell (p_Name (e_Process e)) then e
      else e\<lparr>e_Process := (e_Process e)\<lparr>p_StdioSocket := stdioIsSocket H (p_PID (e_Process e))\<rparr>\<rparr>)"

text \<open>The steps of \<open>Enrich\<close>, one per component, in the order the code runs them.\<close>

definition tree_stage :: "enricher \<times> event \<Rightarrow> enricher \<times> event" where
  "tree_stage x = (case er_tree (fst x) of
     Some t \<Rightarrow> ((fst x)\<lparr>er_tree := Some (fst (tree_Enrich t (snd x)))\<rparr>, snd (tree_Enrich t (snd x)))
   | None \<Rightarrow> x)"

definition user_stage :: "host_env \<Rightarrow> enricher \<times> event \<Rightarrow> enricher \<times> event" where
  "user_stage H x = (case er_users (fst x) of
     Some r \<Rightarrow> if u_Name (e_User (snd x)) = []
       then ((fst x)\<lparr>er_users := Some (snd (user_Name H r (u_ID (e_User (snd x)))))\<rparr>,
             (snd x)\<lparr>e_User := (e_User (snd x))\<lparr>u_Name := fst (user_Name H r (u_ID (e_User (snd x))))\<rparr>\<rparr>)
       else x
   | None \<Rightarrow> x)"

definition container_stage :: "host_env \<Rightarrow> enricher \<times> event \<Rightarrow> enricher \<times> event" where
  "container_stage H x = (case er_containers (fst x) of
     Some r \<Rightarrow> if c_ID (e_Container (snd x)) = []
       then ((fst x)\<lparr>er_containers := Some (snd (container_Resolve H r (p_PID (e_Process (snd x)))))\<rparr>,
             (snd x)\<lparr>e_Container := fst (container_Resolve H r (p_PID (e_Process (snd x))))\<rparr>)
       else x
   | None \<Rightarrow> x)"

definition hash_stage :: "host_env \<Rightarrow> enricher \<times> event \<Rightarrow> enricher \<times> event" where
  "hash_stage H x = (case er_hasher (fst x) of
     Some h \<Rightarrow> ((fst x)\<lparr>er_hasher := Some (snd (hashExecutable H h (snd x)))\<rparr>, fst (hashExecutable H h (snd x)))
   | None \<Rightarrow> x)"

definition yara_stage :: "host_env \<Rightarrow> enricher \<times> event \<Rightarrow> enricher \<times> event" where
  "yara_stage H x = (case er_yara (fst x) of Some s \<Rightarrow> (fst x, scanExecutable H s (snd x)) | None \<Rightarrow> x)"

definition Enrich :: "host_env \<Rightarrow> enricher \<Rightarrow> event \<Rightarrow> enricher \<times> event" where
  "Enrich H er e =
     (let x = tree_stage (er, e);
          x = user_stage H x;
          x = container_stage H x;
          x = hash_stage H x;
          x = yara_stage H x
      in (fst x, markStdioSocket H (snd x)))"

section \<open>The contract of a cache\<close>

text \<open>
  A cache in front of a source that may change over time (\<open>s\<close>): a hit is answered from the cache,
  a miss is fetched and remembered.
\<close>

locale memo_cache =
  fixes get :: "'s \<Rightarrow> 'c \<Rightarrow> 'k \<Rightarrow> 'v \<times> 'c"
    and view :: "'c \<Rightarrow> 'k \<rightharpoonup> 'v"
    and fetch :: "'s \<Rightarrow> 'k \<Rightarrow> 'v"
  assumes hit: "view c k = Some v \<Longrightarrow> get s c k = (v, c)"
    and miss: "view c k = None \<Longrightarrow> fst (get s c k) = fetch s k"
    and miss_view: "view c k = None \<Longrightarrow> view (snd (get s c k)) = (view c)(k \<mapsto> fetch s k)"
begin

lemma get_value: "fst (get s c k) = (case view c k of Some v \<Rightarrow> v | None \<Rightarrow> fetch s k)"
  using hit miss by (auto split: option.split)

lemma get_view: "view (snd (get s c k)) = (view c)(k \<mapsto> fst (get s c k))"
proof (cases "view c k")
  case None
  then show ?thesis
    using miss miss_view by simp
next
  case (Some v)
  then show ?thesis
    using hit [OF Some, of s] by auto
qed

text \<open>An answer is kept for ever, whatever becomes of the source.\<close>

lemma sticky: "fst (get s' (snd (get s c k)) k) = fst (get s c k)"
  using get_value [of s' "snd (get s c k)" k] by (simp add: get_view)

lemma view_kept: "view c k = Some v \<Longrightarrow> view (snd (get s c k')) k = Some v"
  using get_view [of s c k'] hit [of c k v s] by (cases "k' = k") auto

text \<open>While the source does not change, the cache is invisible.\<close>

definition agrees :: "'s \<Rightarrow> 'c \<Rightarrow> bool" where
  "agrees s c \<longleftrightarrow> (\<forall>k v. view c k = Some v \<longrightarrow> v = fetch s k)"

lemma transparent: "agrees s c \<Longrightarrow> fst (get s c k) = fetch s k \<and> agrees s (snd (get s c k))"
  by (auto simp: agrees_def get_value get_view split: option.split)

end

definition user_fetch :: "host_env \<Rightarrow> uint32 \<Rightarrow> string" where
  "user_fetch H uid = fst (lookupSystemUser H uid)"

definition container_fetch :: "host_env \<Rightarrow> uint32 \<Rightarrow> container" where
  "container_fetch H pid = (case he_cgroup H pid of None \<Rightarrow> zero_container | Some content \<Rightarrow> parseContainer content)"

interpretation ucache: memo_cache user_Name "\<lambda>r. r" user_fetch
  by unfold_locales (auto simp: user_Name_def user_fetch_def case_prod_beta)

interpretation ccache: memo_cache container_Resolve "\<lambda>r. r" container_fetch
  by unfold_locales (auto simp: container_Resolve_def container_fetch_def Let_def split: option.split)

section \<open>What enrichment keeps and fills\<close>

lemma annotate_fields [simp]:
  "p_PID (annotate t p) = p_PID p" "p_TID (annotate t p) = p_TID p" "p_PPID (annotate t p) = p_PPID p"
  "p_Name (annotate t p) = p_Name p" "p_Executable (annotate t p) = p_Executable p"
  "p_CommandLine (annotate t p) = p_CommandLine p" "p_Args (annotate t p) = p_Args p"
  "p_ExitCode (annotate t p) = p_ExitCode p" "p_SHA256 (annotate t p) = p_SHA256 p"
  "p_StdioSocket (annotate t p) = p_StdioSocket p" "p_YaraMatches (annotate t p) = p_YaraMatches p"
  by (auto simp: annotate_def Let_def split: option.split)

lemma annotate_start:
  "p_StartTimeNs (annotate t p) =
     (case pt_procs t (p_PID p) of Some self \<Rightarrow> if p_StartTimeNs p = 0 then pi_startNs self else p_StartTimeNs p
      | None \<Rightarrow> p_StartTimeNs p)"
  by (auto simp: annotate_def Let_def split: option.split)

lemma annotate_ancestors: "p_Ancestors (annotate t p) = ancestry t (p_PID p) (p_PPID p)"
  by (auto simp: annotate_def Let_def split: option.split)

text \<open>
  The parts of an event no enricher touches, and those only a blank is filled in. The lineage, which
  the process tree overwrites, is neither; \<open>lineage_from\<close> below describes it.
\<close>

definition same_facts :: "event \<Rightarrow> event \<Rightarrow> bool" where
  "same_facts e e' \<longleftrightarrow>
     e_SchemaVersion e' = e_SchemaVersion e \<and> e_Timestamp e' = e_Timestamp e \<and> e_MonotonicNs e' = e_MonotonicNs e \<and>
     e_Host e' = e_Host e \<and> e_Type e' = e_Type e \<and> e_Action e' = e_Action e \<and> e_CgroupID e' = e_CgroupID e \<and>
     e_Ret e' = e_Ret e \<and> e_File e' = e_File e \<and> e_Network e' = e_Network e \<and> e_Syscall e' = e_Syscall e \<and>
     e_AnomalyScore e' = e_AnomalyScore e \<and> u_ID (e_User e') = u_ID (e_User e) \<and>
     (let p = e_Process e; p' = e_Process e' in
      p_PID p' = p_PID p \<and> p_TID p' = p_TID p \<and> p_PPID p' = p_PPID p \<and> p_Name p' = p_Name p \<and>
      p_Executable p' = p_Executable p \<and> p_CommandLine p' = p_CommandLine p \<and> p_Args p' = p_Args p \<and>
      p_ExitCode p' = p_ExitCode p)"

definition fills_blanks :: "event \<Rightarrow> event \<Rightarrow> bool" where
  "fills_blanks e e' \<longleftrightarrow>
     (u_Name (e_User e) \<noteq> [] \<longrightarrow> u_Name (e_User e') = u_Name (e_User e)) \<and>
     (c_ID (e_Container e) \<noteq> [] \<longrightarrow> e_Container e' = e_Container e) \<and>
     (p_SHA256 (e_Process e) \<noteq> [] \<longrightarrow> p_SHA256 (e_Process e') = p_SHA256 (e_Process e)) \<and>
     (p_YaraMatches (e_Process e) \<noteq> [] \<longrightarrow> p_YaraMatches (e_Process e') = p_YaraMatches (e_Process e)) \<and>
     (p_StartTimeNs (e_Process e) \<noteq> 0 \<longrightarrow> p_StartTimeNs (e_Process e') = p_StartTimeNs (e_Process e)) \<and>
     (p_StdioSocket (e_Process e) \<longrightarrow> p_StdioSocket (e_Process e'))"

definition enriches :: "event \<Rightarrow> event \<Rightarrow> bool" where
  "enriches e e' \<longleftrightarrow> same_facts e e' \<and> fills_blanks e e'"

lemma enriches_refl [simp]: "enriches e e"
  by (simp add: enriches_def same_facts_def fills_blanks_def)

lemma enriches_trans: "enriches e1 e2 \<Longrightarrow> enriches e2 e3 \<Longrightarrow> enriches e1 e3"
  unfolding enriches_def same_facts_def fills_blanks_def Let_def by simp

text \<open>Each enricher enriches.\<close>

lemma tree_enriches: "enriches e (snd (tree_Enrich t e))"
  by (auto simp: tree_Enrich_def Let_def enriches_def same_facts_def fills_blanks_def annotate_start split: option.split)

lemma user_enriches: "u_Name (e_User e) = [] \<Longrightarrow> enriches e (e\<lparr>e_User := (e_User e)\<lparr>u_Name := n\<rparr>\<rparr>)"
  by (simp add: enriches_def same_facts_def fills_blanks_def)

lemma container_enriches: "c_ID (e_Container e) = [] \<Longrightarrow> enriches e (e\<lparr>e_Container := c\<rparr>)"
  by (simp add: enriches_def same_facts_def fills_blanks_def)

lemma hash_enriches: "enriches e (fst (hashExecutable H h e))"
  by (simp add: hashExecutable_def case_prod_beta enriches_def same_facts_def fills_blanks_def)

lemma scan_enriches: "enriches e (scanExecutable H s e)"
  by (simp add: scanExecutable_def enriches_def same_facts_def fills_blanks_def)

lemma stdio_enriches: "enriches e (markStdioSocket H e)"
  by (simp add: markStdioSocket_def enriches_def same_facts_def fills_blanks_def)

lemma stage_enriches:
  "enriches (snd x) (snd (tree_stage x))" "enriches (snd x) (snd (user_stage H x))"
  "enriches (snd x) (snd (container_stage H x))" "enriches (snd x) (snd (hash_stage H x))"
  "enriches (snd x) (snd (yara_stage H x))"
  by (auto simp: tree_stage_def user_stage_def container_stage_def hash_stage_def yara_stage_def
      tree_enriches user_enriches container_enriches hash_enriches scan_enriches split: option.split)

lemma Enrich_enriches: "enriches e (snd (Enrich H er e))"
proof -
  note trans = enriches_trans [OF _ stage_enriches(1)] enriches_trans [OF _ stage_enriches(2)]
    enriches_trans [OF _ stage_enriches(3)] enriches_trans [OF _ stage_enriches(4)]
    enriches_trans [OF _ stage_enriches(5)] enriches_trans [OF _ stdio_enriches]
  have "enriches e (snd (er, e))"
    by simp
  then show ?thesis
    unfolding Enrich_def Let_def snd_conv by (intro trans) simp
qed

text \<open>
  The lineage is the exception: the process tree writes it afresh, over what the event carried. The
  parent's name and executable are those of the tracked parent, where the tree knows it, and the
  ancestors are the tree's chain. Without a tree all three stay as they were.
\<close>

definition lineage_from :: "processTree option \<Rightarrow> event \<Rightarrow> event \<Rightarrow> bool" where
  "lineage_from tree e e' \<longleftrightarrow>
     (let p = e_Process e; p' = e_Process e' in
      case tree of
        None \<Rightarrow> p_ParentName p' = p_ParentName p \<and> p_ParentExecutable p' = p_ParentExecutable p \<and>
          p_Ancestors p' = p_Ancestors p
      | Some t \<Rightarrow> p_Ancestors p' = ancestry t (p_PID p) (p_PPID p) \<and>
          (case pt_procs t (p_PPID p) of
             Some parent \<Rightarrow> p_ParentName p' = pi_name parent \<and> p_ParentExecutable p' = pi_exe parent
           | None \<Rightarrow> p_ParentName p' = p_ParentName p \<and> p_ParentExecutable p' = p_ParentExecutable p))"

definition same_lineage :: "enricher \<times> event \<Rightarrow> enricher \<times> event \<Rightarrow> bool" where
  "same_lineage x y \<longleftrightarrow> er_tree (fst y) = er_tree (fst x) \<and>
     p_ParentName (e_Process (snd y)) = p_ParentName (e_Process (snd x)) \<and>
     p_ParentExecutable (e_Process (snd y)) = p_ParentExecutable (e_Process (snd x)) \<and>
     p_Ancestors (e_Process (snd y)) = p_Ancestors (e_Process (snd x))"

lemma stages_keep_lineage:
  "same_lineage x (user_stage H x)" "same_lineage x (container_stage H x)" "same_lineage x (hash_stage H x)"
  "same_lineage x (yara_stage H x)" "same_lineage x (fst x, markStdioSocket H (snd x))"
  by (simp_all add: same_lineage_def user_stage_def container_stage_def hash_stage_def yara_stage_def
      hashExecutable_def scanExecutable_def markStdioSocket_def case_prod_beta split: option.split)

lemma tree_stage_lineage:
  "er_tree (fst (tree_stage (er, e))) = map_option (track e) (er_tree er)"
  "lineage_from (er_tree (fst (tree_stage (er, e)))) e (snd (tree_stage (er, e)))"
  by (auto simp: tree_stage_def tree_Enrich_def lineage_from_def annotate_def Let_def split: option.split)

lemma same_lineage_from:
  "same_lineage x y \<Longrightarrow> lineage_from (er_tree (fst y)) e (snd y) = lineage_from (er_tree (fst x)) e (snd x)"
  by (auto simp: same_lineage_def lineage_from_def Let_def split: option.split)

lemma same_lineage_tree: "same_lineage x y \<Longrightarrow> er_tree (fst y) = er_tree (fst x)"
  by (simp add: same_lineage_def)

lemma Enrich_lineage:
  "er_tree (fst (Enrich H er e)) = map_option (track e) (er_tree er)"
  "lineage_from (er_tree (fst (Enrich H er e))) e (snd (Enrich H er e))"
proof -
  have E: "Enrich H er e = (\<lambda>x. (fst x, markStdioSocket H (snd x)))
      (yara_stage H (hash_stage H (container_stage H (user_stage H (tree_stage (er, e))))))"
    by (simp add: Enrich_def Let_def)
  show "er_tree (fst (Enrich H er e)) = map_option (track e) (er_tree er)"
    unfolding E using tree_stage_lineage(1) stages_keep_lineage [THEN same_lineage_tree] by simp
  show "lineage_from (er_tree (fst (Enrich H er e))) e (snd (Enrich H er e))"
    unfolding E using tree_stage_lineage(2) [of er e] stages_keep_lineage [THEN same_lineage_from] by simp
qed

text \<open>
  C31. Enrichment never rewrites what the sensor reported: type, times, ids, names, arguments, file,
  network and syscall data are kept, and user name, container, hash, YARA matches and start time are
  only filled in where they were blank; a set stdio flag stays set. Parent name, parent executable
  and ancestors are overwritten even when set: with a process tree they are those of the tree that
  has recorded this event (the parent's only where the tree knows the parent), without one they stay.
\<close>

theorem Enrich_keeps_facts:
  "enriches e (snd (Enrich H er e)) \<and>
   er_tree (fst (Enrich H er e)) = map_option (track e) (er_tree er) \<and>
   lineage_from (er_tree (fst (Enrich H er e))) e (snd (Enrich H er e))"
  by (intro conjI Enrich_enriches Enrich_lineage)

section \<open>Ancestry\<close>

text \<open>
  A chain of the tree: process ids, each the parent of the one before, starting at \<open>start\<close>, none of
  them 0 or the process itself, with their names.
\<close>

fun parent_chain :: "(uint32 \<rightharpoonup> procInfo) \<Rightarrow> uint32 \<Rightarrow> uint32 \<Rightarrow> string list \<Rightarrow> uint32 \<Rightarrow> bool" where
  "parent_chain procs pid start [] z = (start = z)"
| "parent_chain procs pid start (n # ns) z =
     (start \<noteq> 0 \<and> start \<noteq> pid \<and>
      (\<exists>info. procs start = Some info \<and> pi_name info = n \<and> parent_chain procs pid (pi_ppid info) ns z))"

lemma ancestry_loop_chain:
  "\<exists>z. parent_chain procs pid start (ancestry_loop procs pid depth start) z \<and>
     length (ancestry_loop procs pid depth start) \<le> depth \<and>
     (length (ancestry_loop procs pid depth start) < depth \<longrightarrow> z = 0 \<or> z = pid \<or> procs z = None)"
  by (induction procs pid depth start rule: ancestry_loop.induct) (auto split: option.split)

text \<open>
  The ancestors of an enriched event are a chain of the tree, at most 16 long, that starts at
  the parent and stops early only at pid 0, at the process itself or at an unknown process.
\<close>

theorem ancestors_are_a_chain:
  assumes "pt_maxDepth t = defaultAncestryDepth"
  shows "\<exists>z. parent_chain (pt_procs (fst (tree_Enrich t e))) (p_PID (e_Process e)) (p_PPID (e_Process e))
      (p_Ancestors (e_Process (snd (tree_Enrich t e)))) z \<and>
    length (p_Ancestors (e_Process (snd (tree_Enrich t e)))) \<le> 16 \<and>
    (length (p_Ancestors (e_Process (snd (tree_Enrich t e)))) < 16 \<longrightarrow>
       z = 0 \<or> z = p_PID (e_Process e) \<or> pt_procs (fst (tree_Enrich t e)) z = None)"
proof -
  have "pt_maxDepth (track e t) = 16"
    using assms by (simp add: track_def Let_def defaultAncestryDepth_def)
  then show ?thesis
    using ancestry_loop_chain [of "pt_procs (track e t)" "p_PID (e_Process e)" "p_PPID (e_Process e)" 16]
    by (simp add: tree_Enrich_def Let_def annotate_ancestors ancestry_def)
qed

definition sample_fork :: "uint32 \<Rightarrow> uint32 \<Rightarrow> string \<Rightarrow> event" where
  "sample_fork pid ppid name = zero_event\<lparr>e_Type := EventFork, e_MonotonicNs := 9,
     e_Process := zero_process\<lparr>p_PID := pid, p_PPID := ppid, p_Name := name\<rparr>\<rparr>"

theorem ancestors_are_a_chain_witness:
  "\<exists>z. parent_chain (pt_procs (fst (tree_Enrich NewProcessTree (sample_fork 7 1 ''sh'')))) 7 1
      (p_Ancestors (e_Process (snd (tree_Enrich NewProcessTree (sample_fork 7 1 ''sh''))))) z"
  using ancestors_are_a_chain [of NewProcessTree "sample_fork 7 1 ''sh''"]
  by (auto simp: NewProcessTree_def sample_fork_def zero_defs)

section \<open>Process keys\<close>

definition lifecycle :: "event \<Rightarrow> bool" where
  "lifecycle e \<longleftrightarrow> e_Type e = EventExec \<or> e_Type e = EventExecBlocked \<or> e_Type e = EventFork \<or> e_Type e = EventExit"

definition run_tree :: "processTree \<Rightarrow> event list \<Rightarrow> processTree" where
  "run_tree t es = foldl (\<lambda>t e. fst (tree_Enrich t e)) t es"

lemma track_other:
  "\<not> (lifecycle e \<and> p_PID (e_Process e) = pid) \<Longrightarrow> pt_procs (track e t) pid = pt_procs t pid"
  by (auto simp: track_def lifecycle_def Let_def)

lemma run_tree_other:
  "list_all (\<lambda>e. \<not> (lifecycle e \<and> p_PID (e_Process e) = pid)) es \<Longrightarrow>
     pt_procs (run_tree t es) pid = pt_procs t pid"
  by (induction es arbitrary: t) (auto simp: run_tree_def tree_Enrich_def Let_def track_other)

lemma track_start:
  "e_Type e = EventExec \<or> e_Type e = EventExecBlocked \<or> e_Type e = EventFork \<Longrightarrow>
     map_option pi_startNs (pt_procs (track e t) (p_PID (e_Process e))) = Some (startOf e)"
  by (auto simp: track_def Let_def)

text \<open>
  From the exec or fork that starts it, every later event of a process that is not itself a
  lifecycle event and carries no start time gets the same process key, whatever other processes do
  in between.
\<close>

theorem process_key_stable:
  assumes "e_Type e0 = EventExec \<or> e_Type e0 = EventExecBlocked \<or> e_Type e0 = EventFork"
    and "list_all (\<lambda>e. \<not> (lifecycle e \<and> p_PID (e_Process e) = p_PID (e_Process e0))) es"
    and "\<not> lifecycle e" "p_PID (e_Process e) = p_PID (e_Process e0)" "p_StartTimeNs (e_Process e) = 0"
  shows "ProcessKey (snd (tree_Enrich (run_tree t (e0 # es)) e)) = ProcessKey (snd (tree_Enrich t e0))"
proof -
  let ?pid = "p_PID (e_Process e0)"
  have t0: "map_option pi_startNs (pt_procs (track e0 t) ?pid) = Some (startOf e0)"
    by (rule track_start) (rule assms(1))
  have "pt_procs (run_tree t (e0 # es)) ?pid = pt_procs (track e0 t) ?pid"
    using run_tree_other [OF assms(2), of "track e0 t"] by (simp add: run_tree_def tree_Enrich_def Let_def)
  then have "map_option pi_startNs (pt_procs (track e (run_tree t (e0 # es))) ?pid) = Some (startOf e0)"
    using t0 assms(3) track_other [of e ?pid] by auto
  then have "p_StartTimeNs (e_Process (snd (tree_Enrich (run_tree t (e0 # es)) e))) = startOf e0"
    using assms(4,5) by (auto simp: tree_Enrich_def Let_def annotate_start)
  moreover have "p_StartTimeNs (e_Process (snd (tree_Enrich t e0))) = startOf e0"
    using t0 by (auto simp: tree_Enrich_def Let_def annotate_start startOf_def)
  ultimately show ?thesis
    using assms(4) by (simp add: ProcessKey_def tree_Enrich_def Let_def)
qed

theorem process_key_stable_witness:
  "ProcessKey (snd (tree_Enrich (run_tree NewProcessTree [sample_fork 7 1 ''sh'', sample_fork 8 7 ''id''])
     (zero_event\<lparr>e_Type := EventOpen, e_Process := zero_process\<lparr>p_PID := 7\<rparr>\<rparr>))) =
   ProcessKey (snd (tree_Enrich NewProcessTree (sample_fork 7 1 ''sh'')))"
  by (rule process_key_stable) (simp_all add: sample_fork_def lifecycle_def zero_defs)

text \<open>
  The exit event of a known process is not stamped: the tree forgets the process first, so an
  exit without a start time keeps the key \<open>pid:0\<close>, unlike every other event of the process.
\<close>

theorem exit_event_not_stamped:
  assumes "e_Type e = EventExit" "p_StartTimeNs (e_Process e) = 0"
  shows "ProcessKey (snd (tree_Enrich t e)) = processKey (p_PID (e_Process e)) 0"
  using assms by (simp add: tree_Enrich_def Let_def track_def annotate_start ProcessKey_def)

theorem exit_event_not_stamped_witness:
  "ProcessKey (snd (tree_Enrich (run_tree NewProcessTree [sample_fork 7 1 ''sh''])
     (zero_event\<lparr>e_Type := EventExit, e_Process := zero_process\<lparr>p_PID := 7\<rparr>\<rparr>))) = processKey 7 0 \<and>
   ProcessKey (snd (tree_Enrich NewProcessTree (sample_fork 7 1 ''sh''))) = processKey 7 9"
  using exit_event_not_stamped [of "zero_event\<lparr>e_Type := EventExit, e_Process := zero_process\<lparr>p_PID := 7\<rparr>\<rparr>"
      "run_tree NewProcessTree [sample_fork 7 1 ''sh'']"]
  by (simp add: zero_defs ProcessKey_def tree_Enrich_def track_def annotate_start startOf_def sample_fork_def Let_def)

section \<open>Containers and reused process ids\<close>

lemma early_stages:
  "er_containers (fst (user_stage H (tree_stage (er, e)))) = er_containers er"
  "e_Container (snd (user_stage H (tree_stage (er, e)))) = e_Container e"
  "p_PID (e_Process (snd (user_stage H (tree_stage (er, e))))) = p_PID (e_Process e)"
  by (auto simp: user_stage_def tree_stage_def tree_Enrich_def Let_def split: option.split)

lemma late_stages:
  "er_containers (fst (yara_stage H (hash_stage H x))) = er_containers (fst x)"
  "e_Container (markStdioSocket H (snd (yara_stage H (hash_stage H x)))) = e_Container (snd x)"
  by (auto simp: yara_stage_def hash_stage_def scanExecutable_def hashExecutable_def markStdioSocket_def
      case_prod_beta split: option.split)

lemma Enrich_containers:
  assumes "er_containers er = Some r"
  shows "er_containers (fst (Enrich H er e)) =
      Some (if c_ID (e_Container e) = [] then snd (container_Resolve H r (p_PID (e_Process e))) else r)"
    and "c_ID (e_Container e) = [] \<Longrightarrow>
      e_Container (snd (Enrich H er e)) = fst (container_Resolve H r (p_PID (e_Process e)))"
  using assms early_stages [of H er e]
  by (simp_all add: Enrich_def Let_def late_stages container_stage_def)

definition run_enrich :: "enricher \<Rightarrow> (host_env \<times> event) list \<Rightarrow> enricher" where
  "run_enrich er xs = foldl (\<lambda>er (H, e). fst (Enrich H er e)) er xs"

lemma run_enrich_container:
  "er_containers er = Some r \<Longrightarrow> r pid = Some c \<Longrightarrow>
     \<exists>r'. er_containers (run_enrich er xs) = Some r' \<and> r' pid = Some c"
proof (induction xs arbitrary: er r)
  case (Cons x xs)
  obtain H e where x: "x = (H, e)"
    by (cases x)
  obtain r' where "er_containers (fst (Enrich H er e)) = Some r'" "r' pid = Some c"
    using Enrich_containers(1) [OF Cons.prems(1), of H e] ccache.view_kept [of r pid c H] Cons.prems(2) by auto
  then show ?case
    using Cons.IH [of "fst (Enrich H er e)" r'] by (simp add: run_enrich_def x)
qed (simp add: run_enrich_def)

text \<open>
  A container once resolved for a process id is given to every later event of that id, also
  after the process has exited and the id belongs to a process of another container: no event
  removes the cached answer.
\<close>

theorem container_outlives_process:
  assumes "er_containers er = Some r" "c_ID (e_Container e) = []" "c_ID (e_Container e') = []"
    and "p_PID (e_Process e') = p_PID (e_Process e)"
  shows "e_Container (snd (Enrich H' (run_enrich er ((H, e) # xs)) e')) = e_Container (snd (Enrich H er e))"
proof -
  let ?pid = "p_PID (e_Process e)" and ?r = "snd (container_Resolve H r (p_PID (e_Process e)))"
  have "er_containers (fst (Enrich H er e)) = Some ?r" "?r ?pid = Some (fst (container_Resolve H r ?pid))"
    using Enrich_containers(1) [OF assms(1), of H e] assms(2) ccache.get_view [of H r ?pid] by auto
  then obtain r' where r': "er_containers (run_enrich er ((H, e) # xs)) = Some r'"
    "r' ?pid = Some (fst (container_Resolve H r ?pid))"
    using run_enrich_container [of "fst (Enrich H er e)" ?r ?pid _ xs] by (auto simp: run_enrich_def)
  then show ?thesis
    using Enrich_containers(2) [OF r'(1) assms(3), of H'] Enrich_containers(2) [OF assms(1,2), of H]
      ccache.hit [of r' ?pid _ H'] r'(2) assms(4) by simp
qed

definition quiet_host :: "(uint32 \<Rightarrow> string option) \<Rightarrow> host_env" where
  "quiet_host cg = \<lparr>he_user = (\<lambda>_. None), he_cgroup = cg, he_readlink = (\<lambda>_. None), he_stat = (\<lambda>_. None),
     he_read = (\<lambda>_. None), he_sha256 = (\<lambda>_. [])\<rparr>"

definition container_enricher :: enricher where
  "container_enricher = \<lparr>er_tree = None, er_users = None, er_containers = Some Map.empty, er_hasher = None, er_yara = None\<rparr>"

theorem container_outlives_process_witness:
  "e_Container (snd (Enrich (quiet_host (\<lambda>_. Some (''/docker/'' @ replicate 64 (CHR ''b''))))
     (run_enrich container_enricher
       [(quiet_host (\<lambda>_. None), sample_fork 7 1 ''sh''),
        (quiet_host (\<lambda>_. None), zero_event\<lparr>e_Type := EventExit, e_Process := zero_process\<lparr>p_PID := 7\<rparr>\<rparr>)])
     (sample_fork 7 1 ''nginx''))) =
   e_Container (snd (Enrich (quiet_host (\<lambda>_. None)) container_enricher (sample_fork 7 1 ''sh'')))"
  by (rule container_outlives_process)
    (simp_all add: container_enricher_def sample_fork_def zero_defs)

end
