(* ===== verification/Respond.thy ===== *)
theory Respond
  imports Event_Model Go_Net
begin

text \<open>
  Response, \<^verbatim>\<open>internal/respond\<close>: the graduated policy (\<^verbatim>\<open>policy.go\<close>), the responder and its posture
  (\<^verbatim>\<open>responder.go\<close>), the guarded signals (\<^verbatim>\<open>signal_linux.go\<close>), the nftables blocker (\<^verbatim>\<open>network.go\<close>) and
  self-protection (\<^verbatim>\<open>selfprotect.go\<close>). Every call returns the effects it had on the host: the signals
  it delivered and the commands it ran. Logging is not modelled.
\<close>

section \<open>The host\<close>

datatype signal = SIGKILL | SIGSTOP

datatype effect = Signalled uint32 signal | Ran "string list"

text \<open>
  What the host answers: the content of \<open>/proc/pid/comm\<close>, and the error text of a signal delivery
  or of a command, \<open>None\<close> where it succeeds.
\<close>

record response_env =
  re_comm :: "uint32 \<Rightarrow> string option"
  re_kill :: "uint32 \<Rightarrow> signal \<Rightarrow> string option"
  re_run :: "string list \<Rightarrow> string option"

section \<open>Policy (policy.go)\<close>

type_synonym action = string

abbreviation (input) ActionAlertOnly :: action where "ActionAlertOnly \<equiv> ''alert_only''"
abbreviation (input) ActionThrottle :: action where "ActionThrottle \<equiv> ''throttle''"
abbreviation (input) ActionNetworkBlock :: action where "ActionNetworkBlock \<equiv> ''network_block''"
abbreviation (input) ActionQuarantine :: action where "ActionQuarantine \<equiv> ''quarantine''"
abbreviation (input) ActionKill :: action where "ActionKill \<equiv> ''kill''"

type_synonym mode = int

abbreviation (input) ModeOff :: mode where "ModeOff \<equiv> 0"
abbreviation (input) ModeDryRun :: mode where "ModeDryRun \<equiv> 1"
abbreviation (input) ModeEnforce :: mode where "ModeEnforce \<equiv> 2"

definition ParseMode :: "string \<Rightarrow> mode" where
  "ParseMode m = (if m = ''dry-run'' then ModeDryRun else if m = ''enforce'' then ModeEnforce else ModeOff)"

definition mode_String :: "mode \<Rightarrow> string" where
  "mode_String m = (if m = ModeDryRun then ''dry-run'' else if m = ModeEnforce then ''enforce'' else ''off'')"

record policy =
  po_ThrottleScore :: int
  po_BlockScore :: int
  po_KillScore :: int

definition defaultThrottleScore :: int where "defaultThrottleScore = 50"
definition defaultBlockScore :: int where "defaultBlockScore = 75"
definition defaultKillScore :: int where "defaultKillScore = 90"

definition DefaultPolicy :: policy where
  "DefaultPolicy = \<lparr>po_ThrottleScore = defaultThrottleScore, po_BlockScore = defaultBlockScore,
     po_KillScore = defaultKillScore\<rparr>"

definition severityScore :: "severity \<Rightarrow> int" where
  "severityScore s =
     (if s = SeverityCritical then defaultKillScore else if s = SeverityHigh then defaultBlockScore
      else if s = SeverityMedium then defaultThrottleScore else 0)"

definition effectiveScore :: "alert \<Rightarrow> int" where
  "effectiveScore al = (if a_RiskScore al > 0 then a_RiskScore al else severityScore (a_Severity al))"

definition hasNetworkTarget :: "alert \<Rightarrow> bool" where
  "hasNetworkTarget al \<longleftrightarrow> n_DstIP (e_Network (a_Event al)) \<noteq> []"

definition policy_Action :: "policy \<Rightarrow> alert \<Rightarrow> action" where
  "policy_Action p al =
     (if a_RequestedAction al \<noteq> [] then a_RequestedAction al
      else let score = effectiveScore al in
        if score \<ge> po_KillScore p then ActionKill
        else if score \<ge> po_BlockScore p then (if hasNetworkTarget al then ActionNetworkBlock else ActionThrottle)
        else if score \<ge> po_ThrottleScore p then ActionThrottle
        else ActionAlertOnly)"

section \<open>Guarded signals (signal\_linux.go)\<close>

definition signalGuarded :: "response_env \<Rightarrow> uint32 \<Rightarrow> string \<Rightarrow> signal \<Rightarrow> string option \<times> effect list" where
  "signalGuarded E pid comm sig =
     (let deliver = (case re_kill E pid sig of
            None \<Rightarrow> (None, [Signalled pid sig])
          | Some err \<Rightarrow> (Some err, []))
      in if comm \<noteq> [] then
           (case re_comm E pid of
              None \<Rightarrow> (Some (''process '' @ word_str pid @ '' gone''), [])
            | Some actual \<Rightarrow>
                let current = trim_space actual in
                if current \<noteq> comm
                then (Some (''pid '' @ word_str pid @ '' is now '' @ quote current @ '', not '' @ quote comm
                        @ '': refusing to signal''), [])
                else deliver)
         else deliver)"

definition guardedKill :: "response_env \<Rightarrow> uint32 \<Rightarrow> string \<Rightarrow> string option \<times> effect list" where
  "guardedKill E pid comm = signalGuarded E pid comm SIGKILL"

definition guardedFreeze :: "response_env \<Rightarrow> uint32 \<Rightarrow> string \<Rightarrow> string option \<times> effect list" where
  "guardedFreeze E pid comm = signalGuarded E pid comm SIGSTOP"

section \<open>The network blocker (network.go)\<close>

definition nftTable :: string where "nftTable = ''argus''"
definition nftChain :: string where "nftChain = ''argus_egress''"

record networkBlocker =
  nb_chainUp :: bool
  nb_blocked :: "string list"

definition newNetworkBlocker :: networkBlocker where
  "newNetworkBlocker = \<lparr>nb_chainUp = False, nb_blocked = []\<rparr>"

definition add_table :: "string list" where
  "add_table = [''nft'', ''add'', ''table'', ''inet'', nftTable]"

definition add_chain :: "string list" where
  "add_chain = [''nft'', ''add'', ''chain'', ''inet'', nftTable, nftChain,
     ''{ type filter hook output priority 0 ; policy accept ; }'']"

definition drop_rule :: "string \<Rightarrow> string \<Rightarrow> string list" where
  "drop_rule family addr = [''nft'', ''add'', ''rule'', ''inet'', nftTable, nftChain, family, ''daddr'', addr, ''drop'']"

text \<open>A command that is run is an effect whether or not it succeeds.\<close>

definition ensureChain :: "response_env \<Rightarrow> networkBlocker \<Rightarrow> string option \<times> networkBlocker \<times> effect list" where
  "ensureChain E b =
     (if nb_chainUp b then (None, b, [])
      else case re_run E add_table of
        Some err \<Rightarrow> (Some (''nft create table: '' @ err), b, [Ran add_table])
      | None \<Rightarrow>
          (case re_run E add_chain of
             Some err \<Rightarrow> (Some (''nft create chain: '' @ err), b, [Ran add_table, Ran add_chain])
           | None \<Rightarrow> (None, b\<lparr>nb_chainUp := True\<rparr>, [Ran add_table, Ran add_chain])))"

definition Block :: "response_env \<Rightarrow> networkBlocker \<Rightarrow> string \<Rightarrow> string option \<times> networkBlocker \<times> effect list" where
  "Block E b addr =
     (case ParseIP addr of
        None \<Rightarrow> (Some (''invalid ip '' @ quote addr), b, [])
      | Some parsed \<Rightarrow>
          (if addr \<in> set (nb_blocked b) then (None, b, [])
           else case ensureChain E b of
             (Some err, b, effs) \<Rightarrow> (Some err, b, effs)
           | (None, b, effs) \<Rightarrow>
               let family = (if To4 parsed = None then ''ip6'' else ''ip'');
                   cmd = drop_rule family addr
               in case re_run E cmd of
                    Some err \<Rightarrow> (Some (''nft drop '' @ addr @ '': '' @ err), b, effs @ [Ran cmd])
                  | None \<Rightarrow> (None, b\<lparr>nb_blocked := addr # nb_blocked b\<rparr>, effs @ [Ran cmd])))"

section \<open>The responder (responder.go)\<close>

record responder =
  rs_mode :: mode
  rs_maxMode :: mode
  rs_policy :: policy
  rs_allowlist :: "string list"
  rs_blocker :: networkBlocker

definition clampMode :: "mode \<Rightarrow> mode \<Rightarrow> mode" where
  "clampMode requested maxMode = (if requested > maxMode then maxMode else requested)"

definition respond_New :: "mode \<Rightarrow> mode \<Rightarrow> string list \<Rightarrow> responder" where
  "respond_New mode maxMode allowlistPaths =
     \<lparr>rs_mode = clampMode mode maxMode, rs_maxMode = maxMode, rs_policy = DefaultPolicy,
      rs_allowlist = allowlistPaths, rs_blocker = newNetworkBlocker\<rparr>"

definition SetMode :: "responder \<Rightarrow> mode \<Rightarrow> responder" where
  "SetMode r requested = r\<lparr>rs_mode := clampMode requested (rs_maxMode r)\<rparr>"

definition allowlisted :: "responder \<Rightarrow> event \<Rightarrow> bool" where
  "allowlisted r e \<longleftrightarrow> p_Executable (e_Process e) \<in> set (rs_allowlist r)"

definition result_text :: "string \<Rightarrow> string option \<Rightarrow> string" where
  "result_text ok err = (case err of None \<Rightarrow> ok | Some m \<Rightarrow> ''failed: '' @ m)"

definition execute :: "response_env \<Rightarrow> responder \<Rightarrow> action \<Rightarrow> alert \<Rightarrow> string \<times> responder \<times> effect list" where
  "execute E r act al =
     (let p = e_Process (a_Event al) in
      if act = ActionKill then
        (case guardedKill E (p_PID p) (p_Name p) of (err, effs) \<Rightarrow> (result_text ''success'' err, r, effs))
      else if act = ActionThrottle then
        (case guardedFreeze E (p_PID p) (p_Name p) of (err, effs) \<Rightarrow> (result_text ''suspended'' err, r, effs))
      else if act = ActionNetworkBlock \<or> act = ActionQuarantine then
        (let addr = n_DstIP (e_Network (a_Event al)) in
         if addr = [] then (''no destination to block'', r, [])
         else case Block E (rs_blocker r) addr of (err, b, effs) \<Rightarrow>
           (result_text (''blocked '' @ addr) err, r\<lparr>rs_blocker := b\<rparr>, effs))
      else (''noop'', r, []))"

definition Handle :: "response_env \<Rightarrow> responder \<Rightarrow> alert \<Rightarrow> responder \<times> alert \<times> effect list" where
  "Handle E r al =
     (let act = policy_Action (rs_policy r) al in
      if act = ActionAlertOnly \<or> rs_mode r = ModeOff then (r, al, [])
      else if allowlisted r (a_Event al) then (r, al, [])
      else if rs_mode r = ModeDryRun then
        (r, al\<lparr>a_Response := Some \<lparr>rr_Action = act, rr_Result = ''dry-run''\<rparr>\<rparr>, [])
      else case execute E r act al of (res, r, effs) \<Rightarrow>
        (r, al\<lparr>a_Response := Some \<lparr>rr_Action = act, rr_Result = res\<rparr>\<rparr>, effs))"

definition RequestKill :: "response_env \<Rightarrow> responder \<Rightarrow> uint32 \<Rightarrow> string \<Rightarrow> string \<times> effect list" where
  "RequestKill E r pid comm =
     (if rs_mode r = ModeOff then (''suppressed: response off'', [])
      else if rs_mode r = ModeDryRun then (''dry-run'', [])
      else case guardedKill E pid comm of (err, effs) \<Rightarrow> (result_text ''success'' err, effs))"

definition RequestNetworkBlock :: "response_env \<Rightarrow> responder \<Rightarrow> string \<Rightarrow> string \<times> responder \<times> effect list" where
  "RequestNetworkBlock E r addr =
     (if rs_mode r = ModeOff then (''suppressed: response off'', r, [])
      else if rs_mode r = ModeDryRun then (''dry-run'', r, [])
      else case Block E (rs_blocker r) addr of (err, b, effs) \<Rightarrow>
        (result_text (''blocked '' @ addr) err, r\<lparr>rs_blocker := b\<rparr>, effs))"

section \<open>Self-protection (selfprotect.go)\<close>

definition selfTechnique :: technique where
  "selfTechnique = \<lparr>t_ID = ''T1562.001'', t_Name = ''Impair Defenses: Disable or Modify Tools'',
     t_Tactic = ''defense-evasion''\<rparr>"

definition tamperAlert :: "go_time \<Rightarrow> string \<Rightarrow> string \<Rightarrow> string \<Rightarrow> alert" where
  "tamperAlert now ruleID name detail =
     \<lparr>a_Timestamp = now, a_RuleID = ruleID, a_RuleName = name, a_Description = detail,
      a_Severity = SeverityCritical, a_Technique = selfTechnique, a_RiskScore = 90, a_Event = zero_event,
      a_Response = None, a_RequestedAction = ActionAlertOnly\<rparr>"

definition shortHash :: "string \<Rightarrow> string" where
  "shortHash digest = (if length digest \<le> 12 then digest else take 12 digest)"

record selfIntegrity =
  si_path :: string
  si_baseline :: string

text \<open>\<open>hash\<close> is the outcome of hashing the binary at the call, \<open>None\<close> where it fails.\<close>

definition NewSelfIntegrity :: "string \<Rightarrow> string option \<Rightarrow> selfIntegrity option" where
  "NewSelfIntegrity path hash = map_option (\<lambda>h. \<lparr>si_path = path, si_baseline = h\<rparr>) hash"

definition integrity_check :: "go_time \<Rightarrow> selfIntegrity \<Rightarrow> string option \<Rightarrow> selfIntegrity \<times> alert list" where
  "integrity_check now s hash =
     (case hash of
        None \<Rightarrow> (s, [])
      | Some current \<Rightarrow>
          if current = si_baseline s then (s, [])
          else (s\<lparr>si_baseline := current\<rparr>,
                [tamperAlert now ''R-SELF-INTEGRITY'' ''ARGUS binary modified on disk''
                   (si_path s @ '' sha256 changed from '' @ shortHash (si_baseline s) @ '' to '' @ shortHash current)]))"

record watchdog =
  wd_timeout :: duration
  wd_lastKick :: int
  wd_stalled :: bool

definition NewWatchdog :: "go_time \<Rightarrow> duration \<Rightarrow> watchdog" where
  "NewWatchdog now timeout = \<lparr>wd_timeout = timeout, wd_lastKick = unix_nano now, wd_stalled = False\<rparr>"

definition Kick :: "go_time \<Rightarrow> watchdog \<Rightarrow> watchdog" where
  "Kick now w = w\<lparr>wd_lastKick := unix_nano now, wd_stalled := False\<rparr>"

text \<open>\<open>Duration.Round(time.Second)\<close> of a non-negative duration and its text.\<close>

definition round_seconds :: "duration \<Rightarrow> int" where
  "round_seconds d = (let r = d mod 1000000000 in if r + r < 1000000000 then d div 1000000000 else d div 1000000000 + 1)"

definition seconds_text :: "int \<Rightarrow> string" where
  "seconds_text s =
     (let h = s div 3600; m = (s div 60) mod 60; x = s mod 60 in
      if h > 0 then int_str h @ ''h'' @ int_str m @ ''m'' @ int_str x @ ''s''
      else if m > 0 then int_str m @ ''m'' @ int_str x @ ''s''
      else int_str x @ ''s'')"

text \<open>\<open>now\<close> is the time of the tick, \<open>clock\<close> the reading of the clock for the alert.\<close>

definition checkAt :: "go_time \<Rightarrow> go_time \<Rightarrow> watchdog \<Rightarrow> watchdog \<times> alert list" where
  "checkAt clock now w =
     (let idle = time_sub now (wd_lastKick w) in
      if idle < wd_timeout w then (w, [])
      else if \<not> wd_stalled w then
        (w\<lparr>wd_stalled := True\<rparr>,
         [tamperAlert clock ''R-SELF-WATCHDOG'' ''ARGUS pipeline heartbeat stalled''
            (''no event progress for '' @ seconds_text (round_seconds idle) @ '' '' @ [CHR 0xE2, CHR 0x80, CHR 0x94]
              @ '' possible deadlock or tampering'')])
      else (w, []))"

section \<open>The posture ceiling\<close>

text \<open>
  A run of the responder: alerts handled, remote kill and block requests, and posture changes, in any
  order and against any behaviour of the host. The control plane names a posture by a string. The
  second argument collects the effects.
\<close>

inductive respond_reach :: "responder \<Rightarrow> responder \<Rightarrow> effect list \<Rightarrow> bool" for r0 where
  start: "respond_reach r0 r0 []"
| handle: "respond_reach r0 r effs \<Longrightarrow> Handle E r al = (r', al', es) \<Longrightarrow> respond_reach r0 r' (effs @ es)"
| set_mode: "respond_reach r0 r effs \<Longrightarrow> respond_reach r0 (SetMode r (ParseMode s)) effs"
| kill: "respond_reach r0 r effs \<Longrightarrow> RequestKill E r pid comm = (res, es) \<Longrightarrow> respond_reach r0 r (effs @ es)"
| block: "respond_reach r0 r effs \<Longrightarrow> RequestNetworkBlock E r addr = (res, r', es) \<Longrightarrow> respond_reach r0 r' (effs @ es)"

lemma ParseMode_range: "ParseMode s = ModeOff \<or> ParseMode s = ModeDryRun \<or> ParseMode s = ModeEnforce"
  by (simp add: ParseMode_def)

lemma execute_posture:
  "execute E r act al = (res, r', effs) \<Longrightarrow> rs_mode r' = rs_mode r \<and> rs_maxMode r' = rs_maxMode r"
proof -
  assume "execute E r act al = (res, r', effs)"
  moreover have "rs_mode (fst (snd (execute E r act al))) = rs_mode r \<and> rs_maxMode (fst (snd (execute E r act al))) = rs_maxMode r"
    by (simp add: execute_def Let_def case_prod_beta)
  ultimately show ?thesis
    by simp
qed

lemma Handle_posture: "Handle E r al = (r', al', effs) \<Longrightarrow> rs_mode r' = rs_mode r \<and> rs_maxMode r' = rs_maxMode r"
  unfolding Handle_def Let_def using execute_posture by (simp split: if_split_asm prod.split_asm)

lemma Block_posture:
  "RequestNetworkBlock E r addr = (res, r', effs) \<Longrightarrow> rs_mode r' = rs_mode r \<and> rs_maxMode r' = rs_maxMode r"
  by (auto simp: RequestNetworkBlock_def split: if_splits prod.splits)

text \<open>No effect below enforcement.\<close>

lemma quiet_below_enforce:
  assumes "rs_mode r = ModeOff \<or> rs_mode r = ModeDryRun"
  shows "Handle E r al = (r', al', effs) \<Longrightarrow> effs = []"
    and "RequestKill E r pid comm = (res, effs) \<Longrightarrow> effs = []"
    and "RequestNetworkBlock E r addr = (res, r', effs) \<Longrightarrow> effs = []"
  using assms by (auto simp: Handle_def RequestKill_def RequestNetworkBlock_def Let_def split: if_splits)

definition posture_ok :: "mode \<Rightarrow> responder \<Rightarrow> effect list \<Rightarrow> bool" where
  "posture_ok mx r effs \<longleftrightarrow> rs_maxMode r = mx \<and> rs_mode r \<le> mx \<and> 0 \<le> rs_mode r \<and> (mx < ModeEnforce \<longrightarrow> effs = [])"

lemma posture_step:
  assumes "posture_ok mx r effs" "rs_mode r = ModeOff \<or> rs_mode r = ModeDryRun \<Longrightarrow> es = []"
    and "rs_mode r' = rs_mode r" "rs_maxMode r' = rs_maxMode r"
  shows "posture_ok mx r' (effs @ es)"
proof -
  have "es = []" if "mx < ModeEnforce"
    by (rule assms(2)) (use assms(1) that in \<open>auto simp: posture_ok_def\<close>)
  then show ?thesis
    using assms by (auto simp: posture_ok_def)
qed

lemma posture_reach:
  assumes "respond_reach (respond_New (ParseMode m) (ParseMode mx) paths) r effs"
  shows "posture_ok (ParseMode mx) r effs"
  using assms
proof (induction rule: respond_reach.induct)
  case start
  then show ?case
    using ParseMode_range [of m] ParseMode_range [of mx]
    by (auto simp: posture_ok_def respond_New_def clampMode_def)
next
  case (handle r effs E al r' al' es)
  then show ?case
    using Handle_posture quiet_below_enforce(1) by (blast intro: posture_step)
next
  case (set_mode r effs s)
  then show ?case
    using ParseMode_range [of s] ParseMode_range [of mx] by (auto simp: posture_ok_def SetMode_def clampMode_def)
next
  case (kill r effs E pid comm res es)
  then show ?case
    using quiet_below_enforce(2) by (blast intro: posture_step)
next
  case (block r effs E addr res r' es)
  then show ?case
    using Block_posture quiet_below_enforce(3) by (blast intro: posture_step)
qed

text \<open>
  C28. The local ceiling holds against the control plane: however alerts, remote requests and posture
  changes interleave, the posture never rises above the ceiling the operator pinned, and under a
  ceiling below enforcement no signal is delivered and no command is run, ever.
\<close>

theorem posture_never_exceeds_ceiling:
  assumes "respond_reach (respond_New (ParseMode m) (ParseMode mx) paths) r effs"
  shows "rs_mode r \<le> ParseMode mx \<and> (mx \<noteq> ''enforce'' \<longrightarrow> effs = [])"
  using posture_reach [OF assms] by (auto simp: posture_ok_def ParseMode_def split: if_splits)

theorem posture_never_exceeds_ceiling_witness:
  "rs_mode (SetMode (respond_New (ParseMode ''off'') (ParseMode ''dry-run'') []) (ParseMode ''enforce'')) \<le> ModeDryRun"
proof -
  have "respond_reach (respond_New (ParseMode ''off'') (ParseMode ''dry-run'') [])
      (SetMode (respond_New (ParseMode ''off'') (ParseMode ''dry-run'') []) (ParseMode ''enforce'')) []"
    by (intro respond_reach.intros)
  from posture_never_exceeds_ceiling [OF this] show ?thesis
    by (simp add: ParseMode_def)
qed

section \<open>What the responder may touch\<close>

lemma signalGuarded_effects:
  assumes "x \<in> set (snd (signalGuarded E pid comm sig))"
  shows "x = Signalled pid sig \<and> (comm = [] \<or> map_option trim_space (re_comm E pid) = Some comm)"
  using assms by (auto simp: signalGuarded_def Let_def split: if_splits option.splits)

lemma ensureChain_ran: "x \<in> set (snd (snd (ensureChain E b))) \<Longrightarrow> x = Ran add_table \<or> x = Ran add_chain"
  by (auto simp: ensureChain_def split: if_splits option.splits)

lemma Block_ran:
  "x \<in> set (snd (snd (Block E b addr))) \<Longrightarrow>
     x = Ran add_table \<or> x = Ran add_chain \<or> (\<exists>family. x = Ran (drop_rule family addr))"
proof -
  assume x: "x \<in> set (snd (snd (Block E b addr)))"
  obtain err b' effs where "ensureChain E b = (err, b', effs)"
    by (cases "ensureChain E b")
  then show ?thesis
    using x ensureChain_ran [of x E b] unfolding Block_def
    by (cases err) (auto simp: Let_def split: option.splits if_splits)
qed

text \<open>The process an alert is about still has the name the alert saw, or never had one.\<close>

definition still_named :: "response_env \<Rightarrow> process \<Rightarrow> bool" where
  "still_named E p \<longleftrightarrow> p_Name p = [] \<or> map_option trim_space (re_comm E (p_PID p)) = Some (p_Name p)"

lemma execute_signals:
  assumes "Signalled pid sig \<in> set (snd (snd (execute E r act al)))"
  shows "pid = p_PID (e_Process (a_Event al)) \<and> still_named E (e_Process (a_Event al))"
proof -
  let ?p = "e_Process (a_Event al)" and ?dst = "n_DstIP (e_Network (a_Event al))"
  have "Signalled pid sig \<notin> set (snd (snd (Block E (rs_blocker r) ?dst)))"
    using Block_ran [of "Signalled pid sig" E "rs_blocker r" ?dst] by blast
  then consider "Signalled pid sig \<in> set (snd (signalGuarded E (p_PID ?p) (p_Name ?p) SIGKILL))"
    | "Signalled pid sig \<in> set (snd (signalGuarded E (p_PID ?p) (p_Name ?p) SIGSTOP))"
    using assms unfolding execute_def guardedKill_def guardedFreeze_def Let_def
    by (simp add: case_prod_beta split: if_split_asm)
  then show ?thesis
    using signalGuarded_effects unfolding still_named_def by cases blast+
qed

lemma Handle_gated:
  assumes "x \<in> set (snd (snd (Handle E r al)))"
  shows "rs_mode r \<noteq> ModeOff \<and> rs_mode r \<noteq> ModeDryRun \<and>
    p_Executable (e_Process (a_Event al)) \<notin> set (rs_allowlist r) \<and>
    policy_Action (rs_policy r) al \<noteq> ActionAlertOnly \<and>
    (\<forall>pid sig. x = Signalled pid sig \<longrightarrow>
       pid = p_PID (e_Process (a_Event al)) \<and> still_named E (e_Process (a_Event al)))"
proof -
  let ?act = "policy_Action (rs_policy r) al"
  have gates: "rs_mode r \<noteq> ModeOff" "rs_mode r \<noteq> ModeDryRun" "\<not> allowlisted r (a_Event al)" "?act \<noteq> ActionAlertOnly"
    using assms by (auto simp: Handle_def Let_def split: if_splits)
  then have "snd (snd (Handle E r al)) = snd (snd (execute E r ?act al))"
    by (simp add: Handle_def Let_def case_prod_beta)
  then show ?thesis
    using gates assms execute_signals [of _ _ E r ?act al] by (auto simp: allowlisted_def)
qed

text \<open>
  C11. The responder acts on an alert only in enforcement, never on an allow-listed executable and
  never where the policy says alert only; a signal goes to the alert's own process alone, and only
  if its name is unknown or still the one the alert saw.
\<close>

theorem Handle_acts_only_when_allowed:
  assumes "x \<in> set (snd (snd (Handle E r al)))"
  shows "rs_mode r \<noteq> ModeOff \<and> rs_mode r \<noteq> ModeDryRun \<and>
    p_Executable (e_Process (a_Event al)) \<notin> set (rs_allowlist r) \<and>
    policy_Action (rs_policy r) al \<noteq> ActionAlertOnly \<and>
    (\<forall>pid sig. x = Signalled pid sig \<longrightarrow>
       pid = p_PID (e_Process (a_Event al)) \<and> still_named E (e_Process (a_Event al)))"
  using assms by (rule Handle_gated)

definition calm_host :: response_env where
  "calm_host = \<lparr>re_comm = (\<lambda>_. Some (''sh'' @ [CHR 0x0A])), re_kill = (\<lambda>_ _. None), re_run = (\<lambda>_. None)\<rparr>"

definition sample_kill_alert :: alert where
  "sample_kill_alert = tamperAlert 0 ''R1'' [] []\<lparr>a_RequestedAction := [],
     a_Event := zero_event\<lparr>e_Process := zero_process\<lparr>p_PID := 7, p_Name := ''sh''\<rparr>\<rparr>\<rparr>"

theorem Handle_acts_only_when_allowed_witness:
  "Signalled 7 SIGKILL \<in> set (snd (snd (Handle calm_host (respond_New ModeEnforce ModeEnforce []) sample_kill_alert))) \<and>
   still_named calm_host (e_Process (a_Event sample_kill_alert))"
proof -
  have x: "Signalled 7 SIGKILL \<in> set (snd (snd (Handle calm_host (respond_New ModeEnforce ModeEnforce []) sample_kill_alert)))"
    by (simp add: Handle_def respond_New_def clampMode_def policy_Action_def sample_kill_alert_def tamperAlert_def
        effectiveScore_def DefaultPolicy_def defaultKillScore_def allowlisted_def execute_def guardedKill_def
        signalGuarded_def calm_host_def trim_space_def is_space_def)
  then show ?thesis
    using Handle_acts_only_when_allowed [OF x] by blast
qed

section \<open>The blocker's contract\<close>

text \<open>A sequence of requests to the blocker, with the commands they ran.\<close>

fun block_all :: "response_env \<Rightarrow> networkBlocker \<Rightarrow> string list \<Rightarrow> networkBlocker \<times> effect list" where
  "block_all E b [] = (b, [])"
| "block_all E b (a # as) =
     (case Block E b a of (err, b', effs) \<Rightarrow>
        case block_all E b' as of (b'', effs') \<Rightarrow> (b'', effs @ effs'))"

definition family_of :: "string \<Rightarrow> string" where
  "family_of addr = (if Option.bind (ParseIP addr) To4 = None then ''ip6'' else ''ip'')"

lemma Block_working:
  assumes "\<And>cmd. re_run E cmd = None"
  shows "Block E b addr =
    (if ParseIP addr = None then (Some (''invalid ip '' @ quote addr), b, [])
     else if addr \<in> set (nb_blocked b) then (None, b, [])
     else (None, b\<lparr>nb_chainUp := True, nb_blocked := addr # nb_blocked b\<rparr>,
           (if nb_chainUp b then [] else [Ran add_table, Ran add_chain]) @ [Ran (drop_rule (family_of addr) addr)]))"
  using assms by (cases "ParseIP addr") (simp_all add: Block_def ensureChain_def family_of_def Let_def)

lemma block_all_working:
  assumes "\<And>cmd. re_run E cmd = None"
  shows "\<exists>order. snd (block_all E b addrs) =
      (if order = [] \<or> nb_chainUp b then [] else [Ran add_table, Ran add_chain]) @
        map (\<lambda>a. Ran (drop_rule (family_of a) a)) order \<and>
    distinct order \<and> set order = {a \<in> set addrs. ParseIP a \<noteq> None} - set (nb_blocked b) \<and>
    set (nb_blocked (fst (block_all E b addrs))) = set (nb_blocked b) \<union> set order"
proof (induction addrs arbitrary: b)
  case Nil
  then show ?case by simp
next
  case (Cons a as)
  show ?case
  proof (cases "ParseIP a = None \<or> a \<in> set (nb_blocked b)")
    case True
    then have "snd (block_all E b (a # as)) = snd (block_all E b as)" "fst (block_all E b (a # as)) = fst (block_all E b as)"
      by (auto simp: Block_working [OF assms] split: prod.splits)
    moreover have "{x \<in> set (a # as). ParseIP x \<noteq> None} - set (nb_blocked b) = {x \<in> set as. ParseIP x \<noteq> None} - set (nb_blocked b)"
      using True by auto
    ultimately show ?thesis
      using Cons.IH [of b] by simp
  next
    case False
    let ?b = "b\<lparr>nb_chainUp := True, nb_blocked := a # nb_blocked b\<rparr>"
    obtain order where o: "snd (block_all E ?b as) = (if order = [] \<or> nb_chainUp ?b then [] else [Ran add_table, Ran add_chain]) @
        map (\<lambda>a. Ran (drop_rule (family_of a) a)) order"
      "distinct order" "set order = {x \<in> set as. ParseIP x \<noteq> None} - set (nb_blocked ?b)"
      "set (nb_blocked (fst (block_all E ?b as))) = set (nb_blocked ?b) \<union> set order"
      using Cons.IH [of ?b] by blast
    have B: "snd (block_all E b (a # as)) = (if nb_chainUp b then [] else [Ran add_table, Ran add_chain]) @
        Ran (drop_rule (family_of a) a) # snd (block_all E ?b as)"
      "fst (block_all E b (a # as)) = fst (block_all E ?b as)"
      using False by (auto simp: Block_working [OF assms] split: prod.splits)
    have "set (a # order) = {x \<in> set (a # as). ParseIP x \<noteq> None} - set (nb_blocked b)"
      using False o(3) by auto
    then show ?thesis
      using o B by (intro exI [of _ "a # order"]) auto
  qed
qed

text \<open>
  On a host whose firewall accepts its commands, a fresh blocker serving any sequence of requests
  creates its table and chain once, before anything else and only if needed, adds exactly one drop rule
  for each distinct valid address text, in the family of the address, and records exactly these.
\<close>

theorem block_all_once:
  assumes "\<And>cmd. re_run E cmd = None"
  shows "\<exists>order. snd (block_all E newNetworkBlocker addrs) =
      (if order = [] then [] else [Ran add_table, Ran add_chain]) @
        map (\<lambda>a. Ran (drop_rule (family_of a) a)) order \<and>
    distinct order \<and> set order = {a \<in> set addrs. ParseIP a \<noteq> None} \<and>
    set (nb_blocked (fst (block_all E newNetworkBlocker addrs))) = set order"
  using block_all_working [OF assms, of newNetworkBlocker addrs] by (simp add: newNetworkBlocker_def)

theorem block_all_once_witness:
  "\<exists>order. set order = {a \<in> {''10.0.0.1'', ''host''}. ParseIP a \<noteq> None} \<and>
    set (nb_blocked (fst (block_all calm_host newNetworkBlocker [''10.0.0.1'', ''host'', ''10.0.0.1'']))) = set order"
proof -
  have "re_run calm_host cmd = None" for cmd
    by (simp add: calm_host_def)
  from block_all_once [OF this, of "[''10.0.0.1'', ''host'', ''10.0.0.1'']"] show ?thesis
    by auto
qed

text \<open>
  The blocker compares address texts, not addresses: two spellings of one IPv6 address install two
  drop rules for it, although a second call for a blocked address is meant to be a no-op.
\<close>

theorem Block_two_spellings:
  "ParseIP ''::1'' = ParseIP ''0:0:0:0:0:0:0:1'' \<and> ParseIP ''::1'' \<noteq> None \<and>
   snd (block_all calm_host newNetworkBlocker [''::1'', ''0:0:0:0:0:0:0:1'']) =
     [Ran add_table, Ran add_chain, Ran (drop_rule ''ip6'' ''::1''), Ran (drop_rule ''ip6'' ''0:0:0:0:0:0:0:1'')]"
proof (intro conjI)
  show ip: "ParseIP ''::1'' = ParseIP ''0:0:0:0:0:0:0:1''"
    by code_simp
  show v: "ParseIP ''::1'' \<noteq> None"
    by code_simp
  have "family_of ''::1'' = ''ip6''"
    by code_simp
  then have "family_of ''0:0:0:0:0:0:0:1'' = ''ip6''"
    using ip by (simp add: family_of_def)
  moreover have "\<And>cmd. re_run calm_host cmd = None"
    by (simp add: calm_host_def)
  ultimately show "snd (block_all calm_host newNetworkBlocker [''::1'', ''0:0:0:0:0:0:0:1'']) =
     [Ran add_table, Ran add_chain, Ran (drop_rule ''ip6'' ''::1''), Ran (drop_rule ''ip6'' ''0:0:0:0:0:0:0:1'')]"
    using v ip \<open>family_of ''::1'' = ''ip6''\<close> by (simp add: Block_working newNetworkBlocker_def)
qed

section \<open>Self-protection\<close>

fun watch_ticks :: "watchdog \<Rightarrow> go_time list \<Rightarrow> watchdog \<times> alert list" where
  "watch_ticks w [] = (w, [])"
| "watch_ticks w (t # ts) =
     (case checkAt t t w of (w', als) \<Rightarrow> case watch_ticks w' ts of (w'', als') \<Rightarrow> (w'', als @ als'))"

lemma watch_stalled: "wd_stalled w \<Longrightarrow> watch_ticks w ts = (w, [])"
  by (induction ts) (simp_all add: checkAt_def Let_def)

lemma watch_armed:
  "\<not> wd_stalled w \<Longrightarrow> length (snd (watch_ticks w ts)) =
     (if list_ex (\<lambda>t. wd_timeout w \<le> time_sub t (wd_lastKick w)) ts then 1 else 0)"
  by (induction ts) (simp_all add: checkAt_def Let_def watch_stalled split: prod.splits)

text \<open>
  The watchdog reports a stall, and reports it once: after a heartbeat, a run of checks without
  another raises exactly one alert if some check comes a full timeout after the heartbeat, and none
  otherwise, whatever happened before; the next heartbeat arms it again.
\<close>

theorem watchdog_reports_once:
  "length (snd (watch_ticks (Kick now w) ts)) =
     (if list_ex (\<lambda>t. wd_timeout w \<le> time_sub t (unix_nano now)) ts then 1 else 0)"
  by (simp add: watch_armed Kick_def)

fun integrity_run :: "selfIntegrity \<Rightarrow> (go_time \<times> string option) list \<Rightarrow> selfIntegrity \<times> alert list" where
  "integrity_run s [] = (s, [])"
| "integrity_run s ((now, h) # hs) =
     (case integrity_check now s h of (s', als) \<Rightarrow> case integrity_run s' hs of (s'', als') \<Rightarrow> (s'', als @ als'))"

text \<open>
  Self-integrity raises one alert for each change of the binary's digest between two successful
  hashes: a changed digest is reported once, not at every later check, and a change back is a change;
  a failed hash neither reports nor forgets.
\<close>

theorem integrity_reports_changes:
  "length (snd (integrity_run s hs)) + 1 = length (remdups_adj (si_baseline s # List.map_filter snd hs))"
proof (induction hs arbitrary: s)
  case Nil
  then show ?case by (simp add: map_filter_simps)
next
  case (Cons x hs)
  obtain now h where x: "x = (now, h)" by (cases x)
  show ?case
    using Cons.IH [of "fst (integrity_check now s h)"]
    by (cases h) (auto simp: x integrity_check_def map_filter_simps split: prod.splits)
qed

end
