(* ===== verification/Pipeline.thy ===== *)
theory Pipeline
  imports Detect_Engine Enrich Respond
begin

text \<open>
  The agent's pipeline, \<^verbatim>\<open>internal/pipeline\<close>: the stages of one event (\<^verbatim>\<open>pipeline.go\<close>) and the replay source
  (\<^verbatim>\<open>replay.go\<close>), with the fan-out of sinks (\<^verbatim>\<open>internal/output/sink.go\<close>). The state holds every collaborator's
  state; a sink is its state and a write function that may fail. One consumer takes the events off a
  channel in the order the source put them on it, so a run is the list of the source's events. What the
  host answers and the clock readings during one event are an argument. Logging and the durations
  handed to the observer are not modelled.
\<close>

section \<open>Sinks (sink.go)\<close>

datatype sink_item = SEvent event | SAlert alert | SIncident incident

record 's sink =
  sk_state :: 's
  sk_write :: "sink_item \<Rightarrow> 's \<Rightarrow> string option \<times> 's"

definition sink_write :: "sink_item \<Rightarrow> 's sink \<Rightarrow> string option \<times> 's sink" where
  "sink_write x s = (case sk_write s x (sk_state s) of (err, st) \<Rightarrow> (err, s\<lparr>sk_state := st\<rparr>))"

text \<open>\<^verbatim>\<open>errors.Join\<close>: nil if there is no error, else their texts on lines of their own.\<close>

definition errors_Join :: "string list \<Rightarrow> string option" where
  "errors_Join errs = (if errs = [] then None else Some (join [CHR 0x0A] errs))"

fun write_loop :: "sink_item \<Rightarrow> 's sink list \<Rightarrow> string list \<times> 's sink list" where
  "write_loop x [] = ([], [])"
| "write_loop x (s # ss) =
     (case sink_write x s of (err, s') \<Rightarrow>
      case write_loop x ss of (errs, ss') \<Rightarrow>
        ((case err of None \<Rightarrow> errs | Some m \<Rightarrow> m # errs), s' # ss'))"

definition MultiSink_write :: "sink_item \<Rightarrow> 's sink list \<Rightarrow> string option \<times> 's sink list" where
  "MultiSink_write x ss = (case write_loop x ss of (errs, ss') \<Rightarrow> (errors_Join errs, ss'))"

section \<open>The pipeline (pipeline.go)\<close>

datatype observation = ObserveEvent | ObserveAlert | ObserveIncident | ObserveStage string

record stats =
  stat_Events :: uint64
  stat_Alerts :: uint64
  stat_Incidents :: uint64

record 's pipeline =
  pl_enricher :: "enricher option"
  pl_scorer :: "(event \<Rightarrow> real) option"
  pl_engine :: engine
  pl_responder :: "responder option"
  pl_sink :: "'s sink list"
  pl_watchdog :: "watchdog option"
  pl_observer :: "observation list option"
  pl_stats :: stats

definition pipeline_New ::
    "enricher option \<Rightarrow> (event \<Rightarrow> real) option \<Rightarrow> engine \<Rightarrow> responder option \<Rightarrow> 's sink list \<Rightarrow> watchdog option \<Rightarrow>
     observation list option \<Rightarrow> 's pipeline" where
  "pipeline_New er sc en r ss w ob =
     \<lparr>pl_enricher = er, pl_scorer = sc, pl_engine = en, pl_responder = r, pl_sink = ss, pl_watchdog = w,
      pl_observer = ob, pl_stats = \<lparr>stat_Events = 0, stat_Alerts = 0, stat_Incidents = 0\<rparr>\<rparr>"

definition SetEngine :: "engine \<Rightarrow> 's pipeline \<Rightarrow> 's pipeline" where
  "SetEngine en p = p\<lparr>pl_engine := en\<rparr>"

record pipe_env =
  pe_host :: host_env
  pe_response :: response_env
  pe_clock :: go_time

definition observe :: "observation \<Rightarrow> 's pipeline \<Rightarrow> 's pipeline" where
  "observe x p = p\<lparr>pl_observer := map_option (\<lambda>xs. xs @ [x]) (pl_observer p)\<rparr>"

definition sink_put :: "sink_item \<Rightarrow> 's pipeline \<Rightarrow> 's pipeline" where
  "sink_put x p = p\<lparr>pl_sink := snd (MultiSink_write x (pl_sink p))\<rparr>"

definition begin_event :: "pipe_env \<Rightarrow> 's pipeline \<Rightarrow> 's pipeline" where
  "begin_event E p =
     observe ObserveEvent
       (p\<lparr>pl_stats := (pl_stats p)\<lparr>stat_Events := stat_Events (pl_stats p) + 1\<rparr>,
          pl_watchdog := map_option (Kick (pe_clock E)) (pl_watchdog p)\<rparr>)"

definition enrich_event :: "pipe_env \<Rightarrow> event \<Rightarrow> 's pipeline \<Rightarrow> 's pipeline \<times> event" where
  "enrich_event E e p =
     (case pl_enricher p of
        None \<Rightarrow> (p, e)
      | Some er \<Rightarrow> (case Enrich (pe_host E) er e of (er', e') \<Rightarrow>
          (observe (ObserveStage ''enrich'') (p\<lparr>pl_enricher := Some er'\<rparr>), e')))"

definition score_event :: "event \<Rightarrow> 's pipeline \<Rightarrow> 's pipeline \<times> event" where
  "score_event e p =
     (case pl_scorer p of
        None \<Rightarrow> (p, e)
      | Some score \<Rightarrow> (observe (ObserveStage ''score'') p, e\<lparr>e_AnomalyScore := score e\<rparr>))"

definition detect_event :: "pipe_env \<Rightarrow> event \<Rightarrow> 's pipeline \<Rightarrow> 's pipeline \<times> result" where
  "detect_event E e p =
     (case Evaluate (pl_engine p) (pe_clock E) e of (en', res) \<Rightarrow>
        (observe (ObserveStage ''detect'') (p\<lparr>pl_engine := en'\<rparr>), res))"

fun handle_all :: "response_env \<Rightarrow> responder \<Rightarrow> alert list \<Rightarrow> responder \<times> alert list \<times> effect list" where
  "handle_all E r [] = (r, [], [])"
| "handle_all E r (al # als) =
     (case Handle E r al of (r, al', effs) \<Rightarrow>
      case handle_all E r als of (r, als', effs') \<Rightarrow> (r, al' # als', effs @ effs'))"

definition respond_event :: "pipe_env \<Rightarrow> alert list \<Rightarrow> 's pipeline \<Rightarrow> 's pipeline \<times> alert list \<times> effect list" where
  "respond_event E als p =
     (case pl_responder p of
        None \<Rightarrow> (p, als, [])
      | Some r \<Rightarrow> (case handle_all (pe_response E) r als of (r', als', effs) \<Rightarrow>
          (observe (ObserveStage ''respond'') (p\<lparr>pl_responder := Some r'\<rparr>), als', effs)))"

fun emitAlerts :: "alert list \<Rightarrow> 's pipeline \<Rightarrow> 's pipeline" where
  "emitAlerts [] p = p"
| "emitAlerts (al # als) p =
     emitAlerts als (sink_put (SAlert al) (observe ObserveAlert
       (p\<lparr>pl_stats := (pl_stats p)\<lparr>stat_Alerts := stat_Alerts (pl_stats p) + 1\<rparr>\<rparr>)))"

definition emitIncident :: "incident option \<Rightarrow> 's pipeline \<Rightarrow> 's pipeline" where
  "emitIncident inc p =
     (case inc of
        None \<Rightarrow> p
      | Some i \<Rightarrow> sink_put (SIncident i) (observe ObserveIncident
          (p\<lparr>pl_stats := (pl_stats p)\<lparr>stat_Incidents := stat_Incidents (pl_stats p) + 1\<rparr>\<rparr>)))"

definition process_event :: "pipe_env \<Rightarrow> 's pipeline \<Rightarrow> event \<Rightarrow> 's pipeline \<times> effect list" where
  "process_event E p e =
     (let p = begin_event E p;
          (p, e) = enrich_event E e p;
          (p, e) = score_event e p;
          (p, res) = detect_event E e p;
          (p, als, effs) = respond_event E (res_Alerts res) p;
          p = observe (ObserveStage ''output'') (sink_put (SEvent e) p);
          p = emitAlerts als p
      in (emitIncident (res_Incident res) p, effs))"

text \<open>The consumer loop of \<^verbatim>\<open>Run\<close> over what the source sends, and the error \<^verbatim>\<open>Run\<close> returns.\<close>

fun process_all :: "'s pipeline \<Rightarrow> (pipe_env \<times> event) list \<Rightarrow> 's pipeline \<times> effect list" where
  "process_all p [] = (p, [])"
| "process_all p ((E, e) # es) =
     (case process_event E p e of (p, effs) \<Rightarrow>
      case process_all p es of (p, effs') \<Rightarrow> (p, effs @ effs'))"

definition run_error :: "bool \<Rightarrow> string option \<Rightarrow> string option" where
  "run_error cancelled sourceErr = (if cancelled then None else sourceErr)"

section \<open>Replay (replay.go)\<close>

definition maxReplayLine :: nat where
  "maxReplayLine = 2 ^ 20"

text \<open>
  The lines \<^verbatim>\<open>bufio.Scanner\<close> yields: cut at each newline, without a carriage return before it, a last line
  only if it is not empty. It stops with an error at a line that does not fit its buffer.
\<close>

definition drop_cr :: "string \<Rightarrow> string" where
  "drop_cr s = (if s \<noteq> [] \<and> last s = CHR 0x0D then butlast s else s)"

definition scan_lines :: "string \<Rightarrow> string list" where
  "scan_lines s = (let ls = split_on (CHR 0x0A) s in if last ls = [] then butlast ls else ls)"

datatype replay_error = Open_failed string | Bad_line nat string | Cancelled | Too_long

text \<open>
  \<open>decode\<close> is the JSON decoder, \<open>stop n\<close> says whether the select at line \<open>n\<close> takes the cancelled context.
\<close>

fun replay_loop ::
    "(string \<Rightarrow> string + event) \<Rightarrow> (nat \<Rightarrow> bool) \<Rightarrow> nat \<Rightarrow> string list \<Rightarrow> event list \<times> replay_error option" where
  "replay_loop decode stop lineNo [] = ([], None)"
| "replay_loop decode stop lineNo (line # lines) =
     (if length line \<ge> maxReplayLine then ([], Some Too_long)
      else let raw = trim_space (drop_cr line) in
        if raw = [] then replay_loop decode stop (lineNo + 1) lines
        else case decode raw of
          Inl err \<Rightarrow> ([], Some (Bad_line lineNo err))
        | Inr e \<Rightarrow>
            if stop lineNo then ([], Some Cancelled)
            else case replay_loop decode stop (lineNo + 1) lines of (es, err) \<Rightarrow> (Normalize e # es, err))"

definition replay_Run ::
    "(string \<Rightarrow> string + event) \<Rightarrow> (nat \<Rightarrow> bool) \<Rightarrow> string + string \<Rightarrow> event list \<times> replay_error option" where
  "replay_Run decode stop content =
     (case content of
        Inl err \<Rightarrow> ([], Some (Open_failed err))
      | Inr s \<Rightarrow> replay_loop decode stop 1 (scan_lines s))"

section \<open>Fan-out\<close>

lemma write_loop_sinks: "snd (write_loop x ss) = map (\<lambda>s. snd (sink_write x s)) ss"
  by (induction ss) (simp_all add: case_prod_beta)

lemma MultiSink_write_sinks: "snd (MultiSink_write x ss) = map (\<lambda>s. snd (sink_write x s)) ss"
  by (simp add: MultiSink_write_def case_prod_beta write_loop_sinks)

definition feed :: "sink_item list \<Rightarrow> 's sink \<Rightarrow> 's sink" where
  "feed xs s = foldl (\<lambda>s x. snd (sink_write x s)) s xs"

lemma feed_simps [simp]: "feed [] s = s" "feed (x # xs) s = feed xs (snd (sink_write x s))"
  by (simp_all add: feed_def)

lemma map_feed_Nil [simp]: "map (feed []) ss = ss"
  by (induction ss) simp_all

lemma feed_append: "feed (xs @ ys) s = feed ys (feed xs s)"
  by (simp add: feed_def)

lemma pl_sink_observe [simp]: "pl_sink (observe x p) = pl_sink p" "pl_stats (observe x p) = pl_stats p"
  "pl_responder (observe x p) = pl_responder p" "pl_scorer (observe x p) = pl_scorer p"
  "pl_enricher (observe x p) = pl_enricher p" "pl_engine (observe x p) = pl_engine p"
  by (simp_all add: observe_def)

lemma sink_put_fields [simp]: "pl_sink (sink_put x p) = map (feed [x]) (pl_sink p)" "pl_stats (sink_put x p) = pl_stats p"
  "pl_responder (sink_put x p) = pl_responder p" "pl_scorer (sink_put x p) = pl_scorer p"
  "pl_enricher (sink_put x p) = pl_enricher p" "pl_engine (sink_put x p) = pl_engine p"
  by (simp_all add: sink_put_def MultiSink_write_sinks)

lemma emitAlerts_fields:
  "pl_sink (emitAlerts als p) = map (feed (map SAlert als)) (pl_sink p)"
  "pl_stats (emitAlerts als p) = (pl_stats p)\<lparr>stat_Alerts := stat_Alerts (pl_stats p) + of_nat (length als)\<rparr>"
  "pl_responder (emitAlerts als p) = pl_responder p" "pl_scorer (emitAlerts als p) = pl_scorer p"
  "pl_enricher (emitAlerts als p) = pl_enricher p" "pl_engine (emitAlerts als p) = pl_engine p"
  by (induction als arbitrary: p) (simp_all add: add.assoc)

definition incident_items :: "incident option \<Rightarrow> sink_item list" where
  "incident_items inc = (case inc of None \<Rightarrow> [] | Some i \<Rightarrow> [SIncident i])"

lemma emitIncident_fields:
  "pl_sink (emitIncident inc p) = map (feed (incident_items inc)) (pl_sink p)"
  "pl_stats (emitIncident inc p) =
     (pl_stats p)\<lparr>stat_Incidents := stat_Incidents (pl_stats p) + of_nat (length (incident_items inc))\<rparr>"
  "pl_responder (emitIncident inc p) = pl_responder p" "pl_scorer (emitIncident inc p) = pl_scorer p"
  "pl_enricher (emitIncident inc p) = pl_enricher p" "pl_engine (emitIncident inc p) = pl_engine p"
  by (simp_all add: emitIncident_def incident_items_def split: option.split)

section \<open>One event\<close>

text \<open>What the stages before the output make of an event.\<close>

definition staged :: "pipe_env \<Rightarrow> 's pipeline \<Rightarrow> event \<Rightarrow> 's pipeline \<times> event \<times> alert list \<times> effect list \<times> incident option" where
  "staged E p e =
     (let (p, e) = enrich_event E e (begin_event E p);
          (p, e) = score_event e p;
          (p, res) = detect_event E e p;
          (p, als, effs) = respond_event E (res_Alerts res) p
      in (p, e, als, effs, res_Incident res))"

lemma process_event_staged:
  "process_event E p e = (case staged E p e of (p, e, als, effs, inc) \<Rightarrow>
     (emitIncident inc (emitAlerts als (observe (ObserveStage ''output'') (sink_put (SEvent e) p))), effs))"
  by (simp add: process_event_def staged_def Let_def split: prod.splits)

lemma staged_fields:
  assumes "staged E p e = (p', e', als, effs, inc)"
  shows "pl_sink p' = pl_sink p"
    and "pl_stats p' = (pl_stats p)\<lparr>stat_Events := stat_Events (pl_stats p) + 1\<rparr>"
  using assms
  by (auto simp: staged_def begin_event_def enrich_event_def score_event_def detect_event_def respond_event_def
      split: option.splits prod.splits)

definition facts_kept :: "event \<Rightarrow> event \<Rightarrow> bool" where
  "facts_kept e e' \<longleftrightarrow> enriches (e\<lparr>e_AnomalyScore := 0\<rparr>) (e'\<lparr>e_AnomalyScore := 0\<rparr>)"

lemma enriches_facts_kept: "enriches e e' \<Longrightarrow> facts_kept e (e'\<lparr>e_AnomalyScore := s\<rparr>)" "enriches e e' \<Longrightarrow> facts_kept e e'"
  by (simp_all add: facts_kept_def enriches_def same_facts_def fills_blanks_def Let_def)

lemma Handle_event: "a_Event (fst (snd (Handle E r al))) = a_Event al"
  by (simp add: Handle_def Let_def case_prod_beta)

lemma handle_all_events: "map a_Event (fst (snd (handle_all E r als))) = map a_Event als"
  by (induction als arbitrary: r) (simp_all add: case_prod_beta Handle_event)

lemma Evaluate_alert_events: "al \<in> set (res_Alerts (snd (Evaluate en clock e))) \<Longrightarrow> a_Event al = e"
  unfolding Evaluate_alerts by (auto simp: ToAlert_def intelAlert_def split: option.splits)

lemma staged_event:
  assumes "staged E p e = (p', e', als, effs, inc)"
  shows "facts_kept e e' \<and> list_all (\<lambda>al. a_Event al = e') als"
proof -
  obtain p1 e1 where 1: "enrich_event E e (begin_event E p) = (p1, e1)"
    by fastforce
  obtain p2 e2 where 2: "score_event e1 p1 = (p2, e2)"
    by fastforce
  obtain p3 res where 3: "detect_event E e2 p2 = (p3, res)"
    by fastforce
  have e': "e' = e2" and als: "als = fst (snd (respond_event E (res_Alerts res) p3))"
    using assms by (simp_all add: staged_def 1 2 3 case_prod_beta)
  have "enriches e e1"
    using 1 Enrich_enriches by (auto simp: enrich_event_def split: option.splits prod.splits) (metis snd_conv)
  then have "facts_kept e e'"
    using 2 by (auto simp: score_event_def e' enriches_facts_kept split: option.splits)
  moreover have "list_all (\<lambda>al. a_Event al = e2) (res_Alerts res)"
    using 3 Evaluate_alert_events [of _ "pl_engine p2" "pe_clock E" e2]
    by (auto simp: detect_event_def list_all_iff split: prod.splits)
  then have "list_all (\<lambda>x. x = e2) (map a_Event (res_Alerts res))"
    by (simp add: list_all_iff)
  then have "list_all (\<lambda>x. x = e2) (map a_Event als)"
    by (simp add: als respond_event_def case_prod_beta handle_all_events split: option.split)
  ultimately show ?thesis
    by (simp add: e' list_all_iff)
qed

section \<open>Runs\<close>

text \<open>
  What is detected, apart from responses, sinks, counters and observers: the enricher and the engine
  go from event to event, and each event comes with its enriched and scored form and the engine's
  result for it.
\<close>

definition detection ::
    "pipe_env \<Rightarrow> (event \<Rightarrow> real) option \<Rightarrow> enricher option \<Rightarrow> engine \<Rightarrow> event \<Rightarrow> enricher option \<times> engine \<times> event \<times> result" where
  "detection E sc er en e =
     (let (er', e1) = (case er of
            None \<Rightarrow> (None, e)
          | Some r \<Rightarrow> (Some (fst (Enrich (pe_host E) r e)), snd (Enrich (pe_host E) r e)));
          e2 = (case sc of None \<Rightarrow> e1 | Some score \<Rightarrow> e1\<lparr>e_AnomalyScore := score e1\<rparr>);
          (en', res) = Evaluate en (pe_clock E) e2
      in (er', en', e2, res))"

fun detections ::
    "(event \<Rightarrow> real) option \<Rightarrow> enricher option \<Rightarrow> engine \<Rightarrow> (pipe_env \<times> event) list \<Rightarrow> (event \<times> event \<times> result) list" where
  "detections sc er en [] = []"
| "detections sc er en ((E, e) # es) =
     (case detection E sc er en e of (er', en', e', res) \<Rightarrow> (e, e', res) # detections sc er' en' es)"

definition unanswered :: "alert \<Rightarrow> alert" where
  "unanswered al = al\<lparr>a_Response := None\<rparr>"

text \<open>
  What the pipeline writes for one event: the event as it was evaluated, with its facts kept, then
  the alerts the engine raised for it, all of them and in order, differing from the engine's only in
  the record of the response, then the engine's incident if there is one.
\<close>

definition block_ok :: "event \<times> event \<times> result \<Rightarrow> sink_item list \<Rightarrow> bool" where
  "block_ok d b \<longleftrightarrow> (case d of (e, e', res) \<Rightarrow>
     facts_kept e e' \<and> list_all (\<lambda>al. a_Event al = e') (res_Alerts res) \<and>
     (\<exists>als. map unanswered als = map unanswered (res_Alerts res) \<and>
       b = SEvent e' # map SAlert als @ incident_items (res_Incident res)))"

definition alert_count :: "(event \<times> event \<times> result) list \<Rightarrow> nat" where
  "alert_count ds = (\<Sum>(e, e', res)\<leftarrow>ds. length (res_Alerts res))"

definition incident_count :: "(event \<times> event \<times> result) list \<Rightarrow> nat" where
  "incident_count ds = (\<Sum>(e, e', res)\<leftarrow>ds. length (incident_items (res_Incident res)))"

lemma count_simps [simp]:
  "alert_count [] = 0" "alert_count ((e, e', res) # ds) = length (res_Alerts res) + alert_count ds"
  "incident_count [] = 0"
  "incident_count ((e, e', res) # ds) = length (incident_items (res_Incident res)) + incident_count ds"
  by (simp_all add: alert_count_def incident_count_def)

lemma handle_all_unanswered: "map unanswered (fst (snd (handle_all E r als))) = map unanswered als"
  by (induction als arbitrary: r) (simp_all add: case_prod_beta Handle_def unanswered_def Let_def)

lemma staged_detection:
  assumes "staged E p e = (p', e', als, effs, inc)"
  shows "\<exists>res. detection E (pl_scorer p) (pl_enricher p) (pl_engine p) e = (pl_enricher p', pl_engine p', e', res) \<and>
    pl_scorer p' = pl_scorer p \<and> inc = res_Incident res \<and> map unanswered als = map unanswered (res_Alerts res)"
proof -
  define x where "x = enrich_event E e (begin_event E p)"
  define y where "y = score_event (snd x) (fst x)"
  define z where "z = detect_event E (snd y) (fst y)"
  define u where "u = respond_event E (res_Alerts (snd z)) (fst z)"
  have s: "p' = fst u" "e' = snd y" "als = fst (snd u)" "inc = res_Incident (snd z)"
    using assms by (auto simp: staged_def case_prod_beta x_def y_def z_def u_def)
  have x: "pl_scorer (fst x) = pl_scorer p" "pl_engine (fst x) = pl_engine p"
    "pl_enricher (fst x) = map_option (\<lambda>r. fst (Enrich (pe_host E) r e)) (pl_enricher p)"
    "snd x = (case pl_enricher p of None \<Rightarrow> e | Some r \<Rightarrow> snd (Enrich (pe_host E) r e))"
    by (simp_all add: x_def enrich_event_def begin_event_def case_prod_beta split: option.split)
  have y: "pl_scorer (fst y) = pl_scorer (fst x)" "pl_engine (fst y) = pl_engine (fst x)" "pl_enricher (fst y) = pl_enricher (fst x)"
    "snd y = (case pl_scorer (fst x) of None \<Rightarrow> snd x | Some score \<Rightarrow> (snd x)\<lparr>e_AnomalyScore := score (snd x)\<rparr>)"
    by (simp_all add: y_def score_event_def split: option.split)
  have z: "pl_scorer (fst z) = pl_scorer (fst y)" "pl_enricher (fst z) = pl_enricher (fst y)"
    "Evaluate (pl_engine (fst y)) (pe_clock E) (snd y) = (pl_engine (fst z), snd z)"
    by (simp_all add: z_def detect_event_def case_prod_beta)
  have u: "pl_scorer (fst u) = pl_scorer (fst z)" "pl_engine (fst u) = pl_engine (fst z)" "pl_enricher (fst u) = pl_enricher (fst z)"
    "map unanswered (fst (snd u)) = map unanswered (res_Alerts (snd z))"
    by (simp_all add: u_def respond_event_def case_prod_beta handle_all_unanswered split: option.split)
  show ?thesis
    using z by (intro exI [of _ "snd z"]) (auto simp: s u y x detection_def split: option.split)
qed

lemma detection_result: "detection E sc er en e = (er', en', e', res) \<Longrightarrow> Evaluate en (pe_clock E) e' = (en', res)"
  by (auto simp: detection_def Let_def case_prod_beta prod_eq_iff)

lemma process_event_block:
  assumes "detection E (pl_scorer p) (pl_enricher p) (pl_engine p) e = (er', en', e', res)"
    and "p' = fst (process_event E p e)"
  shows "pl_scorer p' = pl_scorer p" "pl_enricher p' = er'" "pl_engine p' = en'"
    "\<exists>b. block_ok (e, e', res) b \<and> pl_sink p' = map (feed b) (pl_sink p)"
    "pl_stats p' =
       \<lparr>stat_Events = stat_Events (pl_stats p) + 1,
        stat_Alerts = stat_Alerts (pl_stats p) + of_nat (length (res_Alerts res)),
        stat_Incidents = stat_Incidents (pl_stats p) + of_nat (length (incident_items (res_Incident res)))\<rparr>"
proof -
  obtain q e2 als effs inc where s: "staged E p e = (q, e2, als, effs, inc)"
    by (cases "staged E p e")
  have d: "er' = pl_enricher q" "en' = pl_engine q" "e2 = e'" "pl_scorer q = pl_scorer p" "inc = res_Incident res"
    "map unanswered als = map unanswered (res_Alerts res)"
    using staged_detection [OF s] assms(1) by auto
  note fields = process_event_staged s emitIncident_fields emitAlerts_fields staged_fields [OF s]
  show "pl_scorer p' = pl_scorer p" "pl_enricher p' = er'" "pl_engine p' = en'"
    by (simp_all add: assms(2) fields d)
  have len: "length als = length (res_Alerts res)"
    using arg_cong [OF d(6), of length] by simp
  show "pl_stats p' =
       \<lparr>stat_Events = stat_Events (pl_stats p) + 1,
        stat_Alerts = stat_Alerts (pl_stats p) + of_nat (length (res_Alerts res)),
        stat_Incidents = stat_Incidents (pl_stats p) + of_nat (length (incident_items (res_Incident res)))\<rparr>"
    by (simp add: assms(2) fields d(5) len)
  have "list_all (\<lambda>al. a_Event al = e') (res_Alerts res)"
    using detection_result [OF assms(1)] Evaluate_alert_events [of _ "pl_engine p" "pe_clock E" e']
    by (simp add: list_all_iff)
  then have "block_ok (e, e', res) (SEvent e' # map SAlert als @ incident_items inc)"
    using staged_event [OF s] d(3,5,6) by (auto simp: block_ok_def)
  moreover have "pl_sink p' = map (feed (SEvent e' # map SAlert als @ incident_items inc)) (pl_sink p)"
    by (simp add: assms(2) fields feed_append d(3))
  ultimately show "\<exists>b. block_ok (e, e', res) b \<and> pl_sink p' = map (feed b) (pl_sink p)"
    by blast
qed

text \<open>
  C12. The pipeline loses nothing and invents nothing: over any stream of events, every sink, failing or
  not, is handed the same items: for each event, in the order of the source, the event as it was
  evaluated, with what the sensor reported unchanged, then exactly the alerts the engine raised for
  it, in order, with at most the record of the response added, then the engine's incident if it
  opened one; and the three counters grow by the numbers of events, of alerts raised and of
  incidents opened.
\<close>

theorem pipeline_writes:
  "\<exists>blocks. list_all2 block_ok (detections (pl_scorer p) (pl_enricher p) (pl_engine p) es) blocks \<and>
     pl_sink (fst (process_all p es)) = map (feed (concat blocks)) (pl_sink p) \<and>
     pl_stats (fst (process_all p es)) =
       \<lparr>stat_Events = stat_Events (pl_stats p) + of_nat (length es),
        stat_Alerts = stat_Alerts (pl_stats p) +
          of_nat (alert_count (detections (pl_scorer p) (pl_enricher p) (pl_engine p) es)),
        stat_Incidents = stat_Incidents (pl_stats p) +
          of_nat (incident_count (detections (pl_scorer p) (pl_enricher p) (pl_engine p) es))\<rparr>"
proof (induction es arbitrary: p)
  case Nil
  then show ?case by (intro exI [of _ "[]"]) simp
next
  case (Cons x es)
  obtain E e where x: "x = (E, e)" by (cases x)
  obtain er' en' e' res where d: "detection E (pl_scorer p) (pl_enricher p) (pl_engine p) e = (er', en', e', res)"
    by (cases "detection E (pl_scorer p) (pl_enricher p) (pl_engine p) e")
  define q where "q = fst (process_event E p e)"
  note q = process_event_block [OF d q_def]
  obtain b where b: "block_ok (e, e', res) b" "pl_sink q = map (feed b) (pl_sink p)"
    using q(4) by blast
  obtain bs where bs: "list_all2 block_ok (detections (pl_scorer q) (pl_enricher q) (pl_engine q) es) bs"
    "pl_sink (fst (process_all q es)) = map (feed (concat bs)) (pl_sink q)"
    "pl_stats (fst (process_all q es)) =
       \<lparr>stat_Events = stat_Events (pl_stats q) + of_nat (length es),
        stat_Alerts = stat_Alerts (pl_stats q) +
          of_nat (alert_count (detections (pl_scorer q) (pl_enricher q) (pl_engine q) es)),
        stat_Incidents = stat_Incidents (pl_stats q) +
          of_nat (incident_count (detections (pl_scorer q) (pl_enricher q) (pl_engine q) es))\<rparr>"
    using Cons.IH by blast
  have run: "fst (process_all p (x # es)) = fst (process_all q es)"
    by (simp add: x q_def case_prod_beta)
  show ?case
    unfolding run using b bs q(1-3,5)
    by (intro exI [of _ "b # bs"]) (simp add: x d feed_append algebra_simps)
qed

section \<open>Effects\<close>

lemma handle_all_effects:
  assumes "x \<in> set (snd (snd (handle_all E r als)))"
  shows "\<exists>r' al. al \<in> set als \<and> x \<in> set (snd (snd (Handle E r' al))) \<and> rs_mode r' = rs_mode r \<and> rs_allowlist r' = rs_allowlist r"
  using assms
proof (induction als arbitrary: r)
  case Nil
  then show ?case by simp
next
  case (Cons al als)
  let ?r = "fst (Handle E r al)"
  have "rs_mode ?r = rs_mode r" "rs_allowlist ?r = rs_allowlist r"
    by (simp_all add: Handle_def execute_def Let_def case_prod_beta)
  then show ?case
    using Cons.prems Cons.IH [of ?r] by (auto simp: case_prod_beta)
qed

lemma process_event_responder:
  "map_option (\<lambda>r. (rs_mode r, rs_allowlist r)) (pl_responder (fst (process_event E p e))) =
     map_option (\<lambda>r. (rs_mode r, rs_allowlist r)) (pl_responder p)"
proof -
  have keep: "rs_mode (fst (handle_all R r als)) = rs_mode r \<and> rs_allowlist (fst (handle_all R r als)) = rs_allowlist r" for R r als
    by (induction als arbitrary: r) (simp_all add: Handle_def execute_def Let_def case_prod_beta)
  show ?thesis
    by (auto simp: process_event_def begin_event_def enrich_event_def score_event_def detect_event_def respond_event_def
        emitIncident_fields emitAlerts_fields keep case_prod_beta Let_def split: option.split)
qed

text \<open>A signal of the responder is aimed at the process of an event, under the gates of \<open>Handle\<close>.\<close>

definition signal_justified :: "responder \<Rightarrow> uint32 \<Rightarrow> pipe_env \<Rightarrow> event \<Rightarrow> bool" where
  "signal_justified r pid E e \<longleftrightarrow>
     rs_mode r \<noteq> ModeOff \<and> rs_mode r \<noteq> ModeDryRun \<and> p_PID (e_Process e) = pid \<and>
     p_Executable (e_Process e) \<notin> set (rs_allowlist r) \<and> still_named (pe_response E) (e_Process e)"

lemma signal_justified_cong:
  "rs_mode r' = rs_mode r \<Longrightarrow> rs_allowlist r' = rs_allowlist r \<Longrightarrow> signal_justified r' = signal_justified r"
  by (simp add: signal_justified_def fun_eq_iff)

lemma early_responder [simp]:
  "pl_responder (begin_event E p) = pl_responder p"
  "pl_responder (fst (enrich_event E e p)) = pl_responder p"
  "pl_responder (fst (score_event e p)) = pl_responder p"
  "pl_responder (fst (detect_event E e p)) = pl_responder p"
  by (simp_all add: begin_event_def enrich_event_def score_event_def detect_event_def case_prod_beta split: option.split)

lemma process_event_signal:
  assumes "Signalled pid sig \<in> set (snd (process_event E p e))"
  shows "\<exists>r. pl_responder p = Some r \<and> signal_justified r pid E e"
proof -
  obtain p' e' als effs inc where s: "staged E p e = (p', e', als, effs, inc)"
    by (cases "staged E p e")
  then have eff: "Signalled pid sig \<in> set effs"
    using assms by (simp add: process_event_staged)
  define x where "x = enrich_event E e (begin_event E p)"
  define y where "y = score_event (snd x) (fst x)"
  define z where "z = detect_event E (snd y) (fst y)"
  define p2 and res where "p2 = fst z" and "res = snd z"
  have res: "effs = snd (snd (respond_event E (res_Alerts res) p2))" "als = fst (snd (respond_event E (res_Alerts res) p2))"
    using s by (auto simp: staged_def case_prod_beta x_def y_def z_def p2_def res_def)
  have p2: "pl_responder p2 = pl_responder p"
    by (simp add: p2_def z_def y_def x_def)
  obtain r where r: "pl_responder p = Some r" "Signalled pid sig \<in> set (snd (snd (handle_all (pe_response E) r (res_Alerts res))))"
    using eff res p2 by (cases "pl_responder p") (auto simp: respond_event_def case_prod_beta)
  obtain r' al where al: "al \<in> set (res_Alerts res)" "Signalled pid sig \<in> set (snd (snd (Handle (pe_response E) r' al)))"
    "rs_mode r' = rs_mode r" "rs_allowlist r' = rs_allowlist r"
    using handle_all_effects [OF r(2)] by blast
  have "map a_Event als = map a_Event (res_Alerts res)"
    using r res p2 by (simp add: respond_event_def case_prod_beta handle_all_events)
  then have "a_Event al = e'"
    using al(1) staged_event [OF s] by (auto simp: list_all_iff) (metis imageE image_eqI list.set_map)
  moreover have "p_PID (e_Process e') = p_PID (e_Process e) \<and> p_Name (e_Process e') = p_Name (e_Process e) \<and>
      p_Executable (e_Process e') = p_Executable (e_Process e)"
    using staged_event [OF s] by (simp add: facts_kept_def enriches_def same_facts_def Let_def)
  ultimately show ?thesis
    using Handle_gated [OF al(2)] al(3,4) r(1) by (auto simp: signal_justified_def still_named_def)
qed

text \<open>
  The agent signals nothing it did not see: over any stream of events, a signal is delivered only by a
  responder in enforcement, and only to the process of an event of the stream that is not allow-listed
  and whose name is unknown or, when the signal is sent, still the one the sensor reported.
\<close>

theorem pipeline_signals_justified:
  assumes "Signalled pid sig \<in> set (snd (process_all p es))"
  shows "\<exists>r E e. pl_responder p = Some r \<and> (E, e) \<in> set es \<and> signal_justified r pid E e"
  using assms
proof (induction es arbitrary: p)
  case Nil
  then show ?case by simp
next
  case (Cons x es)
  obtain E e where x: "x = (E, e)" by (cases x)
  consider "Signalled pid sig \<in> set (snd (process_event E p e))"
    | "Signalled pid sig \<in> set (snd (process_all (fst (process_event E p e)) es))"
    using Cons.prems by (auto simp: x case_prod_beta)
  then show ?case
  proof cases
    case 1
    then show ?thesis using process_event_signal x by fastforce
  next
    case 2
    obtain r' E' e' where r': "pl_responder (fst (process_event E p e)) = Some r'" "(E', e') \<in> set es" "signal_justified r' pid E' e'"
      using Cons.IH [OF 2] by blast
    then obtain r where "pl_responder p = Some r" "rs_mode r' = rs_mode r" "rs_allowlist r' = rs_allowlist r"
      using process_event_responder [of E p e] by (cases "pl_responder p") auto
    then show ?thesis
      using r' signal_justified_cong [of r' r] by auto
  qed
qed

definition sample_hit :: intel_hit where
  "sample_hit = \<lparr>h_Indicator = ''ab'', h_Type = ''sha256'', h_Field = ''process.hash.sha256'', h_Source = ''feed''\<rparr>"

definition sample_pipeline :: "unit pipeline" where
  "sample_pipeline = pipeline_New None None (SetIntel (Some (\<lambda>_. [sample_hit])) (NewEngine [] None))
     (Some (respond_New ModeEnforce ModeEnforce [])) [] None None"

definition sample_env :: pipe_env where
  "sample_env = \<lparr>pe_host = quiet_host (\<lambda>_. None), pe_response = calm_host, pe_clock = 0\<rparr>"

definition sample_shell :: event where
  "sample_shell = zero_event\<lparr>e_Process := zero_process\<lparr>p_PID := 7, p_Name := ''sh''\<rparr>\<rparr>"

theorem pipeline_signals_justified_witness:
  "Signalled 7 SIGSTOP \<in> set (snd (process_all sample_pipeline [(sample_env, sample_shell)])) \<and>
   (\<exists>r. pl_responder sample_pipeline = Some r \<and> signal_justified r 7 sample_env sample_shell)"
proof -
  have x: "Signalled 7 SIGSTOP \<in> set (snd (process_all sample_pipeline [(sample_env, sample_shell)]))"
    by (simp add: process_event_def sample_pipeline_def pipeline_New_def sample_env_def begin_event_def observe_def
        enrich_event_def score_event_def detect_event_def respond_event_def Evaluate_def SetIntel_def NewEngine_def
        sample_shell_def intelAlert_def sample_hit_def Handle_def respond_New_def clampMode_def policy_Action_def
        effectiveScore_def severityScore_def DefaultPolicy_def defaultKillScore_def defaultBlockScore_def
        defaultThrottleScore_def hasNetworkTarget_def zero_event_def zero_network_def allowlisted_def execute_def
        guardedFreeze_def signalGuarded_def calm_host_def trim_space_def is_space_def Let_def)
  then show ?thesis
    using pipeline_signals_justified [OF x] by auto
qed

section \<open>Replay\<close>

text \<open>The text of a line that is to be decoded; blank lines have none.\<close>

definition replay_texts :: "string \<Rightarrow> string list" where
  "replay_texts s = filter (\<lambda>t. t \<noteq> []) (map (\<lambda>l. trim_space (drop_cr l)) (scan_lines s))"

lemma replay_loop_complete:
  "replay_loop decode stop n ls = (es, None) \<Longrightarrow>
     \<exists>ds. es = map Normalize ds \<and> map decode (filter (\<lambda>t. t \<noteq> []) (map (\<lambda>l. trim_space (drop_cr l)) ls)) = map Inr ds"
proof (induction ls arbitrary: n es)
  case Nil
  then show ?case by simp
next
  case (Cons l ls)
  show ?case
  proof (cases "trim_space (drop_cr l) = []")
    case True
    then show ?thesis
      using Cons by (auto simp: Let_def split: if_splits)
  next
    case False
    then obtain d es' where d: "decode (trim_space (drop_cr l)) = Inr d"
      "replay_loop decode stop (n + 1) ls = (es', None)" "es = Normalize d # es'"
      using Cons.prems by (auto simp: Let_def split: if_splits sum.splits prod.splits)
    then obtain ds where "es' = map Normalize ds"
      "map decode (filter (\<lambda>t. t \<noteq> []) (map (\<lambda>l. trim_space (drop_cr l)) ls)) = map Inr ds"
      using Cons.IH by blast
    then show ?thesis
      using d False by (intro exI [of _ "d # ds"]) simp
  qed
qed

text \<open>A replay without an error delivers every line that is not blank, decoded and normalised, in order.\<close>

lemma replay_complete:
  assumes "replay_Run decode stop (Inr s) = (es, None)"
  shows "\<exists>ds. es = map Normalize ds \<and> map decode (replay_texts s) = map Inr ds"
  using assms replay_loop_complete [of decode stop 1 "scan_lines s" es] by (simp add: replay_Run_def replay_texts_def)

end
