(* ===== verification/Anomaly.thy ===== *)
theory Anomaly
  imports Event_Model Complex_Main
begin

text \<open>
  Anomaly scoring, \<^verbatim>\<open>internal/anomaly\<close>: the features of an event (\<^verbatim>\<open>features.go\<close>), the rarity baseline
  (\<^verbatim>\<open>baseline.go\<close>), the isolation forest (\<^verbatim>\<open>iforest.go\<close>) and the detector that combines them
  (\<^verbatim>\<open>detector.go\<close>). A float64 is a real number where it is finite; \<open>None\<close> stands for NaN in \<open>forest_Score\<close>,
  and the infinities that arise are branches of the definitions. A nil map, a nil tree or forest is
  \<open>None\<close>, and an operation that panics on one is \<open>None\<close>. The random source is an argument that passes
  its state. JSON encoding is not modelled: \<open>Load\<close> starts from the decoded document.
\<close>

section \<open>Features (features.go)\<close>

datatype category = catExecutable | catParentChild | catDestPort | catUserProcess

type_synonym feature = "category \<times> string"

definition featuresOf :: "event \<Rightarrow> feature list" where
  "featuresOf e =
     (let p = e_Process e;
          exe = (if p_Executable p \<noteq> [] then [(catExecutable, p_Executable p)] else []);
          name = (if p_Name p \<noteq> [] then
              (let parent = (if p_ParentName p = [] then ''?'' else p_ParentName p) in
               [(catParentChild, parent @ ''>'' @ p_Name p), (catUserProcess, word_str (u_ID (e_User e)) @ ''>'' @ p_Name p)])
            else []);
          port = (if n_DstPort (e_Network e) \<noteq> 0 then [(catDestPort, word_str (n_DstPort (e_Network e)))] else [])
      in exe @ name @ port)"

definition hasFeatures :: "event \<Rightarrow> bool" where
  "hasFeatures e \<longleftrightarrow> p_Executable (e_Process e) \<noteq> [] \<or> p_Name (e_Process e) \<noteq> [] \<or> n_DstPort (e_Network e) \<noteq> 0"

definition pathDepth :: "string \<Rightarrow> nat" where
  "pathDepth path = (if path = [] then 0 else length (filter (\<lambda>c. c = CHR ''/'') path))"

definition byte_count :: "string \<Rightarrow> nat \<Rightarrow> real" where
  "byte_count s b = real (length (filter (\<lambda>c. byte_of c = b) s))"

definition shannonEntropy :: "string \<Rightarrow> real" where
  "shannonEntropy s =
     (if s = [] then 0
      else foldl (\<lambda>entropy b.
          if byte_count s b = 0 then entropy
          else let p = byte_count s b / real (length s) in entropy - p * log 2 p) 0 [0..<256])"

definition utc_hour :: "go_time \<Rightarrow> int" where
  "utc_hour t = (t div 3600000000000) mod 24"

definition featureDim :: nat where "featureDim = 8"

definition featureVector :: "event \<Rightarrow> real list" where
  "featureVector e =
     (let p = e_Process e in
      [real (length (p_Name p)), real (length (p_CommandLine p)), real (length (p_Args p)),
       of_int (utc_hour (e_Timestamp e)), real (unat (n_DstPort (e_Network e))), real (unat (u_ID (e_User e))),
       real (pathDepth (p_Executable p)), shannonEntropy (p_Name p)])"

section \<open>The rarity baseline (baseline.go)\<close>

type_synonym counts_map = "(string \<rightharpoonup> uint64) option"

record baseline =
  bl_Executable :: counts_map
  bl_ParentChild :: counts_map
  bl_DestPort :: counts_map
  bl_UserProcess :: counts_map

definition NewBaseline :: baseline where
  "NewBaseline = \<lparr>bl_Executable = Some Map.empty, bl_ParentChild = Some Map.empty,
     bl_DestPort = Some Map.empty, bl_UserProcess = Some Map.empty\<rparr>"

fun bl_counts :: "baseline \<Rightarrow> category \<Rightarrow> counts_map" where
  "bl_counts b catExecutable = bl_Executable b"
| "bl_counts b catParentChild = bl_ParentChild b"
| "bl_counts b catDestPort = bl_DestPort b"
| "bl_counts b catUserProcess = bl_UserProcess b"

fun set_counts :: "baseline \<Rightarrow> category \<Rightarrow> counts_map \<Rightarrow> baseline" where
  "set_counts b catExecutable m = b\<lparr>bl_Executable := m\<rparr>"
| "set_counts b catParentChild m = b\<lparr>bl_ParentChild := m\<rparr>"
| "set_counts b catDestPort m = b\<lparr>bl_DestPort := m\<rparr>"
| "set_counts b catUserProcess m = b\<lparr>bl_UserProcess := m\<rparr>"

definition count_of :: "baseline \<Rightarrow> feature \<Rightarrow> uint64" where
  "count_of b f = (case Option.bind (bl_counts b (fst f)) (\<lambda>m. m (snd f)) of None \<Rightarrow> 0 | Some n \<Rightarrow> n)"

fun observe_features :: "feature list \<Rightarrow> baseline \<Rightarrow> baseline option" where
  "observe_features [] b = Some b"
| "observe_features (f # fs) b =
     (case bl_counts b (fst f) of
        None \<Rightarrow> None
      | Some m \<Rightarrow> observe_features fs (set_counts b (fst f) (Some (m(snd f \<mapsto> count_of b f + 1)))))"

definition baseline_Observe :: "baseline \<Rightarrow> event \<Rightarrow> baseline option" where
  "baseline_Observe b e = observe_features (featuresOf e) b"

text \<open>
  \<open>1 + count\<close> wraps at the largest counter; \<^verbatim>\<open>math.Log2\<close> of zero is minus infinity, which gives zero.
\<close>

definition rarity :: "uint64 \<Rightarrow> real" where
  "rarity n = (if 1 + n = 0 then 0 else 1 / (1 + log 2 (real (unat (1 + n)))))"

fun rarest :: "baseline \<Rightarrow> feature list \<Rightarrow> real \<Rightarrow> real" where
  "rarest b [] highest = highest"
| "rarest b (f # fs) highest =
     (let r = rarity (count_of b f) in rarest b fs (if r > highest then r else highest))"

definition Rarity :: "baseline \<Rightarrow> event \<Rightarrow> real" where
  "Rarity b e = rarest b (featuresOf e) 0"

definition init_map :: "counts_map \<Rightarrow> counts_map" where
  "init_map m = (case m of None \<Rightarrow> Some Map.empty | Some m \<Rightarrow> Some m)"

definition ensureInitialized :: "baseline \<Rightarrow> baseline" where
  "ensureInitialized b =
     \<lparr>bl_Executable = init_map (bl_Executable b), bl_ParentChild = init_map (bl_ParentChild b),
      bl_DestPort = init_map (bl_DestPort b), bl_UserProcess = init_map (bl_UserProcess b)\<rparr>"

section \<open>The isolation forest (iforest.go)\<close>

definition eulerGamma :: real where "eulerGamma = 0.5772156649015329"
definition defaultTrees :: int where "defaultTrees = 100"
definition defaultSubsample :: int where "defaultSubsample = 256"

datatype iTree = ITree (it_Feature: int) (it_Split: real) (it_Left: "iTree option") (it_Right: "iTree option") (it_Size: int)

abbreviation leaf :: "nat \<Rightarrow> iTree" where
  "leaf n \<equiv> ITree 0 0 None None (int n)"

record isolationForest =
  if_Trees :: "iTree list"
  if_SampleSize :: int

text \<open>The random source: \<open>Intn\<close> and \<open>Float64\<close>, passing its state.\<close>

record 'g rng =
  rng_Intn :: "nat \<Rightarrow> 'g \<Rightarrow> nat \<times> 'g"
  rng_Float64 :: "'g \<Rightarrow> real \<times> 'g"

fun subsampleOf :: "'g rng \<Rightarrow> real list list \<Rightarrow> nat \<Rightarrow> 'g \<Rightarrow> real list list \<times> 'g" where
  "subsampleOf R samples 0 g = ([], g)"
| "subsampleOf R samples (Suc n) g =
     (case rng_Intn R (length samples) g of (k, g) \<Rightarrow>
      case subsampleOf R samples n g of (out, g) \<Rightarrow> (samples ! k # out, g))"

fun range_loop :: "nat \<Rightarrow> real list list \<Rightarrow> real \<times> real \<Rightarrow> real \<times> real" where
  "range_loop feature [] (low, high) = (low, high)"
| "range_loop feature (s # ss) (low, high) =
     range_loop feature ss (if s ! feature < low then s ! feature else low,
                            if s ! feature > high then s ! feature else high)"

definition featureRange :: "real list list \<Rightarrow> nat \<Rightarrow> real \<times> real" where
  "featureRange samples feature = range_loop feature samples (hd samples ! feature, hd samples ! feature)"

text \<open>\<open>levels\<close> is what is left of the depth, \<open>maxDepth - depth\<close>.\<close>

fun buildTree :: "'g rng \<Rightarrow> nat \<Rightarrow> real list list \<Rightarrow> 'g \<Rightarrow> iTree \<times> 'g" where
  "buildTree R 0 samples g = (leaf (length samples), g)"
| "buildTree R (Suc levels) samples g =
     (if length samples \<le> 1 then (leaf (length samples), g)
      else case rng_Intn R featureDim g of (feature, g) \<Rightarrow>
        case featureRange samples feature of (low, high) \<Rightarrow>
        if low = high then (leaf (length samples), g)
        else case rng_Float64 R g of (u, g) \<Rightarrow>
          let split = low + u * (high - low) in
          case buildTree R levels (filter (\<lambda>s. s ! feature < split) samples) g of (l, g) \<Rightarrow>
          case buildTree R levels (filter (\<lambda>s. \<not> s ! feature < split) samples) g of (r, g) \<Rightarrow>
            (ITree (int feature) split (Some l) (Some r) 0, g))"

fun build_trees :: "'g rng \<Rightarrow> real list list \<Rightarrow> nat \<Rightarrow> nat \<Rightarrow> nat \<Rightarrow> 'g \<Rightarrow> iTree list \<times> 'g" where
  "build_trees R samples sub_size levels 0 g = ([], g)"
| "build_trees R samples sub_size levels (Suc n) g =
     (case subsampleOf R samples sub_size g of (sub, g) \<Rightarrow>
      case buildTree R levels sub g of (t, g) \<Rightarrow>
      case build_trees R samples sub_size levels n g of (ts, g) \<Rightarrow> (t # ts, g))"

definition BuildForest :: "'g rng \<Rightarrow> real list list \<Rightarrow> int \<Rightarrow> int \<Rightarrow> 'g \<Rightarrow> isolationForest option \<times> 'g" where
  "BuildForest R samples numTrees subsample g =
     (if samples = [] then (None, g)
      else let numTrees = (if numTrees \<le> 0 then defaultTrees else numTrees);
               subsample = (if subsample \<le> 0 then defaultSubsample else subsample);
               subsample = (if subsample > int (length samples) then int (length samples) else subsample);
               maxDepth = \<lceil>log 2 (of_int subsample)\<rceil>;
               maxDepth = (if maxDepth < 1 then 1 else maxDepth)
           in case build_trees R samples (nat subsample) (nat maxDepth) (nat numTrees) g of (trees, g) \<Rightarrow>
             (Some \<lparr>if_Trees = trees, if_SampleSize = subsample\<rparr>, g))"

definition expectedPathLength :: "int \<Rightarrow> real" where
  "expectedPathLength n =
     (if n \<le> 1 then 0 else 2 * (ln (of_int (n - 1)) + eulerGamma) - 2 * of_int (n - 1) / of_int n)"

text \<open>A nil child and an index outside the vector panic.\<close>

fun pathLength :: "iTree \<Rightarrow> real list \<Rightarrow> nat \<Rightarrow> real option" where
  "pathLength (ITree f s None None n) v depth = Some (real depth + expectedPathLength n)"
| "pathLength (ITree f s (Some l) None n) v depth =
     (if f < 0 \<or> int (length v) \<le> f then None else if v ! nat f < s then pathLength l v (depth + 1) else None)"
| "pathLength (ITree f s None (Some r) n) v depth =
     (if f < 0 \<or> int (length v) \<le> f then None else if v ! nat f < s then None else pathLength r v (depth + 1))"
| "pathLength (ITree f s (Some l) (Some r) n) v depth =
     (if f < 0 \<or> int (length v) \<le> f then None
      else if v ! nat f < s then pathLength l v (depth + 1) else pathLength r v (depth + 1))"

fun total_path :: "iTree list \<Rightarrow> real list \<Rightarrow> real \<Rightarrow> real option" where
  "total_path [] v acc = Some acc"
| "total_path (t # ts) v acc = Option.bind (pathLength t v 0) (\<lambda>d. total_path ts v (acc + d))"

text \<open>A float64 that may be NaN. Division by an expected path length of zero gives NaN for a zero mean
  and minus infinity, hence the score zero, for a positive one; a mean is never negative.\<close>

datatype float = Real real | NaN

definition forest_Score :: "isolationForest option \<Rightarrow> real list \<Rightarrow> float option" where
  "forest_Score f v =
     (case f of
        None \<Rightarrow> Some (Real 0)
      | Some f \<Rightarrow>
          if if_Trees f = [] \<or> length v \<noteq> featureDim then Some (Real 0)
          else map_option (\<lambda>total.
            let mean = total / real (length (if_Trees f)); c = expectedPathLength (if_SampleSize f) in
            if c = 0 then (if mean = 0 then NaN else Real 0) else Real (2 powr (- mean / c)))
            (total_path (if_Trees f) v 0))"

definition NormalizedScore :: "isolationForest option \<Rightarrow> real list \<Rightarrow> float option" where
  "NormalizedScore f v =
     map_option (\<lambda>s. case s of NaN \<Rightarrow> NaN
       | Real s \<Rightarrow> let normalized = (s - 0.5) * 2 in if normalized < 0 then Real 0 else Real normalized)
     (forest_Score f v)"

section \<open>The detector (detector.go)\<close>

record detector =
  dt_Baseline :: "baseline option"
  dt_Forest :: "isolationForest option"

definition detector_Score :: "detector option \<Rightarrow> event \<Rightarrow> real option" where
  "detector_Score d e =
     (case d of
        None \<Rightarrow> Some 0
      | Some d \<Rightarrow>
          let score = (case dt_Baseline d of None \<Rightarrow> 0 | Some b \<Rightarrow> Rarity b e) in
          case dt_Forest d of
            None \<Rightarrow> Some score
          | Some f \<Rightarrow> map_option (\<lambda>structural. case structural of NaN \<Rightarrow> score
              | Real s \<Rightarrow> if s > score then s else score) (NormalizedScore (Some f) (featureVector e)))"

definition detector_Load :: "detector \<Rightarrow> detector" where
  "detector_Load d =
     d\<lparr>dt_Baseline := Some (ensureInitialized (case dt_Baseline d of None \<Rightarrow> NewBaseline | Some b \<Rightarrow> b))\<rparr>"

record trainer =
  tr_baseline :: baseline
  tr_vectors :: "real list list"

definition NewTrainer :: trainer where
  "NewTrainer = \<lparr>tr_baseline = NewBaseline, tr_vectors = []\<rparr>"

definition trainer_Observe :: "trainer \<Rightarrow> event \<Rightarrow> trainer option" where
  "trainer_Observe t e =
     (if \<not> hasFeatures e then Some t
      else map_option (\<lambda>b. \<lparr>tr_baseline = b, tr_vectors = tr_vectors t @ [featureVector e]\<rparr>)
             (baseline_Observe (tr_baseline t) e))"

definition trainer_Build :: "'g rng \<Rightarrow> trainer \<Rightarrow> 'g \<Rightarrow> detector \<times> 'g" where
  "trainer_Build R t g =
     (case BuildForest R (tr_vectors t) 0 0 g of (f, g) \<Rightarrow> (\<lparr>dt_Baseline = Some (tr_baseline t), dt_Forest = f\<rparr>, g))"

section \<open>Rarity\<close>

lemma rarity_range: "0 \<le> rarity n \<and> rarity n \<le> 1"
proof (cases "1 + n = 0")
  case True
  then show ?thesis by (simp add: rarity_def)
next
  case False
  then have "1 \<le> unat (1 + n)"
    by (metis One_nat_def Suc_leI unat_gt_0)
  moreover have "0 \<le> log 2 (real k)" if "1 \<le> k" for k :: nat
    using that by simp
  ultimately have "0 \<le> log 2 (real (unat (1 + n)))"
    by blast
  then show ?thesis
    using False by (simp add: rarity_def)
qed

lemma rarest_range: "0 \<le> h \<Longrightarrow> h \<le> 1 \<Longrightarrow> 0 \<le> rarest b fs h \<and> rarest b fs h \<le> 1"
  using rarity_range by (induction fs arbitrary: h) (simp_all add: Let_def)

lemma Rarity_range: "0 \<le> Rarity b e \<and> Rarity b e \<le> 1"
  by (simp add: Rarity_def rarest_range)

text \<open>A baseline whose four maps exist; observing keeps it so and never panics.\<close>

definition baseline_ok :: "baseline \<Rightarrow> bool" where
  "baseline_ok b \<longleftrightarrow> (\<forall>cat. bl_counts b cat \<noteq> None)"

lemma baseline_ok_New [simp]: "baseline_ok NewBaseline"
  unfolding baseline_ok_def by (rule allI, rename_tac cat, case_tac cat) (simp_all add: NewBaseline_def)

lemma baseline_ok_ensure [simp]: "baseline_ok (ensureInitialized b)"
  unfolding baseline_ok_def
  by (rule allI, rename_tac cat, case_tac cat) (simp_all add: ensureInitialized_def init_map_def split: option.splits)

lemma bl_counts_set: "bl_counts (set_counts b cat m) cat' = (if cat' = cat then m else bl_counts b cat')"
  by (cases cat; cases cat') simp_all

lemma observe_features_ok: "baseline_ok b \<Longrightarrow> \<exists>b'. observe_features fs b = Some b' \<and> baseline_ok b'"
proof (induction fs arbitrary: b)
  case Nil
  then show ?case by simp
next
  case (Cons f fs)
  obtain m where m: "bl_counts b (fst f) = Some m"
    using Cons.prems by (auto simp: baseline_ok_def)
  have "baseline_ok (set_counts b (fst f) (Some m'))" for m'
    using Cons.prems by (simp add: baseline_ok_def bl_counts_set)
  then show ?case
    using Cons.IH by (simp add: m)
qed

lemma count_of_set:
  "count_of (set_counts b (fst f) (Some (m(snd f \<mapsto> n)))) f' =
     (if f' = f then n else if fst f' = fst f then (case m (snd f') of None \<Rightarrow> 0 | Some k \<Rightarrow> k) else count_of b f')"
  by (auto simp: count_of_def bl_counts_set prod_eq_iff)

lemma observe_features_count:
  "observe_features fs b = Some b' \<Longrightarrow> count_of b' f = count_of b f + of_nat (count_list fs f)"
proof (induction fs arbitrary: b)
  case Nil
  then show ?case by simp
next
  case (Cons g fs)
  obtain m where m: "bl_counts b (fst g) = Some m"
    using Cons.prems by (cases "bl_counts b (fst g)") auto
  let ?b = "set_counts b (fst g) (Some (m(snd g \<mapsto> count_of b g + 1)))"
  have "count_of b' f = count_of ?b f + of_nat (count_list fs f)"
    using Cons.IH [of ?b] Cons.prems by (simp add: m)
  moreover have "count_of ?b f = (if f = g then count_of b g + 1 else count_of b f)"
    by (simp add: count_of_set) (simp add: count_of_def m)
  ultimately show ?case
    by simp
qed

section \<open>The forest\<close>

text \<open>A tree the trainer builds: every split is on a feature of the vector and has both children.\<close>

fun tree_ok :: "iTree \<Rightarrow> bool" where
  "tree_ok (ITree f s None None n) \<longleftrightarrow> 0 \<le> n"
| "tree_ok (ITree f s (Some l) (Some r) n) \<longleftrightarrow> 0 \<le> f \<and> f < int featureDim \<and> tree_ok l \<and> tree_ok r"
| "tree_ok _ \<longleftrightarrow> False"

definition fair :: "'g rng \<Rightarrow> bool" where
  "fair R \<longleftrightarrow> (\<forall>n g. 0 < n \<longrightarrow> fst (rng_Intn R n g) < n) \<and>
     (\<forall>g. 0 \<le> fst (rng_Float64 R g) \<and> fst (rng_Float64 R g) < 1)"

lemma buildTree_ok: "fair R \<Longrightarrow> tree_ok (fst (buildTree R levels samples g))"
proof (induction levels arbitrary: samples g)
  case 0
  then show ?case by simp
next
  case (Suc levels)
  have "fst (rng_Intn R featureDim g) < featureDim"
    using Suc.prems by (simp add: fair_def featureDim_def)
  then show ?case
    using Suc.IH [OF Suc.prems] by (auto simp: Let_def split: prod.splits) (metis fst_conv)+
qed

lemma build_trees_ok: "fair R \<Longrightarrow> list_all tree_ok (fst (build_trees R samples k levels n g))"
proof (induction n arbitrary: g)
  case 0
  then show ?case by simp
next
  case (Suc n)
  then show ?case
    using buildTree_ok [OF Suc.prems] by (auto split: prod.splits) (metis fst_conv)+
qed

lemma build_trees_length: "length (fst (build_trees R samples k levels n g)) = n"
  by (induction n arbitrary: g) (auto split: prod.splits, metis fst_conv)

lemma expectedPathLength_nonneg: "0 \<le> expectedPathLength n"
  and expectedPathLength_pos: "2 \<le> n \<Longrightarrow> 0 < expectedPathLength n"
proof -
  have pos: "0 < expectedPathLength n" if n: "2 \<le> n" for n
  proof (cases "n = 2")
    case True
    then show ?thesis by (simp add: expectedPathLength_def eulerGamma_def)
  next
    case False
    then have "ln 2 \<le> ln (of_int (n - 1) :: real)"
      using n by (subst ln_le_cancel_iff) auto
    then have "1 / 2 \<le> ln (of_int (n - 1) :: real)"
      using ln_le_minus_one [of "1 / 2 :: real"] by (simp add: ln_div)
    moreover have "2 * of_int (n - 1) / of_int n < (2::real)"
      using n by (simp add: field_simps)
    ultimately show ?thesis
      using n by (simp add: expectedPathLength_def eulerGamma_def)
  qed
  then show "2 \<le> n \<Longrightarrow> 0 < expectedPathLength n" .
  show "0 \<le> expectedPathLength n"
    using pos [of n] by (cases "2 \<le> n") (auto simp: expectedPathLength_def)
qed

lemma pathLength_ok:
  "tree_ok t \<Longrightarrow> length v = featureDim \<Longrightarrow> \<exists>d. pathLength t v depth = Some d \<and> 0 \<le> d"
proof (induction t v depth rule: pathLength.induct)
  case (1 f s n v depth)
  then show ?case using expectedPathLength_nonneg [of n] by simp
qed auto

lemma total_path_ok:
  "list_all tree_ok ts \<Longrightarrow> length v = featureDim \<Longrightarrow> 0 \<le> acc \<Longrightarrow> \<exists>d. total_path ts v acc = Some d \<and> 0 \<le> d"
proof (induction ts arbitrary: acc)
  case Nil
  then show ?case by simp
next
  case (Cons t ts)
  obtain d where d: "pathLength t v 0 = Some d" "0 \<le> d"
    using pathLength_ok [of t v 0] Cons.prems by auto
  then show ?case
    using Cons.IH [of "acc + d"] Cons.prems by auto
qed

definition forest_ok :: "isolationForest \<Rightarrow> bool" where
  "forest_ok f \<longleftrightarrow> list_all tree_ok (if_Trees f)"

text \<open>A float in the unit interval, or NaN.\<close>

fun unit_float :: "float \<Rightarrow> bool" where
  "unit_float NaN \<longleftrightarrow> True"
| "unit_float (Real x) \<longleftrightarrow> 0 \<le> x \<and> x \<le> 1"

lemma powr_neg_unit: "0 \<le> m \<Longrightarrow> 0 \<le> c \<Longrightarrow> 2 powr (- m / c) \<le> (1 :: real)"
  using powr_mono [of "- m / c" 0 2] by simp

lemma forest_Score_ok: "forest_ok f \<Longrightarrow> \<exists>s. forest_Score (Some f) v = Some s \<and> unit_float s"
proof (cases "if_Trees f = [] \<or> length v \<noteq> featureDim")
  case True
  then show ?thesis by (auto simp: forest_Score_def)
next
  case False
  assume "forest_ok f"
  then obtain total where t: "total_path (if_Trees f) v 0 = Some total" "0 \<le> total"
    using total_path_ok [of "if_Trees f" v 0] False by (auto simp: forest_ok_def)
  then have "2 powr (- (total / real (length (if_Trees f))) / expectedPathLength (if_SampleSize f)) \<le> 1"
    by (intro powr_neg_unit) (simp_all add: expectedPathLength_nonneg)
  then show ?thesis
    using False t by (simp add: forest_Score_def Let_def)
qed

lemma NormalizedScore_ok: "forest_ok f \<Longrightarrow> \<exists>s. NormalizedScore (Some f) v = Some s \<and> unit_float s"
proof -
  assume "forest_ok f"
  then obtain s where "forest_Score (Some f) v = Some s" "unit_float s"
    using forest_Score_ok [of f v] by blast
  then show ?thesis
    by (cases s) (auto simp: NormalizedScore_def Let_def)
qed

lemma BuildForest_ok: "fair R \<Longrightarrow> fst (BuildForest R samples n k g) = Some f \<Longrightarrow> forest_ok f"
  using build_trees_ok [of R samples] by (auto simp: BuildForest_def Let_def forest_ok_def split: prod.splits if_splits)
    (metis fst_conv)+

section \<open>Scores\<close>

text \<open>The contract of the pipeline's scorer: a score is in the unit interval.\<close>

locale event_scorer =
  fixes score :: "event \<Rightarrow> real"
  assumes unit: "0 \<le> score e" "score e \<le> 1"
begin

definition scored :: "event \<Rightarrow> event" where
  "scored e = e\<lparr>e_AnomalyScore := score e\<rparr>"

lemma scored_field: "\<exists>n. Field (scored e) ''anomaly.score'' = Some (AInt64 n) \<and> 0 \<le> n \<and> n \<le> 100"
proof -
  have "0 \<le> score e * 100 + 1 / 2" "score e * 100 + 1 / 2 \<le> 100 + 1 / 2"
    using unit [of e] by auto
  then have "0 \<le> float_to_int64 (score e * 100 + 1 / 2) \<and> float_to_int64 (score e * 100 + 1 / 2) \<le> 100"
    by (auto simp: float_to_int64_def Let_def in_int64_def int64_min_def int64_max_def floor_less_iff le_floor_iff)
  then show ?thesis
    by (simp add: Field_def fieldAccessors_def scored_def)
qed

end

interpretation baseline_scorer: event_scorer "Rarity b" for b
  using Rarity_range by unfold_locales auto

text \<open>
  C34. A trained detector scores every event, without panicking, in the unit interval: whatever was
  observed and whatever the random source draws, the trees it builds split on features the vector has and
  keep both children, path lengths are not negative, and a score that is not a number is discarded.
\<close>

theorem trained_score_in_unit:
  assumes "fair R"
  shows "\<exists>s. detector_Score (Some (fst (trainer_Build R t g))) e = Some s \<and> 0 \<le> s \<and> s \<le> 1"
proof (cases "fst (BuildForest R (tr_vectors t) 0 0 g)")
  case None
  then show ?thesis
    using Rarity_range [of "tr_baseline t" e] by (auto simp: trainer_Build_def detector_Score_def split: prod.splits)
next
  case (Some f)
  obtain s where "NormalizedScore (Some f) (featureVector e) = Some s" "unit_float s"
    using NormalizedScore_ok [OF BuildForest_ok [OF assms Some]] by blast
  then show ?thesis
    using Some Rarity_range [of "tr_baseline t" e]
    by (cases s) (auto simp: trainer_Build_def detector_Score_def Let_def split: prod.splits)
qed

definition zero_rng :: "unit rng" where
  "zero_rng = \<lparr>rng_Intn = (\<lambda>_ g. (0, g)), rng_Float64 = (\<lambda>g. (0, g))\<rparr>"

theorem trained_score_in_unit_witness:
  "\<exists>s. detector_Score (Some (fst (trainer_Build zero_rng NewTrainer ()))) zero_event = Some s \<and> 0 \<le> s \<and> s \<le> 1"
proof -
  have "fair zero_rng"
    by (simp add: fair_def zero_rng_def)
  then show ?thesis
    by (rule trained_score_in_unit)
qed

section \<open>Training\<close>

fun train :: "event list \<Rightarrow> trainer \<Rightarrow> trainer option" where
  "train [] t = Some t"
| "train (e # es) t = Option.bind (trainer_Observe t e) (train es)"

lemma featuresOf_Nil: "featuresOf e = [] \<longleftrightarrow> \<not> hasFeatures e"
  by (auto simp: featuresOf_def hasFeatures_def Let_def)

lemma trainer_Observe_ok:
  assumes "baseline_ok (tr_baseline t)"
  shows "\<exists>t'. trainer_Observe t e = Some t' \<and> baseline_ok (tr_baseline t') \<and>
    (\<forall>f. count_of (tr_baseline t') f = count_of (tr_baseline t) f + of_nat (count_list (featuresOf e) f)) \<and>
    tr_vectors t' = tr_vectors t @ (if hasFeatures e then [featureVector e] else [])"
proof (cases "hasFeatures e")
  case False
  then show ?thesis
    using assms featuresOf_Nil [of e] by (auto simp: trainer_Observe_def)
next
  case True
  obtain b where "observe_features (featuresOf e) (tr_baseline t) = Some b" "baseline_ok b"
    using observe_features_ok [OF assms] by blast
  then show ?thesis
    using True observe_features_count [of "featuresOf e" "tr_baseline t" b]
    by (auto simp: trainer_Observe_def baseline_Observe_def)
qed



lemma train_ok:
  assumes "baseline_ok (tr_baseline t)"
  shows "\<exists>t'. train es t = Some t' \<and> baseline_ok (tr_baseline t') \<and>
    (\<forall>f. count_of (tr_baseline t') f = count_of (tr_baseline t) f + of_nat (count_list (concat (map featuresOf es)) f)) \<and>
    tr_vectors t' = tr_vectors t @ map featureVector (filter hasFeatures es)"
  using assms
proof (induction es arbitrary: t)
  case Nil
  then show ?case by simp
next
  case (Cons e es)
  obtain t1 where t1: "trainer_Observe t e = Some t1" "baseline_ok (tr_baseline t1)"
    "\<forall>f. count_of (tr_baseline t1) f = count_of (tr_baseline t) f + of_nat (count_list (featuresOf e) f)"
    "tr_vectors t1 = tr_vectors t @ (if hasFeatures e then [featureVector e] else [])"
    using trainer_Observe_ok [OF Cons.prems] by blast
  then show ?case
    using Cons.IH [OF t1(2)] by (auto simp: add.assoc)
qed

text \<open>
  Training never panics, and it learns exactly what it saw: each counter is the number of times the
  observed events carried that feature, modulo \<open>2\<^sup>6\<^sup>4\<close>, and the sample is one vector per event that has a
  feature at all, in order.
\<close>

theorem training_counts:
  "\<exists>t. train es NewTrainer = Some t \<and>
     (\<forall>f. count_of (tr_baseline t) f = of_nat (count_list (concat (map featuresOf es)) f)) \<and>
     tr_vectors t = map featureVector (filter hasFeatures es)"
proof -
  have "count_of NewBaseline f = 0" for f
    by (cases f; cases "fst f") (simp_all add: count_of_def NewBaseline_def)
  then show ?thesis
    using train_ok [of NewTrainer es] by (auto simp: NewTrainer_def)
qed

end
