(* ===== verification/Event_Bus.thy ===== *)
theory Event_Bus
  imports Event_Model
begin

text \<open>
  The in-process event bus, \<^verbatim>\<open>internal/bus/inproc.go\<close>. A subscription is a number; its channel is the
  entry of that number: capacity, buffered events, and whether it is closed. Sending on a closed channel
  and closing it again panic, which is \<open>None\<close>. Every operation is one step, so a run is a sequence of operations
  and of receives by the subscribers. Publishing takes only the read lock: two concurrent publishes may
  reach two subscribers in different orders, which such a run does not show.
\<close>

section \<open>Channels and the bus\<close>

record bchan =
  bc_cap :: nat
  bc_queue :: "event list"
  bc_closed :: bool

definition DefaultBuffer :: int where
  "DefaultBuffer = 1024"

text \<open>\<open>bus_subs\<close> is the set of active subscriptions in its iteration order, \<open>bus_once\<close> the ones whose
  \<^verbatim>\<open>sync.Once\<close> has fired.\<close>

record inproc =
  bus_subs :: "nat list"
  bus_chans :: "bchan list"
  bus_once :: "nat list"
  bus_closed :: bool
  bus_dropped :: uint64

definition NewInProc :: inproc where
  "NewInProc = \<lparr>bus_subs = [], bus_chans = [], bus_once = [], bus_closed = False, bus_dropped = 0\<rparr>"

text \<open>The select with a default: send if there is room, else count a drop.\<close>

definition offer :: "event \<Rightarrow> nat \<Rightarrow> inproc \<Rightarrow> inproc option" where
  "offer e i b =
     (let c = bus_chans b ! i in
      if bc_closed c then None
      else if length (bc_queue c) < bc_cap c
      then Some (b\<lparr>bus_chans := (bus_chans b)[i := c\<lparr>bc_queue := bc_queue c @ [e]\<rparr>]\<rparr>)
      else Some (b\<lparr>bus_dropped := bus_dropped b + 1\<rparr>))"

fun publish_loop :: "event \<Rightarrow> nat list \<Rightarrow> inproc \<Rightarrow> inproc option" where
  "publish_loop e [] b = Some b"
| "publish_loop e (i # is) b = Option.bind (offer e i b) (publish_loop e is)"

definition ErrClosed :: string where
  "ErrClosed = ''event bus closed''"

definition Publish :: "string option \<Rightarrow> event \<Rightarrow> inproc \<Rightarrow> (string option \<times> inproc) option" where
  "Publish ctx e b =
     (case ctx of Some err \<Rightarrow> Some (Some err, b)
      | None \<Rightarrow> if bus_closed b then Some (Some ErrClosed, b)
                else map_option (\<lambda>b'. (None, b')) (publish_loop e (bus_subs b) b))"

definition Subscribe :: "int \<Rightarrow> inproc \<Rightarrow> nat \<times> inproc" where
  "Subscribe buffer b =
     (let cap = (if buffer \<le> 0 then DefaultBuffer else buffer); i = length (bus_chans b) in
      (i, b\<lparr>bus_subs := bus_subs b @ [i],
            bus_chans := bus_chans b @ [\<lparr>bc_cap = nat cap, bc_queue = [], bc_closed = False\<rparr>]\<rparr>))"

definition Dropped :: "inproc \<Rightarrow> uint64" where
  "Dropped b = bus_dropped b"

definition close_chan :: "nat \<Rightarrow> inproc \<Rightarrow> inproc option" where
  "close_chan i b =
     (if bc_closed (bus_chans b ! i) then None
      else Some (b\<lparr>bus_chans := (bus_chans b)[i := (bus_chans b ! i)\<lparr>bc_closed := True\<rparr>]\<rparr>))"

definition bus_remove :: "nat \<Rightarrow> inproc \<Rightarrow> inproc option" where
  "bus_remove i b = (if i \<in> set (bus_subs b) then close_chan i (b\<lparr>bus_subs := remove1 i (bus_subs b)\<rparr>) else Some b)"

definition Unsubscribe :: "nat \<Rightarrow> inproc \<Rightarrow> inproc option" where
  "Unsubscribe i b = (if i \<in> set (bus_once b) then Some b else bus_remove i (b\<lparr>bus_once := i # bus_once b\<rparr>))"

fun close_loop :: "nat list \<Rightarrow> inproc \<Rightarrow> inproc option" where
  "close_loop [] b = Some b"
| "close_loop (i # is) b =
     Option.bind (close_chan i (b\<lparr>bus_subs := remove1 i (bus_subs b)\<rparr>)) (close_loop is)"

definition bus_Close :: "inproc \<Rightarrow> inproc option" where
  "bus_Close b = (if bus_closed b then Some b else close_loop (bus_subs b) (b\<lparr>bus_closed := True\<rparr>))"

text \<open>A receive on \<open>Events()\<close> that does not block: a buffered event, or the end of a closed channel.\<close>

definition bus_receive :: "nat \<Rightarrow> inproc \<Rightarrow> (event option \<times> inproc) option" where
  "bus_receive i b =
     (let c = bus_chans b ! i in
      case bc_queue c of
        e # es \<Rightarrow> Some (Some e, b\<lparr>bus_chans := (bus_chans b)[i := c\<lparr>bc_queue := es\<rparr>]\<rparr>)
      | [] \<Rightarrow> if bc_closed c then Some (None, b) else None)"

section \<open>Runs\<close>

text \<open>
  \<open>pub i\<close> lists the events published while subscription \<open>i\<close> was active, \<open>rcv i\<close> those its reader has
  received.
\<close>

inductive bus_run :: "inproc \<Rightarrow> (nat \<Rightarrow> event list) \<Rightarrow> (nat \<Rightarrow> event list) \<Rightarrow> bool" where
  fresh: "bus_run NewInProc (\<lambda>_. []) (\<lambda>_. [])"
| published: "bus_run b pub rcv \<Longrightarrow> Publish ctx e b = Some (None, b') \<Longrightarrow>
    bus_run b' (\<lambda>i. if i \<in> set (bus_subs b) then pub i @ [e] else pub i) rcv"
| refused: "bus_run b pub rcv \<Longrightarrow> Publish ctx e b = Some (Some err, b') \<Longrightarrow> bus_run b' pub rcv"
| subscribed: "bus_run b pub rcv \<Longrightarrow> Subscribe n b = (i, b') \<Longrightarrow> bus_run b' pub rcv"
| unsubscribed: "bus_run b pub rcv \<Longrightarrow> Unsubscribe i b = Some b' \<Longrightarrow> bus_run b' pub rcv"
| closed: "bus_run b pub rcv \<Longrightarrow> bus_Close b = Some b' \<Longrightarrow> bus_run b' pub rcv"
| received: "bus_run b pub rcv \<Longrightarrow> i < length (bus_chans b) \<Longrightarrow> bus_receive i b = Some (Some e, b') \<Longrightarrow>
    bus_run b' pub (rcv(i := rcv i @ [e]))"

definition bus_ok :: "inproc \<Rightarrow> bool" where
  "bus_ok b \<longleftrightarrow> distinct (bus_subs b) \<and> (\<forall>i \<in> set (bus_subs b). i < length (bus_chans b) \<and> \<not> bc_closed (bus_chans b ! i))"

text \<open>The account of one subscription: what it has not been given of what was published.\<close>

definition missing :: "(nat \<Rightarrow> event list) \<Rightarrow> (nat \<Rightarrow> event list) \<Rightarrow> bchan list \<Rightarrow> nat \<Rightarrow> nat" where
  "missing pub rcv cs i = length (pub i) - length (rcv i @ bc_queue (cs ! i))"

definition accounted :: "inproc \<Rightarrow> (nat \<Rightarrow> event list) \<Rightarrow> (nat \<Rightarrow> event list) \<Rightarrow> bool" where
  "accounted b pub rcv \<longleftrightarrow>
     (\<forall>i < length (bus_chans b). subseq (rcv i @ bc_queue (bus_chans b ! i)) (pub i) \<and>
        length (bc_queue (bus_chans b ! i)) \<le> bc_cap (bus_chans b ! i)) \<and>
     (\<forall>i \<ge> length (bus_chans b). pub i = [] \<and> rcv i = []) \<and>
     bus_dropped b = of_nat (\<Sum>i < length (bus_chans b). missing pub rcv (bus_chans b) i)"

lemma sum_bump:
  fixes f g :: "nat \<Rightarrow> nat"
  assumes "i < n" "f i = g i + d" "\<And>j. j \<noteq> i \<Longrightarrow> f j = g j"
  shows "(\<Sum>j < n. f j) = (\<Sum>j < n. g j) + d"
proof -
  have "(\<Sum>j < n. f j) = f i + (\<Sum>j \<in> {..<n} - {i}. f j)" "(\<Sum>j < n. g j) = g i + (\<Sum>j \<in> {..<n} - {i}. g j)"
    using assms(1) by (simp_all add: sum.remove)
  moreover have "(\<Sum>j \<in> {..<n} - {i}. f j) = (\<Sum>j \<in> {..<n} - {i}. g j)"
    by (rule sum.cong) (use assms(3) in auto)
  ultimately show ?thesis
    using assms(2) by simp
qed

definition same_frame :: "inproc \<Rightarrow> inproc \<Rightarrow> bool" where
  "same_frame b b' \<longleftrightarrow> bus_subs b' = bus_subs b \<and> bus_closed b' = bus_closed b \<and> bus_once b' = bus_once b \<and>
     map bc_closed (bus_chans b') = map bc_closed (bus_chans b)"

lemma same_frame_length: "same_frame b b' \<Longrightarrow> length (bus_chans b') = length (bus_chans b)"
  unfolding same_frame_def by (metis length_map)

lemma same_frame_closed:
  "same_frame b b' \<Longrightarrow> i < length (bus_chans b) \<Longrightarrow> bc_closed (bus_chans b' ! i) = bc_closed (bus_chans b ! i)"
  using same_frame_length [of b b'] unfolding same_frame_def by (metis nth_map)

lemma same_frame_trans: "same_frame a b \<Longrightarrow> same_frame b c \<Longrightarrow> same_frame a c"
  by (simp add: same_frame_def)

lemma same_frame_ok: "same_frame b b' \<Longrightarrow> bus_ok b \<Longrightarrow> bus_ok b'"
  using same_frame_length [of b b'] same_frame_closed [of b b'] by (simp add: bus_ok_def same_frame_def)

lemma accountedD:
  assumes "accounted b pub rcv" "i < length (bus_chans b)"
  shows "subseq (rcv i @ bc_queue (bus_chans b ! i)) (pub i)"
    and "length (bc_queue (bus_chans b ! i)) \<le> bc_cap (bus_chans b ! i)"
    and "length (rcv i @ bc_queue (bus_chans b ! i)) \<le> length (pub i)"
  using assms list_emb_length [of "(=)" "rcv i @ bc_queue (bus_chans b ! i)" "pub i"] by (auto simp: accounted_def)

text \<open>Offering an event to one subscriber delivers it or counts it.\<close>

lemma offer_accounted:
  assumes acc: "accounted b pub rcv" and i: "i < length (bus_chans b)" and open_i: "\<not> bc_closed (bus_chans b ! i)"
  shows "\<exists>b'. offer e i b = Some b' \<and> same_frame b b' \<and> accounted b' (pub(i := pub i @ [e])) rcv"
proof (cases "length (bc_queue (bus_chans b ! i)) < bc_cap (bus_chans b ! i)")
  case True
  let ?c = "bus_chans b ! i"
  let ?cs = "(bus_chans b)[i := ?c\<lparr>bc_queue := bc_queue ?c @ [e]\<rparr>]"
  have "subseq (rcv i @ bc_queue ?c @ [e]) (pub i @ [e])"
    using accountedD(1) [OF acc i] by (metis append.assoc list_emb_append_mono subseq_order.order_refl)
  moreover have "(\<Sum>j < length ?cs. missing (pub(i := pub i @ [e])) rcv ?cs j) =
      (\<Sum>j < length ?cs. missing pub rcv (bus_chans b) j)"
    using i by (intro sum.cong) (auto simp: missing_def nth_list_update)
  ultimately have "accounted (b\<lparr>bus_chans := ?cs\<rparr>) (pub(i := pub i @ [e])) rcv"
    using acc i True by (auto simp: accounted_def nth_list_update)
  moreover have "same_frame b (b\<lparr>bus_chans := ?cs\<rparr>)"
    using i by (simp add: same_frame_def map_update list_update_same_conv)
  ultimately show ?thesis
    using True open_i by (simp add: offer_def Let_def)
next
  case False
  have "(\<Sum>j < length (bus_chans b). missing (pub(i := pub i @ [e])) rcv (bus_chans b) j) =
      (\<Sum>j < length (bus_chans b). missing pub rcv (bus_chans b) j) + 1"
    using accountedD(3) [OF acc i] by (intro sum_bump [OF i]) (auto simp: missing_def)
  moreover have "subseq (rcv i @ bc_queue (bus_chans b ! i)) (pub i @ [e])"
    using accountedD(1) [OF acc i] by (meson prefixI prefix_imp_subseq subseq_order.trans)
  ultimately have "accounted (b\<lparr>bus_dropped := bus_dropped b + 1\<rparr>) (pub(i := pub i @ [e])) rcv"
    using acc i by (auto simp: accounted_def)
  moreover have "same_frame b (b\<lparr>bus_dropped := bus_dropped b + 1\<rparr>)"
    by (simp add: same_frame_def)
  ultimately show ?thesis
    using False open_i by (simp add: offer_def Let_def)
qed

lemma publish_loop_accounted:
  assumes "accounted b pub rcv" "distinct is" "\<And>i. i \<in> set is \<Longrightarrow> i < length (bus_chans b) \<and> \<not> bc_closed (bus_chans b ! i)"
  shows "\<exists>b'. publish_loop e is b = Some b' \<and> same_frame b b' \<and>
    accounted b' (\<lambda>i. if i \<in> set is then pub i @ [e] else pub i) rcv"
  using assms
proof (induction "is" arbitrary: b pub)
  case Nil
  then show ?case by (simp add: same_frame_def)
next
  case (Cons i "is")
  obtain b1 where b1: "offer e i b = Some b1" "same_frame b b1" "accounted b1 (pub(i := pub i @ [e])) rcv"
    using offer_accounted [OF Cons.prems(1), of i e] Cons.prems(3) [of i] by auto
  have "j < length (bus_chans b1) \<and> \<not> bc_closed (bus_chans b1 ! j)" if "j \<in> set is" for j
    using Cons.prems(3) [of j] that same_frame_length [OF b1(2)] same_frame_closed [OF b1(2)] by auto
  then obtain b' where b': "publish_loop e is b1 = Some b'" "same_frame b1 b'"
    "accounted b' (\<lambda>j. if j \<in> set is then (pub(i := pub i @ [e])) j @ [e] else (pub(i := pub i @ [e])) j) rcv"
    using Cons.IH [OF b1(3)] Cons.prems(2) by auto
  moreover have "(\<lambda>j. if j \<in> set is then (pub(i := pub i @ [e])) j @ [e] else (pub(i := pub i @ [e])) j) =
      (\<lambda>j. if j \<in> set (i # is) then pub j @ [e] else pub j)"
    using Cons.prems(2) by auto
  ultimately show ?case
    using b1 same_frame_trans by auto
qed

lemma close_chan_accounted:
  assumes "accounted b pub rcv" "i < length (bus_chans b)" "\<not> bc_closed (bus_chans b ! i)"
  shows "\<exists>b'. close_chan i b = Some b' \<and> bus_subs b' = bus_subs b \<and> length (bus_chans b') = length (bus_chans b) \<and>
    (\<forall>j. j \<noteq> i \<longrightarrow> bus_chans b' ! j = bus_chans b ! j) \<and> accounted b' pub rcv"
proof -
  let ?cs = "(bus_chans b)[i := (bus_chans b ! i)\<lparr>bc_closed := True\<rparr>]"
  have "(\<Sum>j < length ?cs. missing pub rcv ?cs j) = (\<Sum>j < length ?cs. missing pub rcv (bus_chans b) j)"
    using assms(2) by (intro sum.cong) (auto simp: missing_def nth_list_update)
  then have "accounted (b\<lparr>bus_chans := ?cs\<rparr>) pub rcv"
    using assms(1,2) by (auto simp: accounted_def nth_list_update)
  then show ?thesis
    using assms(3) by (simp add: close_chan_def)
qed

lemma accounted_frame [simp]:
  "accounted (b\<lparr>bus_subs := s\<rparr>) pub rcv = accounted b pub rcv"
  "accounted (b\<lparr>bus_once := o'\<rparr>) pub rcv = accounted b pub rcv"
  "accounted (b\<lparr>bus_closed := c\<rparr>) pub rcv = accounted b pub rcv"
  by (simp_all add: accounted_def)

lemma close_loop_accounted:
  assumes "accounted b pub rcv" "bus_ok b" "bus_subs b = is"
  shows "\<exists>b'. close_loop is b = Some b' \<and> bus_subs b' = [] \<and> accounted b' pub rcv"
  using assms
proof (induction "is" arbitrary: b)
  case Nil
  then show ?case by simp
next
  case (Cons i "is")
  let ?b = "b\<lparr>bus_subs := remove1 i (bus_subs b)\<rparr>"
  have i: "i < length (bus_chans ?b)" "\<not> bc_closed (bus_chans ?b ! i)"
    using Cons.prems by (auto simp: bus_ok_def)
  obtain b1 where b1: "close_chan i ?b = Some b1" "bus_subs b1 = is" "length (bus_chans b1) = length (bus_chans b)"
    "\<forall>j. j \<noteq> i \<longrightarrow> bus_chans b1 ! j = bus_chans b ! j" "accounted b1 pub rcv"
    using close_chan_accounted [OF _ i, of pub rcv] Cons.prems by auto
  then have "bus_ok b1"
    using Cons.prems by (auto simp: bus_ok_def)
  then show ?case
    using Cons.IH [of b1] b1 by auto
qed

lemma bus_Close_accounted:
  assumes "accounted b pub rcv" "bus_ok b"
  shows "\<exists>b'. bus_Close b = Some b' \<and> bus_ok b' \<and> accounted b' pub rcv"
proof (cases "bus_closed b")
  case True
  then show ?thesis using assms by (simp add: bus_Close_def)
next
  case False
  have "bus_ok (b\<lparr>bus_closed := True\<rparr>)"
    using assms(2) by (simp add: bus_ok_def)
  then show ?thesis
    using close_loop_accounted [of "b\<lparr>bus_closed := True\<rparr>" pub rcv "bus_subs b"] assms(1) False
    by (auto simp: bus_Close_def bus_ok_def)
qed

lemma Unsubscribe_accounted:
  assumes "accounted b pub rcv" "bus_ok b"
  shows "\<exists>b'. Unsubscribe i b = Some b' \<and> bus_ok b' \<and> accounted b' pub rcv"
proof (cases "i \<in> set (bus_once b) \<or> i \<notin> set (bus_subs b)")
  case True
  then show ?thesis
    using assms by (auto simp: Unsubscribe_def bus_remove_def bus_ok_def)
next
  case False
  let ?b = "b\<lparr>bus_once := i # bus_once b, bus_subs := remove1 i (bus_subs b)\<rparr>"
  have i: "i < length (bus_chans ?b)" "\<not> bc_closed (bus_chans ?b ! i)"
    using assms(2) False by (auto simp: bus_ok_def)
  obtain b' where b': "close_chan i ?b = Some b'" "bus_subs b' = remove1 i (bus_subs b)"
    "length (bus_chans b') = length (bus_chans b)"
    "\<forall>j. j \<noteq> i \<longrightarrow> bus_chans b' ! j = bus_chans b ! j" "accounted b' pub rcv"
    using close_chan_accounted [OF _ i, of pub rcv] assms(1) by auto
  then have "bus_ok b'"
    using assms(2) by (auto simp: bus_ok_def)
  then show ?thesis
    using b' False by (auto simp: Unsubscribe_def bus_remove_def)
qed

lemma Publish_accounted:
  assumes "accounted b pub rcv" "bus_ok b"
  shows "\<exists>err b'. Publish ctx e b = Some (err, b') \<and> bus_ok b' \<and>
    accounted b' (\<lambda>i. if err = None \<and> i \<in> set (bus_subs b) then pub i @ [e] else pub i) rcv"
proof (cases "ctx = None \<and> \<not> bus_closed b")
  case True
  obtain b' where "publish_loop e (bus_subs b) b = Some b'" "same_frame b b'"
    "accounted b' (\<lambda>i. if i \<in> set (bus_subs b) then pub i @ [e] else pub i) rcv"
    using publish_loop_accounted [OF assms(1), of "bus_subs b" e] assms(2) by (auto simp: bus_ok_def)
  then show ?thesis
    using True assms(2) same_frame_ok by (auto simp: Publish_def)
next
  case False
  then show ?thesis
    using assms by (cases ctx) (auto simp: Publish_def)
qed

lemma Subscribe_accounted:
  assumes "accounted b pub rcv" "bus_ok b"
  shows "bus_ok (snd (Subscribe n b)) \<and> accounted (snd (Subscribe n b)) pub rcv"
proof -
  let ?cs = "bus_chans (snd (Subscribe n b))"
  have len: "length ?cs = Suc (length (bus_chans b))" and old: "\<And>j. j < length (bus_chans b) \<Longrightarrow> ?cs ! j = bus_chans b ! j"
    and new: "bc_queue (?cs ! length (bus_chans b)) = []" "\<not> bc_closed (?cs ! length (bus_chans b))"
    by (simp_all add: Subscribe_def Let_def nth_append)
  have "pub (length (bus_chans b)) = []" "rcv (length (bus_chans b)) = []"
    using assms(1) by (auto simp: accounted_def)
  moreover have "(\<Sum>j < length (bus_chans b). missing pub rcv ?cs j) = (\<Sum>j < length (bus_chans b). missing pub rcv (bus_chans b) j)"
    using old by (intro sum.cong) (auto simp: missing_def)
  ultimately have "accounted (snd (Subscribe n b)) pub rcv"
    using assms(1) len old new unfolding accounted_def
    by (auto simp: less_Suc_eq missing_def) (simp add: Subscribe_def Let_def)
  moreover have "bus_ok (snd (Subscribe n b))"
    using assms(2) len old new by (auto simp: bus_ok_def Subscribe_def Let_def nth_append)
  ultimately show ?thesis
    by simp
qed

lemma bus_receive_accounted:
  assumes "accounted b pub rcv" "bus_ok b" "i < length (bus_chans b)" "bus_receive i b = Some (Some e, b')"
  shows "bus_ok b' \<and> accounted b' pub (rcv(i := rcv i @ [e]))"
proof -
  obtain es where q: "bc_queue (bus_chans b ! i) = e # es"
    and b': "b' = b\<lparr>bus_chans := (bus_chans b)[i := (bus_chans b ! i)\<lparr>bc_queue := es\<rparr>]\<rparr>"
    using assms(4) by (auto simp: bus_receive_def Let_def split: list.splits if_splits)
  have "bus_ok b'"
    using assms(2,3) by (auto simp: bus_ok_def b' nth_list_update)
  moreover have "(\<Sum>j < length (bus_chans b'). missing pub (rcv(i := rcv i @ [e])) (bus_chans b') j) =
      (\<Sum>j < length (bus_chans b'). missing pub rcv (bus_chans b) j)"
    using assms(3) q by (intro sum.cong) (auto simp: missing_def b' nth_list_update)
  moreover have "subseq (rcv i @ e # es) (pub i)" "length (e # es) \<le> bc_cap (bus_chans b ! i)"
    using accountedD(1,2) [OF assms(1,3)] by (simp_all add: q)
  ultimately show ?thesis
    using assms(1,3) by (auto simp: accounted_def b' nth_list_update)
qed

lemma bus_run_ok: "bus_run b pub rcv \<Longrightarrow> bus_ok b \<and> accounted b pub rcv"
proof (induction rule: bus_run.induct)
  case fresh
  then show ?case by (simp add: bus_ok_def accounted_def NewInProc_def)
next
  case (published b pub rcv ctx e b')
  then show ?case using Publish_accounted [of b pub rcv ctx e] by auto
next
  case (refused b pub rcv ctx e err b')
  then show ?case using Publish_accounted [of b pub rcv ctx e] by auto
next
  case (subscribed b pub rcv n i b')
  then show ?case using Subscribe_accounted [of b pub rcv n] by auto
next
  case (unsubscribed b pub rcv i b')
  then show ?case using Unsubscribe_accounted [of b pub rcv i] by auto
next
  case (closed b pub rcv b')
  then show ?case using bus_Close_accounted [of b pub rcv] by auto
next
  case (received b pub rcv i e b')
  then show ?case using bus_receive_accounted by blast
qed

text \<open>
  C30. Delivered or counted: in every run, what a subscriber received and has buffered is a subsequence, in
  order, of what was published while it was subscribed, its buffer never exceeds its capacity, and the
  drop counter is the number of events withheld from subscribers, modulo \<open>2\<^sup>6\<^sup>4\<close>; and no operation
  panics: nothing is sent on a closed channel and no channel is closed twice.
\<close>

theorem bus_deliver_or_drop:
  assumes "bus_run b pub rcv"
  shows "(\<forall>i < length (bus_chans b). subseq (rcv i @ bc_queue (bus_chans b ! i)) (pub i) \<and>
       length (bc_queue (bus_chans b ! i)) \<le> bc_cap (bus_chans b ! i)) \<and>
    Dropped b = of_nat (\<Sum>i < length (bus_chans b). length (pub i) - length (rcv i @ bc_queue (bus_chans b ! i))) \<and>
    Publish ctx e b \<noteq> None \<and> Unsubscribe i b \<noteq> None \<and> bus_Close b \<noteq> None"
proof -
  have "bus_ok b" "accounted b pub rcv"
    using bus_run_ok [OF assms] by simp_all
  then show ?thesis
    using Publish_accounted [of b pub rcv ctx e] Unsubscribe_accounted [of b pub rcv i] bus_Close_accounted [of b pub rcv]
    by (auto simp: accounted_def missing_def Dropped_def)
qed

definition sample_bus :: inproc where
  "sample_bus = snd (Subscribe 1 NewInProc)"

theorem bus_deliver_or_drop_witness:
  "\<exists>b. bus_run b (\<lambda>i. if i = 0 then [zero_event, zero_event] else []) (\<lambda>_. []) \<and> Dropped b = 1"
proof -
  have s: "bus_run sample_bus (\<lambda>_. []) (\<lambda>_. [])"
    unfolding sample_bus_def by (rule bus_run.subscribed [OF bus_run.fresh]) (rule prod.collapse [symmetric])
  obtain b where b: "Publish None zero_event sample_bus = Some (None, b)" "bus_subs b = [0]" "bus_closed b = False"
    "bus_chans b = [\<lparr>bc_cap = 1, bc_queue = [zero_event], bc_closed = False\<rparr>]"
    by (simp add: Publish_def sample_bus_def Subscribe_def NewInProc_def offer_def)
  obtain c where c: "Publish None zero_event b = Some (None, c)"
    "bus_chans c = [\<lparr>bc_cap = 1, bc_queue = [zero_event], bc_closed = False\<rparr>]"
    by (simp add: Publish_def b offer_def)
  have "bus_subs sample_bus = [0]"
    by (simp add: sample_bus_def Subscribe_def NewInProc_def)
  then have run: "bus_run c (\<lambda>i. if i = 0 then [zero_event, zero_event] else []) (\<lambda>_. [])"
    using bus_run.published [OF bus_run.published [OF s b(1)] c(1)] by (simp add: b if_distrib cong: if_cong)
  then show ?thesis
    using bus_deliver_or_drop [OF run] c(2) by auto
qed

text \<open>
  A subscription taken after the bus is closed never ends: it is accepted, gets no event, and closing
  the bus again does not close its channel, so its reader waits for ever.
\<close>

theorem subscribe_after_close_never_ends:
  assumes "bus_run b pub rcv" "bus_closed b"
  shows "bus_receive (fst (Subscribe n b)) (snd (Subscribe n b)) = None \<and>
    bus_Close (snd (Subscribe n b)) = Some (snd (Subscribe n b)) \<and>
    Publish None e (snd (Subscribe n b)) = Some (Some ErrClosed, snd (Subscribe n b))"
  using assms by (simp add: bus_receive_def bus_Close_def Publish_def Subscribe_def Let_def nth_append)

theorem subscribe_after_close_never_ends_witness:
  "\<exists>b. bus_Close NewInProc = Some b \<and> bus_receive (fst (Subscribe 1 b)) (snd (Subscribe 1 b)) = None"
proof -
  obtain b where b: "bus_Close NewInProc = Some b" "bus_closed b"
    by (simp add: bus_Close_def NewInProc_def)
  then show ?thesis
    using subscribe_after_close_never_ends [OF bus_run.closed [OF bus_run.fresh b(1)] b(2), of 1 zero_event] by blast
qed

end
