(* ===== verification/Hunt_Parse.thy ===== *)
theory Hunt_Parse
  imports Event_Model
begin

text \<open>
  The hunting language ARQL, \<^verbatim>\<open>internal/hunt/parse.go\<close>: lexer and recursive descent parser, with the syntax
  trees of \<^verbatim>\<open>hunt.go\<close> and \<^verbatim>\<open>eval.go\<close>. The source text is ASCII, so its runes are its bytes. The cursor of the
  parser is the list of the tokens that are left; reading past its end is \<open>HPanic\<close>. The recursion
  and the loops of the parser run on fuel; that neither runs out nor panics is proved below.
  \<^verbatim>\<open>time.ParseDuration\<close> is an argument, as are regular expressions and \<^verbatim>\<open>strconv.ParseFloat\<close>.
\<close>

section \<open>Syntax trees (hunt.go, eval.go)\<close>

record hvalue =
  v_str :: string
  v_num :: real
  v_isNum :: bool

text \<open>A comparison keeps its compiled regular expression, if it has one.\<close>

datatype expr =
    AndExpr expr expr
  | OrExpr expr expr
  | NotExpr expr
  | Comparison (c_field: string) (c_op: string) (c_value: hvalue) (c_values: "hvalue list") (c_re: "(string \<Rightarrow> bool) option")

record classRef =
  cr_action :: string
  cr_all :: bool

record pipe =
  pp_filter :: "expr option"
  pp_limit :: int
  pp_hasLimit :: bool

record simpleQuery =
  sq_class :: classRef
  sq_filter :: "expr option"
  sq_pipes :: "pipe list"

record hstage =
  hs_class :: classRef
  hs_filter :: "expr option"

record sequenceQuery =
  sq_by :: string
  sq_within :: duration
  sq_stages :: "hstage list"

datatype hquery = Simple string simpleQuery | Sequence string sequenceQuery

definition zero_value :: hvalue where
  "zero_value = \<lparr>v_str = [], v_num = 0, v_isNum = False\<rparr>"

section \<open>The lexer\<close>

datatype tokenKind =
  tokEOF | tokIdent | tokString | tokNumber | tokDuration | tokOp | tokPipe | tokLParen | tokRParen | tokComma | tokColon | tokSemicolon

datatype token = Token (tk_kind: tokenKind) (tk_text: string)

datatype hunt_error = HErr string | HPanic | HFuel

definition is_letter :: "char \<Rightarrow> bool" where
  "is_letter c \<longleftrightarrow> is_upper c \<or> is_lower c"

definition isIdentStart :: "char \<Rightarrow> bool" where
  "isIdentStart c \<longleftrightarrow> is_letter c \<or> c = CHR ''_''"

definition isIdentPart :: "char \<Rightarrow> bool" where
  "isIdentPart c \<longleftrightarrow> is_letter c \<or> is_digit c \<or> c = CHR ''_'' \<or> c = CHR ''.''"

definition isDurationUnit :: "char \<Rightarrow> bool" where
  "isDurationUnit c \<longleftrightarrow> c = CHR ''s'' \<or> c = CHR ''m'' \<or> c = CHR ''h'' \<or> c = CHR ''d''"

definition lexWhile :: "(char \<Rightarrow> bool) \<Rightarrow> string \<Rightarrow> string \<times> string" where
  "lexWhile keep s = (takeWhile keep s, dropWhile keep s)"

text \<open>The body of a string literal after its opening quote.\<close>

fun lexString :: "char \<Rightarrow> string \<Rightarrow> string \<Rightarrow> hunt_error + string \<times> string" where
  "lexString q [] sb = Inl (HErr ''unterminated string literal'')"
| "lexString q [c] sb = (if c = q then Inr (sb, []) else Inl (HErr ''unterminated string literal''))"
| "lexString q (c # d # s) sb =
     (if c = CHR 0x5C then lexString q s (sb @ [d])
      else if c = q then Inr (sb, d # s)
      else lexString q (d # s) (sb @ [c]))"

definition lexNumber :: "string \<Rightarrow> token \<times> string" where
  "lexNumber s =
     (case lexWhile (\<lambda>c. is_digit c \<or> c = CHR ''.'') s of (word, rest) \<Rightarrow>
        if rest \<noteq> [] \<and> isDurationUnit (hd rest)
        then (case lexWhile isDurationUnit rest of (unit, after) \<Rightarrow> (Token tokDuration (word @ unit), after))
        else (Token tokNumber word, rest))"

definition lexSymbol :: "string \<Rightarrow> hunt_error + token \<times> string" where
  "lexSymbol s =
     (let two = (if length s \<ge> 2 then take 2 s else []) in
      if two \<in> {''=='', ''!='', ''>='', ''<='', ''=~''} then Inr (Token tokOp two, drop 2 s)
      else let c = hd s; rest = tl s in
        if c = CHR ''>'' \<or> c = CHR ''<'' then Inr (Token tokOp [c], rest)
        else if c = CHR ''|'' then Inr (Token tokPipe ''|'', rest)
        else if c = CHR ''('' then Inr (Token tokLParen ''('', rest)
        else if c = CHR '')'' then Inr (Token tokRParen '')'', rest)
        else if c = CHR '','' then Inr (Token tokComma '','', rest)
        else if c = CHR '':'' then Inr (Token tokColon '':'', rest)
        else if c = CHR '';'' then Inr (Token tokSemicolon '';'', rest)
        else Inl (HErr (''unexpected character '' @ quote [c])))"

text \<open>One round of the loop of \<open>lex\<close>: the token it appends, if any, and the text that is left.\<close>

definition lex_round :: "string \<Rightarrow> hunt_error + token option \<times> string" where
  "lex_round s =
     (let ch = hd s in
      if is_space ch then Inr (None, tl s)
      else if ch = CHR 0x22 \<or> ch = CHR 0x27 then
        sum_bind (lexString ch (tl s) []) (\<lambda>(word, rest). Inr (Some (Token tokString word), rest))
      else if is_digit ch then (case lexNumber s of (tok, rest) \<Rightarrow> Inr (Some tok, rest))
      else if isIdentStart ch then (case lexWhile isIdentPart s of (word, rest) \<Rightarrow> Inr (Some (Token tokIdent word), rest))
      else sum_bind (lexSymbol s) (\<lambda>(tok, rest). Inr (Some tok, rest)))"

lemma lexString_shorter: "lexString q s sb = Inr (word, rest) \<Longrightarrow> length rest < length s"
  by (induction q s sb rule: lexString.induct) (auto split: if_splits)

lemma lexWhile_shorter: "s \<noteq> [] \<Longrightarrow> keep (hd s) \<Longrightarrow> lexWhile keep s = (word, rest) \<Longrightarrow> length rest < length s"
  by (cases s) (auto simp: lexWhile_def length_dropWhile_le less_Suc_eq_le)

lemma lexNumber_shorter:
  assumes "s \<noteq> []" "is_digit (hd s)" "lexNumber s = (tok, rest)"
  shows "length rest < length s"
proof -
  obtain word rest1 where r: "lexWhile (\<lambda>c. is_digit c \<or> c = CHR ''.'') s = (word, rest1)"
    by fastforce
  have "length rest1 < length s"
    by (rule lexWhile_shorter [OF assms(1) _ r]) (simp add: assms(2))
  moreover have "length rest \<le> length rest1"
    using assms(3) r by (auto simp: lexNumber_def lexWhile_def length_dropWhile_le split: if_splits)
  ultimately show ?thesis
    by simp
qed

lemma lexSymbol_shorter: "s \<noteq> [] \<Longrightarrow> lexSymbol s = Inr (tok, rest) \<Longrightarrow> length rest < length s"
  by (auto simp: lexSymbol_def Let_def split: if_splits)

lemma lex_round_shorter:
  assumes "s \<noteq> []" "lex_round s = Inr (tok, rest)"
  shows "length rest < length s"
proof -
  consider "is_space (hd s)" "rest = tl s"
    | q word where "lexString q (tl s) [] = Inr (word, rest)"
    | t where "is_digit (hd s)" "lexNumber s = (t, rest)"
    | word where "isIdentStart (hd s)" "lexWhile isIdentPart s = (word, rest)"
    | t where "lexSymbol s = Inr (t, rest)"
    using assms(2) by (auto simp: lex_round_def Let_def sum_bind_Inr split: if_splits prod.splits)
  then show ?thesis
  proof cases
    case 2
    then show ?thesis using lexString_shorter [of q "tl s" "[]" word rest] assms(1) by (cases s) auto
  next
    case 4
    then show ?thesis using lexWhile_shorter [OF assms(1), of isIdentPart word rest] by (auto simp: isIdentStart_def isIdentPart_def)
  qed (use assms(1) lexNumber_shorter lexSymbol_shorter in \<open>auto\<close>)
qed

function lex_loop :: "string \<Rightarrow> hunt_error + token list" where
  "lex_loop s =
     (if s = [] then Inr [Token tokEOF []]
      else case lex_round s of
        Inl err \<Rightarrow> Inl err
      | Inr (tok, rest) \<Rightarrow> sum_bind (lex_loop rest) (\<lambda>ts. Inr (case tok of None \<Rightarrow> ts | Some t \<Rightarrow> t # ts)))"
  by pat_completeness auto
termination
  by (relation "measure length") (auto dest: lex_round_shorter)

declare lex_loop.simps [simp del]

definition hunt_lex :: "string \<Rightarrow> hunt_error + token list" where
  "hunt_lex src = lex_loop src"

section \<open>The parser\<close>

type_synonym 'a hparser = "token list \<Rightarrow> hunt_error + 'a \<times> token list"

definition peek_kind :: "token list \<Rightarrow> tokenKind \<Rightarrow> bool" where
  "peek_kind ts k \<longleftrightarrow> (case ts of [] \<Rightarrow> False | t # _ \<Rightarrow> tk_kind t = k)"

definition isKeyword :: "string \<Rightarrow> token list \<Rightarrow> bool" where
  "isKeyword w ts \<longleftrightarrow> (case ts of [] \<Rightarrow> False | t # _ \<Rightarrow> tk_kind t = tokIdent \<and> tk_text t = w)"

text \<open>The check of the next token's kind with its error, and the step past it.\<close>

definition expect :: "tokenKind \<Rightarrow> string \<Rightarrow> string hparser" where
  "expect k msg ts =
     (case ts of [] \<Rightarrow> Inl HPanic
      | t # rest \<Rightarrow> if tk_kind t \<noteq> k then Inl (HErr (msg @ '', got '' @ quote (tk_text t))) else Inr (tk_text t, rest))"

definition parseField :: "string hparser" where
  "parseField ts =
     sum_bind (expect tokIdent ''expected a field name'' ts) (\<lambda>(field, ts).
     if \<not> KnownField field then Inl (HErr (''unknown field '' @ quote field)) else Inr (field, ts))"

definition parseValue :: "go_lib \<Rightarrow> hvalue hparser" where
  "parseValue L ts =
     (case ts of [] \<Rightarrow> Inl HPanic
      | t # rest \<Rightarrow>
          if tk_kind t = tokString then Inr (zero_value\<lparr>v_str := tk_text t\<rparr>, rest)
          else if tk_kind t = tokNumber then
            (case parse_float L (tk_text t) of
               None \<Rightarrow> Inl (HErr (''invalid number '' @ quote (tk_text t)))
             | Some n \<Rightarrow> Inr (\<lparr>v_str = tk_text t, v_num = n, v_isNum = True\<rparr>, rest))
          else if tk_kind t = tokIdent then Inr (zero_value\<lparr>v_str := tk_text t\<rparr>, rest)
          else Inl (HErr (''expected a value, got '' @ quote (tk_text t))))"

definition parseOperator :: "string hparser" where
  "parseOperator ts =
     (case ts of [] \<Rightarrow> Inl HPanic
      | t # rest \<Rightarrow>
          if tk_kind t = tokOp then Inr (tk_text t, rest)
          else if tk_kind t = tokIdent \<and> tk_text t \<in> {''contains'', ''startswith'', ''endswith''} then Inr (tk_text t, rest)
          else Inl (HErr (''expected a comparison operator, got '' @ quote (tk_text t))))"

fun in_loop :: "nat \<Rightarrow> go_lib \<Rightarrow> hvalue list \<Rightarrow> hvalue list hparser" where
  "in_loop 0 L vs ts = Inl HFuel"
| "in_loop (Suc n) L vs ts =
     sum_bind (parseValue L ts) (\<lambda>(v, ts).
     if peek_kind ts tokComma then in_loop n L (vs @ [v]) (tl ts) else Inr (vs @ [v], ts))"

definition parseIn :: "go_lib \<Rightarrow> string \<Rightarrow> expr hparser" where
  "parseIn L field ts =
     sum_bind (expect tokLParen (''expected ( after in'') ts) (\<lambda>(_, ts).
     sum_bind (in_loop (Suc (length ts)) L [] ts) (\<lambda>(vs, ts).
     sum_bind (expect tokRParen (''expected ) to close in list'') ts) (\<lambda>(_, ts).
     Inr (Comparison field ''in'' zero_value vs None, ts))))"

definition parseComparison :: "go_lib \<Rightarrow> expr hparser" where
  "parseComparison L ts =
     sum_bind (parseField ts) (\<lambda>(field, ts).
     if isKeyword ''in'' ts then parseIn L field (tl ts)
     else sum_bind (parseOperator ts) (\<lambda>(op, ts).
       sum_bind (parseValue L ts) (\<lambda>(v, ts).
       if op = ''=~'' then
         (case regexp_compile L (v_str v) of
            None \<Rightarrow> Inl (HErr (''invalid regular expression '' @ quote (v_str v)))
          | Some re \<Rightarrow> Inr (Comparison field op v [] (Some re), ts))
       else Inr (Comparison field op v [] None, ts))))"

text \<open>
  The levels of the grammar; a parenthesis calls the topmost one, the argument \<open>inner\<close>, which the
  fuel of \<open>parseOr\<close> ties to itself.
\<close>

fun parseUnary :: "nat \<Rightarrow> go_lib \<Rightarrow> expr hparser \<Rightarrow> expr hparser" where
  "parseUnary 0 L inner ts = Inl HFuel"
| "parseUnary (Suc n) L inner ts =
     (if isKeyword ''not'' ts then
        sum_bind (parseUnary n L inner (tl ts)) (\<lambda>(e, ts). Inr (NotExpr e, ts))
      else if peek_kind ts tokLParen then
        sum_bind (inner (tl ts)) (\<lambda>(e, ts).
        sum_bind (expect tokRParen ''expected )'' ts) (\<lambda>(_, ts). Inr (e, ts)))
      else parseComparison L ts)"

fun and_loop :: "nat \<Rightarrow> go_lib \<Rightarrow> expr hparser \<Rightarrow> expr \<Rightarrow> expr hparser" where
  "and_loop 0 L inner left ts = Inl HFuel"
| "and_loop (Suc n) L inner left ts =
     (if isKeyword ''and'' ts then
        sum_bind (parseUnary (length ts) L inner (tl ts)) (\<lambda>(right, ts). and_loop n L inner (AndExpr left right) ts)
      else Inr (left, ts))"

definition parseAnd :: "go_lib \<Rightarrow> expr hparser \<Rightarrow> expr hparser" where
  "parseAnd L inner ts =
     sum_bind (parseUnary (Suc (length ts)) L inner ts) (\<lambda>(left, ts). and_loop (Suc (length ts)) L inner left ts)"

fun or_loop :: "nat \<Rightarrow> go_lib \<Rightarrow> expr hparser \<Rightarrow> expr \<Rightarrow> expr hparser" where
  "or_loop 0 L inner left ts = Inl HFuel"
| "or_loop (Suc n) L inner left ts =
     (if isKeyword ''or'' ts then
        sum_bind (parseAnd L inner (tl ts)) (\<lambda>(right, ts). or_loop n L inner (OrExpr left right) ts)
      else Inr (left, ts))"

fun parseOr :: "nat \<Rightarrow> go_lib \<Rightarrow> expr hparser" where
  "parseOr 0 L ts = Inl HFuel"
| "parseOr (Suc n) L ts =
     sum_bind (parseAnd L (parseOr n L) ts) (\<lambda>(left, ts). or_loop (Suc (length ts)) L (parseOr n L) left ts)"

definition parseExpr :: "go_lib \<Rightarrow> expr hparser" where
  "parseExpr L ts = parseOr (Suc (length ts)) L ts"

definition parseClass :: "classRef hparser" where
  "parseClass ts =
     sum_bind (expect tokIdent ''expected an event class'' ts) (\<lambda>(name, ts).
     Inr (if name = ''event'' \<or> name = ''any'' then \<lparr>cr_action = [], cr_all = True\<rparr>
          else \<lparr>cr_action = name, cr_all = False\<rparr>, ts))"

text \<open>An optional \<open>where\<close> clause, as after a class.\<close>

definition parse_where :: "go_lib \<Rightarrow> expr option hparser" where
  "parse_where L ts =
     (if isKeyword ''where'' ts then sum_bind (parseExpr L (tl ts)) (\<lambda>(e, ts). Inr (Some e, ts)) else Inr (None, ts))"

definition parsePipe :: "go_lib \<Rightarrow> pipe hparser" where
  "parsePipe L ts =
     (if isKeyword ''where'' ts then
        sum_bind (parseExpr L (tl ts)) (\<lambda>(e, ts). Inr (\<lparr>pp_filter = Some e, pp_limit = 0, pp_hasLimit = False\<rparr>, ts))
      else if isKeyword ''limit'' ts then
        sum_bind (expect tokNumber ''limit expects a number'' (tl ts)) (\<lambda>(w, ts).
        case parse_int w of
          None \<Rightarrow> Inl (HErr ''invalid limit'')
        | Some n \<Rightarrow> Inr (\<lparr>pp_filter = None, pp_limit = n, pp_hasLimit = True\<rparr>, ts))
      else case ts of [] \<Rightarrow> Inl HPanic
        | t # _ \<Rightarrow> Inl (HErr (''expected where or limit after |, got '' @ quote (tk_text t))))"

fun pipes_loop :: "nat \<Rightarrow> go_lib \<Rightarrow> pipe list \<Rightarrow> pipe list hparser" where
  "pipes_loop 0 L ps ts = Inl HFuel"
| "pipes_loop (Suc n) L ps ts =
     (if peek_kind ts tokPipe then sum_bind (parsePipe L (tl ts)) (\<lambda>(p, ts). pipes_loop n L (ps @ [p]) ts)
      else Inr (ps, ts))"

definition parseSimple :: "go_lib \<Rightarrow> simpleQuery hparser" where
  "parseSimple L ts =
     sum_bind (parseClass ts) (\<lambda>(class, ts).
     sum_bind (parse_where L ts) (\<lambda>(filter, ts).
     sum_bind (pipes_loop (Suc (length ts)) L [] ts) (\<lambda>(pipes, ts).
     Inr (\<lparr>sq_class = class, sq_filter = filter, sq_pipes = pipes\<rparr>, ts))))"

definition parseStage :: "go_lib \<Rightarrow> hstage hparser" where
  "parseStage L ts =
     sum_bind (parseClass ts) (\<lambda>(class, ts).
     sum_bind (parse_where L ts) (\<lambda>(filter, ts).
     Inr (\<lparr>hs_class = class, hs_filter = filter\<rparr>, ts)))"

text \<open>\<open>PD\<close> is \<^verbatim>\<open>time.ParseDuration\<close>.\<close>

definition parseDuration :: "(string \<Rightarrow> string + duration) \<Rightarrow> duration hparser" where
  "parseDuration PD ts =
     (case ts of [] \<Rightarrow> Inl HPanic
      | t # rest \<Rightarrow>
          if tk_kind t = tokDuration then (case PD (tk_text t) of Inl err \<Rightarrow> Inl (HErr err) | Inr d \<Rightarrow> Inr (d, rest))
          else if tk_kind t = tokNumber then
            (case parse_int (tk_text t) of
               None \<Rightarrow> Inl (HErr (''invalid duration '' @ quote (tk_text t)))
             | Some secs \<Rightarrow> Inr (to_int64 (secs * 1000000000), rest))
          else Inl (HErr (''expected a duration (e.g. 5m), got '' @ quote (tk_text t))))"

fun stages_loop :: "nat \<Rightarrow> go_lib \<Rightarrow> hstage list \<Rightarrow> hstage list hparser" where
  "stages_loop 0 L ss ts = Inl HFuel"
| "stages_loop (Suc n) L ss ts =
     sum_bind (parseStage L ts) (\<lambda>(s, ts).
     if peek_kind ts tokSemicolon then stages_loop n L (ss @ [s]) (tl ts) else Inr (ss @ [s], ts))"

definition parseSequence :: "go_lib \<Rightarrow> (string \<Rightarrow> string + duration) \<Rightarrow> sequenceQuery hparser" where
  "parseSequence L PD ts =
     sum_bind (if isKeyword ''by'' (tl ts) then parseField (tl (tl ts)) else Inr ([], tl ts)) (\<lambda>(by_field, ts).
     sum_bind (if isKeyword ''within'' ts then parseDuration PD (tl ts) else Inr (0, ts)) (\<lambda>(window, ts).
     sum_bind (expect tokColon ''expected : before sequence stages'' ts) (\<lambda>(_, ts).
     sum_bind (stages_loop (Suc (length ts)) L [] ts) (\<lambda>(stages, ts).
     if length stages < 2 then Inl (HErr ''a sequence needs at least two stages separated by ;'')
     else Inr (\<lparr>sq_by = by_field, sq_within = window, sq_stages = stages\<rparr>, ts)))))"

definition parseQuery :: "go_lib \<Rightarrow> (string \<Rightarrow> string + duration) \<Rightarrow> string \<Rightarrow> hquery hparser" where
  "parseQuery L PD src ts =
     (if isKeyword ''sequence'' ts then sum_bind (parseSequence L PD ts) (\<lambda>(q, ts). Inr (Sequence src q, ts))
      else sum_bind (parseSimple L ts) (\<lambda>(q, ts). Inr (Simple src q, ts)))"

definition hunt_parse :: "go_lib \<Rightarrow> (string \<Rightarrow> string + duration) \<Rightarrow> string \<Rightarrow> hunt_error + hquery" where
  "hunt_parse L PD src =
     sum_bind (hunt_lex src) (\<lambda>ts.
     sum_bind (parseQuery L PD src ts) (\<lambda>(q, ts).
     case ts of [] \<Rightarrow> Inl HPanic
     | t # _ \<Rightarrow> if tk_kind t \<noteq> tokEOF then Inl (HErr (''unexpected '' @ quote (tk_text t) @ '' after query'')) else Inr q))"

section \<open>The parser returns and stays within its tokens\<close>

definition ended :: "token list \<Rightarrow> bool" where
  "ended ts \<longleftrightarrow> ts \<noteq> [] \<and> tk_kind (last ts) = tokEOF"

text \<open>
  The outcome of a parser that neither panics nor runs out of fuel, and that leaves at least \<open>d\<close> tokens
  less, the end marker among them.
\<close>

definition good :: "nat \<Rightarrow> token list \<Rightarrow> hunt_error + 'a \<times> token list \<Rightarrow> bool" where
  "good d ts r \<longleftrightarrow> (case r of Inl err \<Rightarrow> err \<noteq> HPanic \<and> err \<noteq> HFuel
     | Inr (_, ts') \<Rightarrow> ended ts' \<and> length ts' + d \<le> length ts)"

lemma good_simps [simp]:
  "good d ts (Inl (HErr m))" "good d ts (Inr (v, ts')) \<longleftrightarrow> ended ts' \<and> length ts' + d \<le> length ts"
  by (simp_all add: good_def)

lemma good_bind:
  assumes "good d ts r" "\<And>v ts'. ended ts' \<Longrightarrow> length ts' + d \<le> length ts \<Longrightarrow> good k ts (f (v, ts'))"
  shows "good k ts (sum_bind r f)"
  using assms by (cases r) (auto simp: good_def)

lemma good_mono: "good d ts r \<Longrightarrow> length ts + k \<le> length us + d \<Longrightarrow> good k us r"
  by (cases r) (auto simp: good_def)

lemma keyword_step: "isKeyword w ts \<Longrightarrow> ended ts \<Longrightarrow> ended (tl ts) \<and> length (tl ts) + 1 = length ts"
  by (cases ts) (auto simp: isKeyword_def ended_def split: if_splits)

lemma kind_step: "peek_kind ts k \<Longrightarrow> k \<noteq> tokEOF \<Longrightarrow> ended ts \<Longrightarrow> ended (tl ts) \<and> length (tl ts) + 1 = length ts"
  by (cases ts) (auto simp: peek_kind_def ended_def split: if_splits)

lemma ended_Cons: "ended (t # ts) \<Longrightarrow> tk_kind t \<noteq> tokEOF \<Longrightarrow> ended ts"
  by (auto simp: ended_def split: if_splits)

lemma ended_cases: "ended ts \<Longrightarrow> (\<And>t rest. ts = t # rest \<Longrightarrow> ended (t # rest) \<Longrightarrow> P) \<Longrightarrow> P"
  by (cases ts) (auto simp: ended_def)

lemma good_expect: "ended ts \<Longrightarrow> k \<noteq> tokEOF \<Longrightarrow> good 1 ts (expect k msg ts)"
  by (erule ended_cases) (auto simp: expect_def dest: ended_Cons)

lemma good_parseField: "ended ts \<Longrightarrow> good 1 ts (parseField ts)"
  unfolding parseField_def by (rule good_bind [OF good_expect]) auto

lemma good_parseValue: "ended ts \<Longrightarrow> good 1 ts (parseValue L ts)"
  by (erule ended_cases) (auto simp: parseValue_def dest: ended_Cons split: option.splits)

lemma good_parseOperator: "ended ts \<Longrightarrow> good 1 ts (parseOperator ts)"
  by (erule ended_cases) (auto simp: parseOperator_def dest: ended_Cons)

lemma good_in_loop: "ended ts \<Longrightarrow> length ts < n \<Longrightarrow> good 1 ts (in_loop n L vs ts)"
proof (induction n arbitrary: vs ts)
  case 0
  then show ?case by simp
next
  case (Suc n)
  show ?case
    unfolding in_loop.simps
  proof (rule good_bind [OF good_parseValue [OF Suc.prems(1)]])
    fix v ts'
    assume ts': "ended ts'" "length ts' + 1 \<le> length ts"
    show "good 1 ts ((\<lambda>(v, ts). if peek_kind ts tokComma then in_loop n L (vs @ [v]) (tl ts) else Inr (vs @ [v], ts)) (v, ts'))"
      using ts' Suc.prems kind_step [of ts' tokComma] Suc.IH [of "tl ts'" "vs @ [v]"] good_mono [of 1 "tl ts'" _ 1 ts] by auto
  qed
qed

lemma good_parseIn: "ended ts \<Longrightarrow> good 1 ts (parseIn L field ts)"
  unfolding parseIn_def
  apply (rule good_bind [OF good_expect], simp, simp)
  apply (simp only: prod.case)
  apply (rule good_bind [where d = 2], rule good_mono [OF good_in_loop], simp, simp, simp)
  apply (simp only: prod.case)
  apply (rule good_bind [where d = 3], rule good_mono [OF good_expect], simp_all)
  done

lemma good_parseComparison:
  assumes "ended ts"
  shows "good 1 ts (parseComparison L ts)"
  unfolding parseComparison_def
proof (rule good_bind [OF good_parseField [OF assms]], simp only: prod.case)
  fix field ts'
  assume ts': "ended ts'" "length ts' + 1 \<le> length ts"
  show "good 1 ts (if isKeyword ''in'' ts' then parseIn L field (tl ts')
     else sum_bind (parseOperator ts') (\<lambda>(op, ts).
       sum_bind (parseValue L ts) (\<lambda>(v, ts).
       if op = ''=~'' then
         (case regexp_compile L (v_str v) of
            None \<Rightarrow> Inl (HErr (''invalid regular expression '' @ quote (v_str v)))
          | Some re \<Rightarrow> Inr (Comparison field op v [] (Some re), ts))
       else Inr (Comparison field op v [] None, ts))))"
  proof (cases "isKeyword ''in'' ts'")
    case True
    then show ?thesis
      using keyword_step [OF True ts'(1)] ts' good_mono [OF good_parseIn, of "tl ts'" 1 ts L field] by simp
  next
    case False
    have "good 1 ts (sum_bind (parseValue L us) (\<lambda>(v, ts).
       if op = ''=~'' then
         (case regexp_compile L (v_str v) of
            None \<Rightarrow> Inl (HErr (''invalid regular expression '' @ quote (v_str v)))
          | Some re \<Rightarrow> Inr (Comparison field op v [] (Some re), ts))
       else Inr (Comparison field op v [] None, ts)))" if "ended us" "length us + 1 \<le> length ts" for us op
      by (rule good_bind [where d = 1, OF good_mono [OF good_parseValue [OF that(1)]]]) (use that in \<open>auto split: option.split\<close>)
    moreover have "good 1 ts (parseOperator ts')"
      by (rule good_mono [OF good_parseOperator [OF ts'(1)]]) (use ts'(2) in simp)
    ultimately show ?thesis
      using False by (simp only: if_False, intro good_bind [where d = 1 and k = 1]) (auto simp only: prod.case)
  qed
qed

lemma good_parseUnary:
  assumes "\<And>us. ended us \<Longrightarrow> length us < length ts \<Longrightarrow> good 1 us (inner us)" "ended ts" "length ts < n"
  shows "good 1 ts (parseUnary n L inner ts)"
  using assms
proof (induction n arbitrary: ts)
  case 0
  then show ?case by simp
next
  case (Suc n)
  consider (neg) "isKeyword ''not'' ts" | (par) "\<not> isKeyword ''not'' ts" "peek_kind ts tokLParen"
    | (cmp) "\<not> isKeyword ''not'' ts" "\<not> peek_kind ts tokLParen"
    by blast
  then show ?case
  proof cases
    case neg
    note step = keyword_step [OF neg Suc.prems(2)]
    have "good 1 (tl ts) (parseUnary n L inner (tl ts))"
      using step Suc.prems by (intro Suc.IH) auto
    then have "good 2 ts (parseUnary n L inner (tl ts))"
      by (rule good_mono) (use step in simp)
    then have "good 1 ts (sum_bind (parseUnary n L inner (tl ts)) (\<lambda>(e, ts). Inr (NotExpr e, ts)))"
      by (rule good_bind) simp
    then show ?thesis
      using neg by simp
  next
    case par
    note step = kind_step [OF par(2) _ Suc.prems(2)]
    have call: "good 2 ts (inner (tl ts))"
      using step by (intro good_mono [OF Suc.prems(1)]) auto
    have paren: "good 1 ts (sum_bind (expect tokRParen ''expected )'' us) (\<lambda>(_, ts). Inr (e, ts)))"
      if "ended us" "length us + 2 \<le> length ts" for us and e :: expr
      by (rule good_bind [where d = 2, OF good_mono [OF good_expect [OF that(1)]]]) (use that in auto)
    have "good 1 ts (sum_bind (inner (tl ts)) (\<lambda>(e, ts). sum_bind (expect tokRParen ''expected )'' ts) (\<lambda>(_, ts). Inr (e, ts))))"
      by (rule good_bind [OF call]) (simp only: prod.case paren)
    then show ?thesis
      using par by simp
  next
    case cmp
    then show ?thesis
      using good_parseComparison [OF Suc.prems(2)] by simp
  qed
qed

lemma good_and_loop:
  assumes "\<And>us. ended us \<Longrightarrow> length us < length ts \<Longrightarrow> good 1 us (inner us)" "ended ts" "length ts < n"
  shows "good 0 ts (and_loop n L inner left ts)"
  using assms
proof (induction n arbitrary: left ts)
  case 0
  then show ?case by simp
next
  case (Suc n)
  show ?case
  proof (cases "isKeyword ''and'' ts")
    case True
    note step = keyword_step [OF True Suc.prems(2)]
    have "good 1 (tl ts) (parseUnary (length ts) L inner (tl ts))"
      using step Suc.prems by (intro good_parseUnary) auto
    then have "good 2 ts (parseUnary (length ts) L inner (tl ts))"
      by (rule good_mono) (use step in simp)
    moreover have "good 0 ts (and_loop n L inner (AndExpr left right) us)" if "ended us" "length us + 2 \<le> length ts" for us right
      using that Suc.prems good_mono [OF Suc.IH [of us], of 0 ts "AndExpr left right"] by auto
    ultimately show ?thesis
      using True by (simp, intro good_bind [where d = 2 and k = 0]) auto
  next
    case False
    then show ?thesis using Suc.prems by simp
  qed
qed

lemma good_parseAnd:
  assumes "\<And>us. ended us \<Longrightarrow> length us < length ts \<Longrightarrow> good 1 us (inner us)" "ended ts"
  shows "good 1 ts (parseAnd L inner ts)"
proof -
  have "good 1 ts (parseUnary (Suc (length ts)) L inner ts)"
    using assms by (intro good_parseUnary) auto
  moreover have "good 1 ts (and_loop (Suc (length us)) L inner left us)" if "ended us" "length us + 1 \<le> length ts" for us left
    using that assms good_mono [OF good_and_loop [of us inner "Suc (length us)" L left], of 1 ts] by auto
  ultimately show ?thesis
    unfolding parseAnd_def by (intro good_bind [where d = 1 and k = 1]) auto
qed

lemma good_or_loop:
  assumes "\<And>us. ended us \<Longrightarrow> length us < length ts \<Longrightarrow> good 1 us (inner us)" "ended ts" "length ts < n"
  shows "good 0 ts (or_loop n L inner left ts)"
  using assms
proof (induction n arbitrary: left ts)
  case 0
  then show ?case by simp
next
  case (Suc n)
  show ?case
  proof (cases "isKeyword ''or'' ts")
    case True
    note step = keyword_step [OF True Suc.prems(2)]
    have "good 1 (tl ts) (parseAnd L inner (tl ts))"
      using step Suc.prems by (intro good_parseAnd) auto
    then have "good 2 ts (parseAnd L inner (tl ts))"
      by (rule good_mono) (use step in simp)
    moreover have "good 0 ts (or_loop n L inner (OrExpr left right) us)" if "ended us" "length us + 2 \<le> length ts" for us right
      using that Suc.prems good_mono [OF Suc.IH [of us], of 0 ts "OrExpr left right"] by auto
    ultimately show ?thesis
      using True by (simp, intro good_bind [where d = 2 and k = 0]) auto
  next
    case False
    then show ?thesis using Suc.prems by simp
  qed
qed

lemma good_parseOr: "ended ts \<Longrightarrow> length ts < n \<Longrightarrow> good 1 ts (parseOr n L ts)"
proof (induction n arbitrary: ts)
  case 0
  then show ?case by simp
next
  case (Suc n)
  have inner: "good 1 us (parseOr n L us)" if "ended us" "length us < length ts" for us
    using that Suc by auto
  then have "good 1 ts (parseAnd L (parseOr n L) ts)"
    using Suc.prems by (intro good_parseAnd) auto
  moreover have "good 1 ts (or_loop (Suc (length us)) L (parseOr n L) left us)" if "ended us" "length us + 1 \<le> length ts" for us left
    using that inner good_mono [OF good_or_loop [of us "parseOr n L" "Suc (length us)" L left], of 1 ts] by auto
  ultimately show ?case
    unfolding parseOr.simps by (intro good_bind [where d = 1 and k = 1]) auto
qed

lemma good_parseExpr: "ended ts \<Longrightarrow> good 1 ts (parseExpr L ts)"
  unfolding parseExpr_def by (rule good_parseOr) simp_all

lemma good_parseClass: "ended ts \<Longrightarrow> good 1 ts (parseClass ts)"
  unfolding parseClass_def by (rule good_bind [OF good_expect]) auto

lemma good_parse_where:
  assumes "ended ts"
  shows "good 0 ts (parse_where L ts)"
proof (cases "isKeyword ''where'' ts")
  case True
  note step = keyword_step [OF True assms]
  have "good 1 ts (parseExpr L (tl ts))"
    using step by (intro good_mono [OF good_parseExpr]) auto
  then show ?thesis
    using True by (auto simp: parse_where_def intro: good_bind)
qed (use assms in \<open>simp add: parse_where_def\<close>)

lemma good_parsePipe:
  assumes "ended ts"
  shows "good 0 ts (parsePipe L ts)"
proof -
  consider (filter) "isKeyword ''where'' ts" | (limit) "\<not> isKeyword ''where'' ts" "isKeyword ''limit'' ts"
    | (other) "\<not> isKeyword ''where'' ts" "\<not> isKeyword ''limit'' ts"
    by blast
  then show ?thesis
  proof cases
    case filter
    have "good 1 ts (parseExpr L (tl ts))"
      using keyword_step [OF filter assms] by (intro good_mono [OF good_parseExpr]) auto
    then show ?thesis
      using filter by (auto simp: parsePipe_def intro: good_bind)
  next
    case limit
    have "good 1 ts (expect tokNumber ''limit expects a number'' (tl ts))"
      using keyword_step [OF limit(2) assms] by (intro good_mono [OF good_expect]) auto
    then show ?thesis
      using limit by (auto simp: parsePipe_def intro!: good_bind split: option.split)
  next
    case other
    then show ?thesis
      using assms by (auto simp: parsePipe_def ended_def split: list.split)
  qed
qed

lemma good_pipes_loop: "ended ts \<Longrightarrow> length ts < n \<Longrightarrow> good 0 ts (pipes_loop n L ps ts)"
proof (induction n arbitrary: ps ts)
  case 0
  then show ?case by simp
next
  case (Suc n)
  show ?case
  proof (cases "peek_kind ts tokPipe")
    case True
    note step = kind_step [OF True _ Suc.prems(1)]
    have "good 1 ts (parsePipe L (tl ts))"
      using step by (intro good_mono [OF good_parsePipe]) auto
    moreover have "good 0 ts (pipes_loop n L (ps @ [p]) us)" if "ended us" "length us + 1 \<le> length ts" for us p
      using that Suc.prems good_mono [OF Suc.IH [of us], of 0 ts "ps @ [p]"] by auto
    ultimately show ?thesis
      using True by (simp, intro good_bind [where d = 1 and k = 0]) auto
  next
    case False
    then show ?thesis using Suc.prems by simp
  qed
qed

lemma good_parseSimple:
  assumes "ended ts"
  shows "good 1 ts (parseSimple L ts)"
proof -
  have pipes: "good 1 ts (sum_bind (pipes_loop (Suc (length us)) L [] us) (\<lambda>(pipes, ts).
      Inr (\<lparr>sq_class = cls, sq_filter = flt, sq_pipes = pipes\<rparr>, ts)))" if "ended us" "length us + 1 \<le> length ts" for us cls flt
    by (rule good_bind [where d = 1, OF good_mono [OF good_pipes_loop [OF that(1)]]]) (use that in auto)
  have "good 1 ts (sum_bind (parse_where L us) (\<lambda>(flt, ts). sum_bind (pipes_loop (Suc (length ts)) L [] ts) (\<lambda>(pipes, ts).
      Inr (\<lparr>sq_class = cls, sq_filter = flt, sq_pipes = pipes\<rparr>, ts))))" if "ended us" "length us + 1 \<le> length ts" for us cls
    by (rule good_bind [where d = 1, OF good_mono [OF good_parse_where [OF that(1)]]]) (use that pipes in auto)
  then show ?thesis
    unfolding parseSimple_def by (intro good_bind [OF good_parseClass [OF assms]]) auto
qed

lemma good_parseStage:
  assumes "ended ts"
  shows "good 1 ts (parseStage L ts)"
proof -
  have "good 1 ts (sum_bind (parse_where L us) (\<lambda>(flt, ts). Inr (\<lparr>hs_class = cls, hs_filter = flt\<rparr>, ts)))"
    if "ended us" "length us + 1 \<le> length ts" for us cls
    by (rule good_bind [where d = 1, OF good_mono [OF good_parse_where [OF that(1)]]]) (use that in auto)
  then show ?thesis
    unfolding parseStage_def by (intro good_bind [OF good_parseClass [OF assms]]) auto
qed

lemma good_stages_loop: "ended ts \<Longrightarrow> length ts < n \<Longrightarrow> good 1 ts (stages_loop n L ss ts)"
proof (induction n arbitrary: ss ts)
  case 0
  then show ?case by simp
next
  case (Suc n)
  have "good 1 ts (if peek_kind us tokSemicolon then stages_loop n L (ss @ [s]) (tl us) else Inr (ss @ [s], us))"
    if "ended us" "length us + 1 \<le> length ts" for us s
    using that Suc.prems kind_step [of us tokSemicolon] Suc.IH [of "tl us" "ss @ [s]"] good_mono [of 1 "tl us" _ 1 ts] by auto
  then show ?case
    unfolding stages_loop.simps by (intro good_bind [OF good_parseStage [OF Suc.prems(1)]]) auto
qed

lemma good_parseDuration: "ended ts \<Longrightarrow> good 1 ts (parseDuration PD ts)"
  by (erule ended_cases) (auto simp: parseDuration_def dest: ended_Cons split: option.splits sum.splits)

lemma good_parseSequence:
  assumes "ended ts" "isKeyword ''sequence'' ts"
  shows "good 1 ts (parseSequence L PD ts)"
proof -
  note step = keyword_step [OF assms(2,1)]
  have stages: "good 1 ts (sum_bind (stages_loop (Suc (length us)) L [] us) (\<lambda>(stages, ts).
      if length stages < 2 then Inl (HErr ''a sequence needs at least two stages separated by ;'')
      else Inr (\<lparr>sq_by = b, sq_within = w, sq_stages = stages\<rparr>, ts)))" if "ended us" "length us + 1 \<le> length ts" for us b w
    by (rule good_bind [where d = 1, OF good_mono [OF good_stages_loop [OF that(1)]]]) (use that in auto)
  have colon: "good 1 ts (sum_bind (expect tokColon ''expected : before sequence stages'' us) (\<lambda>(_, ts).
      sum_bind (stages_loop (Suc (length ts)) L [] ts) (\<lambda>(stages, ts).
      if length stages < 2 then Inl (HErr ''a sequence needs at least two stages separated by ;'')
      else Inr (\<lparr>sq_by = b, sq_within = w, sq_stages = stages\<rparr>, ts))))" if "ended us" "length us + 1 \<le> length ts" for us b w
    by (rule good_bind [where d = 1, OF good_mono [OF good_expect [OF that(1)]]]) (use that stages in auto)
  have window: "good 1 ts (if isKeyword ''within'' us then parseDuration PD (tl us) else Inr (0, us))"
    if "ended us" "length us + 1 \<le> length ts" for us
    using that keyword_step [of "''within''" us] good_mono [OF good_parseDuration [of "tl us" PD], of 1 ts] by auto
  have "good 1 ts (if isKeyword ''by'' (tl ts) then parseField (tl (tl ts)) else Inr ([], tl ts))"
    using step keyword_step [of "''by''" "tl ts"] good_mono [OF good_parseField [of "tl (tl ts)"], of 1 ts] by auto
  then show ?thesis
    unfolding parseSequence_def
    by (rule good_bind, unfold prod.case) (rule good_bind [OF window], assumption, assumption, unfold prod.case, rule colon)
qed

lemma lex_loop_ended: "lex_loop s = Inr ts \<Longrightarrow> ended ts"
proof (induction s arbitrary: ts rule: lex_loop.induct)
  case (1 s)
  show ?case
  proof (cases "s = []")
    case True
    then show ?thesis using 1 by (auto simp: lex_loop.simps ended_def)
  next
    case False
    then obtain tok rest ts' where "lex_round s = Inr (tok, rest)" "lex_loop rest = Inr ts'"
      "ts = (case tok of None \<Rightarrow> ts' | Some t \<Rightarrow> t # ts')"
      using "1.prems" by (auto simp: lex_loop.simps [of s] sum_bind_Inr split: sum.splits)
    then show ?thesis
      using "1.IH" False by (fastforce simp: ended_def split: option.splits)
  qed
qed

lemma lex_loop_no_panic: "lex_loop s \<noteq> Inl HPanic \<and> lex_loop s \<noteq> Inl HFuel"
proof (induction s rule: lex_loop.induct)
  case (1 s)
  have str: "lexString q u sb \<noteq> Inl HPanic \<and> lexString q u sb \<noteq> Inl HFuel" for q u sb
    by (induction q u sb rule: lexString.induct) auto
  have "lex_round s \<noteq> Inl HPanic \<and> lex_round s \<noteq> Inl HFuel"
    using str by (auto simp: lex_round_def lexSymbol_def Let_def sum_bind_Inl split: prod.splits if_splits)
  then show ?case
    using 1 by (cases "lex_round s") (auto simp: lex_loop.simps [of s] sum_bind_Inl)
qed

text \<open>
  C33. The query compiler is total and never reads past its tokens: on every source text it returns a query
  or a syntax error; the fuel of its loops and of its recursion is enough, and no index is out of range.
\<close>

theorem hunt_parse_total:
  "case hunt_parse L PD src of Inl err \<Rightarrow> (\<exists>msg. err = HErr msg) | Inr q \<Rightarrow> True"
proof (cases "hunt_lex src")
  case (Inl err)
  then show ?thesis
    using lex_loop_no_panic [of src] by (cases err) (auto simp: hunt_parse_def hunt_lex_def)
next
  case (Inr ts)
  then have ts: "ended ts"
    using lex_loop_ended by (simp add: hunt_lex_def)
  have "good 1 ts (parseQuery L PD src ts)"
    unfolding parseQuery_def
    by (auto intro!: good_bind [OF good_parseSequence [OF ts]] good_bind [OF good_parseSimple [OF ts]] simp del: One_nat_def)
  then show ?thesis
    using Inr by (cases "parseQuery L PD src ts")
      (auto simp: hunt_parse_def good_def ended_def split: hunt_error.splits list.splits intro: hunt_error.exhaust)
qed

end
