(* ===== verification/Hunt_Print.thy ===== *)
theory Hunt_Print
  imports Hunt_Parse
begin

text \<open>
  A printer for ARQL queries and its round trip with the compiler of \<^verbatim>\<open>internal/hunt/parse.go\<close>: every simple
  query the compiler can produce has a source text that compiles to it, so the language loses nothing of
  the trees and the parser gives every operator, operand and parenthesis its place.
\<close>

section \<open>Trees the compiler can produce\<close>

definition value_ok :: "go_lib \<Rightarrow> hvalue \<Rightarrow> bool" where
  "value_ok L v \<longleftrightarrow>
     (if v_isNum v then parse_float L (v_str v) = Some (v_num v) \<and> v_str v \<noteq> [] \<and> is_digit (hd (v_str v)) \<and>
        list_all (\<lambda>c. is_digit c \<or> c = CHR ''.'') (v_str v)
      else v_num v = 0)"

definition word_ops :: "string list" where
  "word_ops = [''contains'', ''startswith'', ''endswith'']"

definition symbol_ops :: "string list" where
  "symbol_ops = [''=='', ''!='', ''>='', ''<='', ''=~'', ''>'', ''<'']"

fun expr_ok :: "go_lib \<Rightarrow> expr \<Rightarrow> bool" where
  "expr_ok L (AndExpr a b) \<longleftrightarrow> expr_ok L a \<and> expr_ok L b"
| "expr_ok L (OrExpr a b) \<longleftrightarrow> expr_ok L a \<and> expr_ok L b"
| "expr_ok L (NotExpr a) \<longleftrightarrow> expr_ok L a"
| "expr_ok L (Comparison f op v vs re) \<longleftrightarrow> KnownField f \<and>
     (if op = ''in'' then v = zero_value \<and> vs \<noteq> [] \<and> list_all (value_ok L) vs \<and> re = None
      else (op \<in> set word_ops \<or> op \<in> set symbol_ops) \<and> vs = [] \<and> value_ok L v \<and>
        (if op = ''=~'' then re \<noteq> None \<and> regexp_compile L (v_str v) = re else re = None))"

section \<open>Tokens of a tree\<close>

abbreviation kw :: "string \<Rightarrow> token" where "kw w \<equiv> Token tokIdent w"
abbreviation LP :: token where "LP \<equiv> Token tokLParen ''(''"
abbreviation RP :: token where "RP \<equiv> Token tokRParen '')''"

definition value_token :: "hvalue \<Rightarrow> token" where
  "value_token v = Token (if v_isNum v then tokNumber else tokString) (v_str v)"

definition op_token :: "string \<Rightarrow> token" where
  "op_token op = Token (if op \<in> set word_ops then tokIdent else tokOp) op"

fun value_list :: "hvalue list \<Rightarrow> token list" where
  "value_list [] = []"
| "value_list [v] = [value_token v]"
| "value_list (v # vs) = value_token v # Token tokComma '','' # value_list vs"

fun expr_tokens :: "expr \<Rightarrow> token list" where
  "expr_tokens (AndExpr a b) = LP # expr_tokens a @ [RP, kw ''and'', LP] @ expr_tokens b @ [RP]"
| "expr_tokens (OrExpr a b) = LP # expr_tokens a @ [RP, kw ''or'', LP] @ expr_tokens b @ [RP]"
| "expr_tokens (NotExpr a) = [kw ''not'', LP] @ expr_tokens a @ [RP]"
| "expr_tokens (Comparison f op v vs re) =
     (if op = ''in'' then [kw f, kw ''in'', LP] @ value_list vs @ [RP] else [kw f, op_token op, value_token v])"

section \<open>The parser reads the tokens back\<close>

lemma parseValue_token: "value_ok L v \<Longrightarrow> parseValue L (value_token v # ts) = Inr (v, ts)"
  by (cases "v_isNum v") (simp_all add: value_ok_def value_token_def parseValue_def zero_value_def)

lemma in_loop_tokens:
  assumes "list_all (value_ok L) vs" "vs \<noteq> []" "length vs \<le> n"
  shows "in_loop n L us (value_list vs @ RP # ts) = Inr (us @ vs, RP # ts)"
  using assms
proof (induction vs arbitrary: n us rule: value_list.induct)
  case (2 v)
  then show ?case by (cases n) (simp_all add: parseValue_token peek_kind_def)
next
  case (3 v w vs)
  then show ?case by (cases n) (simp_all add: parseValue_token peek_kind_def)
qed simp

lemma length_value_list: "length vs \<le> length (value_list vs)"
  by (induction vs rule: value_list.induct) simp_all

lemma KnownField_not_keyword: "KnownField f \<Longrightarrow> f \<noteq> ''not''"
  by (auto simp: KnownField_def fieldAccessors_def)

lemma op_token_cases:
  assumes "op \<in> set word_ops \<or> op \<in> set symbol_ops"
  shows "parseOperator (op_token op # ts) = Inr (op, ts)" "\<not> isKeyword ''in'' (op_token op # ts)"
  using assms by (auto simp: parseOperator_def op_token_def isKeyword_def word_ops_def symbol_ops_def)

lemma parseComparison_tokens:
  assumes "expr_ok L (Comparison f op v vs re)"
  shows "parseComparison L (expr_tokens (Comparison f op v vs re) @ ts) = Inr (Comparison f op v vs re, ts)"
proof (cases "op = ''in''")
  case True
  then have vs: "list_all (value_ok L) vs" "vs \<noteq> []" "KnownField f" "v = zero_value" "re = None"
    using assms by auto
  have "length vs \<le> Suc (length (value_list vs @ RP # ts))"
    using length_value_list [of vs] by simp
  from in_loop_tokens [OF vs(1,2) this, of "[]" ts] show ?thesis
    using True vs(3,4,5)
    by (simp add: parseComparison_def parseField_def expect_def isKeyword_def parseIn_def del: in_loop.simps)
next
  case False
  then have ok: "op \<in> set word_ops \<or> op \<in> set symbol_ops" "vs = []" "value_ok L v" "KnownField f"
    "if op = ''=~'' then re \<noteq> None \<and> regexp_compile L (v_str v) = re else re = None"
    using assms by (auto split: if_splits)
  show ?thesis
    using False ok op_token_cases [OF ok(1)]
    by (auto simp: parseComparison_def parseField_def expect_def parseValue_token split: if_splits)
qed

text \<open>What may follow an expression: no conjunction or disjunction goes on.\<close>

definition closed_by :: "token list \<Rightarrow> bool" where
  "closed_by ts \<longleftrightarrow> \<not> isKeyword ''and'' ts \<and> \<not> isKeyword ''or'' ts"

lemma parens_tokens:
  "inner (expr_tokens a @ RP # ts) = Inr (a, RP # ts) \<Longrightarrow>
     parseUnary (Suc n) L inner (LP # expr_tokens a @ RP # ts) = Inr (a, ts)"
  by (simp add: isKeyword_def peek_kind_def expect_def)

lemma and_loop_stop: "\<not> isKeyword ''and'' ts \<Longrightarrow> and_loop (Suc n) L inner e ts = Inr (e, ts)"
  by simp

lemma or_loop_stop: "\<not> isKeyword ''or'' ts \<Longrightarrow> or_loop (Suc n) L inner e ts = Inr (e, ts)"
  by simp

lemma parseOr_tokens:
  "expr_ok L e \<Longrightarrow> closed_by ts \<Longrightarrow> length (expr_tokens e @ ts) < n \<Longrightarrow> parseOr n L (expr_tokens e @ ts) = Inr (e, ts)"
proof (induction e arbitrary: ts n)
  case (AndExpr a b)
  then obtain m where n: "n = Suc m" by (cases n) auto
  let ?after = "kw ''and'' # LP # expr_tokens b @ RP # ts"
  have a: "parseOr m L (expr_tokens a @ RP # ?after) = Inr (a, RP # ?after)"
    using AndExpr.prems by (intro AndExpr.IH(1)) (auto simp: closed_by_def isKeyword_def n)
  have b: "parseOr m L (expr_tokens b @ RP # ts) = Inr (b, RP # ts)"
    using AndExpr.prems by (intro AndExpr.IH(2)) (auto simp: closed_by_def isKeyword_def n)
  have "parseAnd L (parseOr m L) (expr_tokens (AndExpr a b) @ ts) = Inr (AndExpr a b, ts)"
    using AndExpr.prems(2) parens_tokens [where inner = "parseOr m L", OF a] parens_tokens [where inner = "parseOr m L", OF b]
    by (simp add: parseAnd_def closed_by_def isKeyword_def [of "''and''" ?after] del: parseUnary.simps)
  then show ?case
    using AndExpr.prems(2) by (simp add: n closed_by_def)
next
  case (OrExpr a b)
  then obtain m where n: "n = Suc m" by (cases n) auto
  let ?after = "kw ''or'' # LP # expr_tokens b @ RP # ts"
  have a: "parseOr m L (expr_tokens a @ RP # ?after) = Inr (a, RP # ?after)"
    using OrExpr.prems by (intro OrExpr.IH(1)) (auto simp: closed_by_def isKeyword_def n)
  have b: "parseOr m L (expr_tokens b @ RP # ts) = Inr (b, RP # ts)"
    using OrExpr.prems by (intro OrExpr.IH(2)) (auto simp: closed_by_def isKeyword_def n)
  have "parseAnd L (parseOr m L) (LP # expr_tokens a @ RP # ?after) = Inr (a, ?after)"
    using parens_tokens [where inner = "parseOr m L", OF a] by (simp add: parseAnd_def isKeyword_def [of "''and''" ?after] del: parseUnary.simps)
  moreover have "parseAnd L (parseOr m L) (LP # expr_tokens b @ RP # ts) = Inr (b, ts)"
    using parens_tokens [where inner = "parseOr m L", OF b] OrExpr.prems(2) by (simp add: parseAnd_def closed_by_def del: parseUnary.simps)
  ultimately show ?case
    using OrExpr.prems(2) by (simp add: n closed_by_def isKeyword_def [of "''or''" ?after])
next
  case (NotExpr a)
  then obtain m where n: "n = Suc m" by (cases n) auto
  have a: "parseOr m L (expr_tokens a @ RP # ts) = Inr (a, RP # ts)"
    using NotExpr.prems by (intro NotExpr.IH) (auto simp: closed_by_def isKeyword_def n)
  have "parseUnary (Suc (Suc k)) L (parseOr m L) (expr_tokens (NotExpr a) @ ts) = Inr (NotExpr a, ts)" for k
    using parens_tokens [where inner = "parseOr m L", OF a] by (simp add: isKeyword_def [of "''not''" "kw ''not'' # _"])
  then show ?case
    using NotExpr.prems(2) by (simp add: n parseAnd_def closed_by_def del: parseUnary.simps)
next
  case (Comparison f op v vs re)
  then obtain m where n: "n = Suc m" by (cases n) auto
  have head: "\<exists>us. expr_tokens (Comparison f op v vs re) = kw f # us"
    by simp
  have "parseUnary (Suc k) L (parseOr m L) (expr_tokens (Comparison f op v vs re) @ ts) = Inr (Comparison f op v vs re, ts)" for k
    using parseComparison_tokens [OF Comparison.prems(1), of ts] head KnownField_not_keyword [of f] Comparison.prems(1)
    by (auto simp: isKeyword_def peek_kind_def simp del: expr_tokens.simps)
  then show ?case
    using Comparison.prems(2) by (simp add: n parseAnd_def closed_by_def del: parseUnary.simps expr_tokens.simps)
qed

section \<open>Simple queries\<close>

definition ident_ok :: "string \<Rightarrow> bool" where
  "ident_ok w \<longleftrightarrow> w \<noteq> [] \<and> isIdentStart (hd w) \<and> list_all isIdentPart w"

definition class_ok :: "classRef \<Rightarrow> bool" where
  "class_ok c \<longleftrightarrow> (if cr_all c then cr_action c = []
     else ident_ok (cr_action c) \<and> cr_action c \<notin> {''event'', ''any'', ''sequence''})"

definition pipe_ok :: "go_lib \<Rightarrow> pipe \<Rightarrow> bool" where
  "pipe_ok L p \<longleftrightarrow> (case pp_filter p of
     Some e \<Rightarrow> expr_ok L e \<and> pp_limit p = 0 \<and> \<not> pp_hasLimit p
   | None \<Rightarrow> pp_hasLimit p \<and> 0 \<le> pp_limit p \<and> in_int64 (pp_limit p))"

definition simple_ok :: "go_lib \<Rightarrow> simpleQuery \<Rightarrow> bool" where
  "simple_ok L q \<longleftrightarrow> class_ok (sq_class q) \<and> (case sq_filter q of None \<Rightarrow> True | Some e \<Rightarrow> expr_ok L e) \<and>
     list_all (pipe_ok L) (sq_pipes q)"

definition where_tokens :: "expr option \<Rightarrow> token list" where
  "where_tokens f = (case f of None \<Rightarrow> [] | Some e \<Rightarrow> kw ''where'' # expr_tokens e)"

definition pipe_tokens :: "pipe \<Rightarrow> token list" where
  "pipe_tokens p = Token tokPipe ''|'' # (case pp_filter p of
     Some e \<Rightarrow> kw ''where'' # expr_tokens e
   | None \<Rightarrow> [kw ''limit'', Token tokNumber (nat_str (nat (pp_limit p)))])"

definition simple_tokens :: "simpleQuery \<Rightarrow> token list" where
  "simple_tokens q = kw (if cr_all (sq_class q) then ''any'' else cr_action (sq_class q)) #
     where_tokens (sq_filter q) @ concat (map pipe_tokens (sq_pipes q))"

lemma closed_pipes: "closed_by (concat (map pipe_tokens ps) @ [Token tokEOF []])"
  by (cases ps) (simp_all add: closed_by_def isKeyword_def pipe_tokens_def)

lemma parseExpr_tokens: "expr_ok L e \<Longrightarrow> closed_by ts \<Longrightarrow> parseExpr L (expr_tokens e @ ts) = Inr (e, ts)"
  unfolding parseExpr_def by (rule parseOr_tokens) simp_all

lemma parse_where_tokens:
  assumes "case f of None \<Rightarrow> True | Some e \<Rightarrow> expr_ok L e" "closed_by ts" "\<not> isKeyword ''where'' ts"
  shows "parse_where L (where_tokens f @ ts) = Inr (f, ts)"
  using assms by (cases f) (simp_all add: parse_where_def where_tokens_def isKeyword_def [of "''where''" "_ # _"] parseExpr_tokens)

lemma parsePipe_tokens:
  assumes "pipe_ok L p" "closed_by ts"
  shows "parsePipe L (tl (pipe_tokens p @ ts)) = Inr (p, ts)"
proof (cases "pp_filter p")
  case None
  then have "parse_int (nat_str (nat (pp_limit p))) = Some (pp_limit p)"
    using assms parse_int_nat_str [of "nat (pp_limit p)"] by (simp add: pipe_ok_def)
  then show ?thesis
    using assms None by (simp add: parsePipe_def pipe_tokens_def isKeyword_def expect_def pipe_ok_def)
next
  case (Some e)
  then show ?thesis
    using assms by (simp add: parsePipe_def pipe_tokens_def isKeyword_def parseExpr_tokens pipe_ok_def)
qed

lemma pipes_loop_tokens:
  "list_all (pipe_ok L) ps \<Longrightarrow> length ps < n \<Longrightarrow>
     pipes_loop n L acc (concat (map pipe_tokens ps) @ [Token tokEOF []]) = Inr (acc @ ps, [Token tokEOF []])"
proof (induction ps arbitrary: n acc)
  case Nil
  then show ?case by (cases n) (simp_all add: peek_kind_def)
next
  case (Cons p ps)
  then obtain m where n: "n = Suc m" by (cases n) auto
  let ?rest = "concat (map pipe_tokens ps) @ [Token tokEOF []]"
  have "peek_kind (pipe_tokens p @ ?rest) tokPipe"
    by (simp add: peek_kind_def pipe_tokens_def)
  then show ?case
    using parsePipe_tokens [of L p ?rest] closed_pipes [of ps] Cons by (simp add: n)
qed

lemma parseSimple_tokens:
  assumes "simple_ok L q"
  shows "parseSimple L (simple_tokens q @ [Token tokEOF []]) = Inr (q, [Token tokEOF []])"
proof -
  let ?ps = "concat (map pipe_tokens (sq_pipes q)) @ [Token tokEOF []]"
  have cls: "parseClass (kw (if cr_all (sq_class q) then ''any'' else cr_action (sq_class q)) # ts) = Inr (sq_class q, ts)" for ts
    using assms by (cases "sq_class q") (auto simp: parseClass_def expect_def simple_ok_def class_ok_def)
  have "\<not> isKeyword ''where'' ?ps"
    by (cases "sq_pipes q") (simp_all add: isKeyword_def pipe_tokens_def)
  then have flt: "parse_where L (where_tokens (sq_filter q) @ ?ps) = Inr (sq_filter q, ?ps)"
    using assms closed_pipes by (intro parse_where_tokens) (simp_all add: simple_ok_def)
  have "length ps \<le> length (concat (map pipe_tokens ps))" for ps
    by (induction ps) (simp_all add: pipe_tokens_def)
  then have "pipes_loop (Suc (length ?ps)) L [] ?ps = Inr ([] @ sq_pipes q, [Token tokEOF []])"
    using assms by (intro pipes_loop_tokens) (simp_all add: simple_ok_def less_Suc_eq_le le_SucI)
  then show ?thesis
    unfolding parseSimple_def simple_tokens_def using cls flt
    by (simp del: pipes_loop.simps)
qed

section \<open>Source text\<close>

text \<open>A token as text: a string is put in double quotes, with a backslash before quote and backslash.\<close>

definition escape :: "string \<Rightarrow> string" where
  "escape s = concat (map (\<lambda>c. if c = CHR 0x22 \<or> c = CHR 0x5C then [CHR 0x5C, c] else [c]) s)"

definition print_token :: "token \<Rightarrow> string" where
  "print_token t = (if tk_kind t = tokString then [CHR 0x22] @ escape (tk_text t) @ [CHR 0x22] else tk_text t)"

definition print_tokens :: "token list \<Rightarrow> string" where
  "print_tokens ts = concat (map (\<lambda>t. print_token t @ '' '') ts)"

definition print_query :: "simpleQuery \<Rightarrow> string" where
  "print_query q = print_tokens (simple_tokens q)"

definition token_ok :: "token \<Rightarrow> bool" where
  "token_ok t \<longleftrightarrow> (let w = tk_text t in case tk_kind t of
     tokIdent \<Rightarrow> ident_ok w
   | tokString \<Rightarrow> True
   | tokNumber \<Rightarrow> w \<noteq> [] \<and> is_digit (hd w) \<and> list_all (\<lambda>c. is_digit c \<or> c = CHR ''.'') w
   | tokOp \<Rightarrow> w \<in> set symbol_ops
   | tokPipe \<Rightarrow> w = ''|'' | tokLParen \<Rightarrow> w = ''('' | tokRParen \<Rightarrow> w = '')'' | tokComma \<Rightarrow> w = '',''
   | _ \<Rightarrow> False)"

lemma lexString_escape:
  "lexString (CHR 0x22) (escape s @ CHR 0x22 # CHR '' '' # rest) sb = Inr (sb @ s, CHR '' '' # rest)"
proof (induction s arbitrary: sb)
  case Nil
  then show ?case by (simp add: escape_def)
next
  case (Cons c s)
  obtain d u where u: "escape s @ CHR 0x22 # CHR '' '' # rest = d # u"
    by (cases "escape s @ CHR 0x22 # CHR '' '' # rest") auto
  then show ?case
    using Cons.IH [of "sb @ [c]"] by (auto simp: escape_def)
qed

lemma takeWhile_word: "list_all P w \<Longrightarrow> \<not> P c \<Longrightarrow> takeWhile P (w @ c # s) = w \<and> dropWhile P (w @ c # s) = c # s"
  by (induction w) simp_all

lemma ident_char_facts:
  "isIdentStart c \<Longrightarrow> \<not> is_space c \<and> c \<noteq> CHR 0x22 \<and> c \<noteq> CHR 0x27 \<and> \<not> is_digit c"
  "is_digit c \<Longrightarrow> \<not> is_space c \<and> c \<noteq> CHR 0x22 \<and> c \<noteq> CHR 0x27"
  by (auto simp: isIdentStart_def is_letter_def is_upper_def is_lower_def is_digit_def is_space_def)

lemma lex_round_ident:
  assumes "ident_ok w"
  shows "lex_round (w @ CHR '' '' # s) = Inr (Some (kw w), CHR '' '' # s)"
proof -
  have w: "w \<noteq> []" "isIdentStart (hd w)" "list_all isIdentPart w"
    using assms by (simp_all add: ident_ok_def)
  have "\<not> isIdentPart (CHR '' '')"
    by (simp add: isIdentPart_def is_letter_def is_upper_def is_lower_def is_digit_def)
  then have "lexWhile isIdentPart (w @ CHR '' '' # s) = (w, CHR '' '' # s)"
    using takeWhile_word [OF w(3)] by (simp add: lexWhile_def)
  then show ?thesis
    using w ident_char_facts(1) [OF w(2)] by (simp add: lex_round_def)
qed

lemma lex_round_number:
  assumes "w \<noteq> []" "is_digit (hd w)" "list_all (\<lambda>c. is_digit c \<or> c = CHR ''.'') w"
  shows "lex_round (w @ CHR '' '' # s) = Inr (Some (Token tokNumber w), CHR '' '' # s)"
proof -
  have "\<not> (is_digit (CHR '' '') \<or> CHR '' '' = CHR ''.'')"
    by (simp add: is_digit_def)
  then have "lexWhile (\<lambda>c. is_digit c \<or> c = CHR ''.'') (w @ CHR '' '' # s) = (w, CHR '' '' # s)"
    using takeWhile_word [OF assms(3)] by (simp add: lexWhile_def)
  then have "lexNumber (w @ CHR '' '' # s) = (Token tokNumber w, CHR '' '' # s)"
    by (simp add: lexNumber_def isDurationUnit_def)
  then show ?thesis
    using assms ident_char_facts(2) [OF assms(2)] by (simp add: lex_round_def)
qed

lemma lex_round_symbol:
  assumes "Token k w \<in> {LP, RP, Token tokComma '','', Token tokPipe ''|''} \<union> Token tokOp ` set symbol_ops"
  shows "lex_round (w @ CHR '' '' # s) = Inr (Some (Token k w), CHR '' '' # s)"
proof -
  have round: "lex_round (c # u) = sum_bind (lexSymbol (c # u)) (\<lambda>(tok, rest). Inr (Some tok, rest))"
    if "c \<in> set ''()=!><,|''" for c u
  proof -
    have "\<not> is_space c \<and> c \<noteq> CHR 0x22 \<and> c \<noteq> CHR 0x27 \<and> \<not> is_digit c \<and> \<not> isIdentStart c"
      using that by (auto simp: is_space_def is_digit_def isIdentStart_def is_letter_def is_upper_def is_lower_def)
    then show ?thesis
      by (simp add: lex_round_def)
  qed
  have sym: "lexSymbol (''=='' @ CHR '' '' # s) = Inr (Token tokOp ''=='', CHR '' '' # s)"
    "lexSymbol (''!='' @ CHR '' '' # s) = Inr (Token tokOp ''!='', CHR '' '' # s)"
    "lexSymbol (''>='' @ CHR '' '' # s) = Inr (Token tokOp ''>='', CHR '' '' # s)"
    "lexSymbol (''<='' @ CHR '' '' # s) = Inr (Token tokOp ''<='', CHR '' '' # s)"
    "lexSymbol (''=~'' @ CHR '' '' # s) = Inr (Token tokOp ''=~'', CHR '' '' # s)"
    "lexSymbol (''>'' @ CHR '' '' # s) = Inr (Token tokOp ''>'', CHR '' '' # s)"
    "lexSymbol (''<'' @ CHR '' '' # s) = Inr (Token tokOp ''<'', CHR '' '' # s)"
    "lexSymbol (''('' @ CHR '' '' # s) = Inr (LP, CHR '' '' # s)"
    "lexSymbol ('')'' @ CHR '' '' # s) = Inr (RP, CHR '' '' # s)"
    "lexSymbol ('','' @ CHR '' '' # s) = Inr (Token tokComma '','', CHR '' '' # s)"
    "lexSymbol (''|'' @ CHR '' '' # s) = Inr (Token tokPipe ''|'', CHR '' '' # s)"
    by (simp_all add: lexSymbol_def)
  have "lexSymbol (w @ CHR '' '' # s) = Inr (Token k w, CHR '' '' # s) \<and> w \<noteq> [] \<and> hd w \<in> set ''()=!><,|''"
    using assms unfolding symbol_ops_def list.set by (elim UnE imageE insertE emptyE) (simp_all add: sym [simplified])
  then show ?thesis
    using round [of "hd w" "tl w @ CHR '' '' # s"] by (cases w) simp_all
qed

lemma lex_round_token: "token_ok t \<Longrightarrow> lex_round (print_token t @ CHR '' '' # s) = Inr (Some t, CHR '' '' # s)"
proof (cases t)
  case (Token k w)
  assume "token_ok t"
  then show ?thesis
  proof (cases k)
    case tokString
    then show ?thesis
      using lexString_escape [of w s "[]"] by (simp add: Token print_token_def lex_round_def is_space_def)
  next
    case tokIdent
    then show ?thesis
      using \<open>token_ok t\<close> by (simp add: Token token_ok_def print_token_def lex_round_ident)
  next
    case tokNumber
    then show ?thesis
      using \<open>token_ok t\<close> by (simp add: Token token_ok_def print_token_def lex_round_number)
  qed (use \<open>token_ok t\<close> lex_round_symbol [of k w s] in \<open>simp_all add: Token token_ok_def print_token_def\<close>)
qed

lemma lex_loop_space: "lex_loop (CHR '' '' # s) = lex_loop s"
  by (cases "lex_loop s") (simp_all add: lex_loop.simps [of "CHR '' '' # s"] lex_round_def is_space_def)

lemma print_token_nonempty: "token_ok t \<Longrightarrow> print_token t \<noteq> []"
  by (auto simp: token_ok_def print_token_def ident_ok_def symbol_ops_def Let_def split: tokenKind.splits)

lemma lex_print: "list_all token_ok ts \<Longrightarrow> lex_loop (print_tokens ts) = Inr (ts @ [Token tokEOF []])"
proof (induction ts)
  case Nil
  then show ?case by (simp add: print_tokens_def lex_loop.simps)
next
  case (Cons t ts)
  have eq: "print_tokens (t # ts) = print_token t @ CHR '' '' # print_tokens ts"
    by (simp add: print_tokens_def)
  have "print_token t @ CHR '' '' # print_tokens ts \<noteq> []"
    by simp
  then show ?case
    using Cons lex_round_token [of t "print_tokens ts"]
    by (simp add: eq lex_loop.simps [of "print_token t @ CHR '' '' # print_tokens ts"] lex_loop_space)
qed

lemma KnownField_ident: "KnownField f \<Longrightarrow> ident_ok f"
proof -
  have "list_all ident_ok (map fst fieldAccessors)"
    by (simp add: fieldAccessors_def ident_ok_def isIdentStart_def isIdentPart_def is_letter_def is_lower_def is_digit_def)
  moreover assume "KnownField f"
  then have "f \<in> set (map fst fieldAccessors)"
    using map_of_eq_None_iff [of fieldAccessors f] by (auto simp: KnownField_def)
  ultimately show ?thesis
    unfolding list_all_iff by blast
qed

lemma keyword_ok:
  "ident_ok ''and''" "ident_ok ''or''" "ident_ok ''not''" "ident_ok ''in''" "ident_ok ''where''" "ident_ok ''limit''" "ident_ok ''any''"
  "ident_ok ''contains''" "ident_ok ''startswith''" "ident_ok ''endswith''"
  by (simp_all add: ident_ok_def isIdentStart_def isIdentPart_def is_letter_def is_lower_def)

lemma bracket_ok:
  "token_ok LP" "token_ok RP" "token_ok (Token tokPipe ''|'')" "token_ok (kw ''and'')" "token_ok (kw ''or'')"
  "token_ok (kw ''not'')" "token_ok (kw ''in'')" "token_ok (kw ''where'')" "token_ok (kw ''limit'')" "token_ok (kw ''any'')"
  using keyword_ok by (simp_all add: token_ok_def)

lemma value_token_ok: "value_ok L v \<Longrightarrow> token_ok (value_token v)"
  by (simp add: value_ok_def value_token_def token_ok_def)

lemma op_token_ok: "op \<in> set word_ops \<or> op \<in> set symbol_ops \<Longrightarrow> token_ok (op_token op)"
  using keyword_ok by (auto simp: op_token_def token_ok_def word_ops_def)

lemma value_list_ok: "list_all (value_ok L) vs \<Longrightarrow> list_all token_ok (value_list vs)"
  by (induction vs rule: value_list.induct) (auto simp: token_ok_def [of "Token tokComma _"] intro: value_token_ok)

lemma expr_tokens_ok: "expr_ok L e \<Longrightarrow> list_all token_ok (expr_tokens e)"
proof (induction e)
  case (Comparison f op v vs re)
  then have f: "token_ok (kw f)"
    using KnownField_ident [of f] by (simp add: token_ok_def)
  show ?case
  proof (cases "op = ''in''")
    case True
    then show ?thesis
      using Comparison f value_list_ok [of L vs] bracket_ok by simp
  next
    case False
    then show ?thesis
      using Comparison f value_token_ok [of L v] op_token_ok [of op] by simp
  qed
qed (use bracket_ok in simp_all)

lemma simple_tokens_ok:
  assumes "simple_ok L q"
  shows "list_all token_ok (simple_tokens q)"
proof -
  have "list_all token_ok (pipe_tokens p)" if "pipe_ok L p" for p
  proof (cases "pp_filter p")
    case None
    have "nat_str n \<noteq> [] \<and> is_digit (hd (nat_str n)) \<and> list_all (\<lambda>c. is_digit c \<or> c = CHR ''.'') (nat_str n)" for n
      using nat_str_digits [of n] by (auto simp: list_all_iff)
    then have "token_ok (Token tokNumber (nat_str n))" for n
      by (simp add: token_ok_def)
    then show ?thesis
      using None bracket_ok by (simp add: pipe_tokens_def)
  next
    case (Some e)
    then show ?thesis
      using that bracket_ok expr_tokens_ok [of L e] by (simp add: pipe_tokens_def pipe_ok_def)
  qed
  then have "list_all token_ok (concat (map pipe_tokens (sq_pipes q)))"
    using assms by (auto simp: simple_ok_def list_all_iff)
  moreover have "list_all token_ok (where_tokens (sq_filter q))"
    using assms bracket_ok expr_tokens_ok [of L] by (cases "sq_filter q") (simp_all add: simple_ok_def where_tokens_def)
  moreover have "token_ok (kw (if cr_all (sq_class q) then ''any'' else cr_action (sq_class q)))"
    using assms bracket_ok by (simp add: simple_ok_def class_ok_def token_ok_def [of "kw (cr_action _)"])
  ultimately show ?thesis
    by (simp add: simple_tokens_def)
qed

text \<open>
  C15. Printing and compiling are inverse: the printed text of any simple query the compiler can produce
  compiles to exactly that query: every class, operator, literal, nesting of \<open>and\<close>, \<open>or\<close> and \<open>not\<close>, and
  every pipe comes back in its place, whatever the strings contain.
\<close>

theorem print_parse:
  assumes "simple_ok L q"
  shows "hunt_parse L PD (print_query q) = Inr (Simple (print_query q) q)"
proof -
  have lex: "hunt_lex (print_query q) = Inr (simple_tokens q @ [Token tokEOF []])"
    using lex_print [OF simple_tokens_ok [OF assms]] by (simp add: hunt_lex_def print_query_def)
  have "\<not> isKeyword ''sequence'' (simple_tokens q @ [Token tokEOF []])"
    using assms by (auto simp: isKeyword_def simple_tokens_def simple_ok_def class_ok_def)
  then show ?thesis
    using parseSimple_tokens [OF assms] by (simp add: hunt_parse_def lex parseQuery_def)
qed

definition sample_query :: simpleQuery where
  "sample_query = \<lparr>sq_class = \<lparr>cr_action = ''exec'', cr_all = False\<rparr>,
     sq_filter = Some (AndExpr (NotExpr (Comparison ''process.name'' ''=='' (zero_value\<lparr>v_str := ''a''\<rparr>) [] None))
       (Comparison ''user.name'' ''in'' zero_value [zero_value\<lparr>v_str := ''root''\<rparr>] None)),
     sq_pipes = [\<lparr>pp_filter = None, pp_limit = 5, pp_hasLimit = True\<rparr>]\<rparr>"

theorem print_parse_witness:
  "hunt_parse literal_lib (\<lambda>_. Inr 0) (print_query sample_query) = Inr (Simple (print_query sample_query) sample_query)"
proof -
  have "ident_ok ''exec''"
    by (simp add: ident_ok_def isIdentStart_def isIdentPart_def is_letter_def is_lower_def)
  then have "simple_ok literal_lib sample_query"
    by (simp add: simple_ok_def sample_query_def class_ok_def pipe_ok_def value_ok_def zero_value_def symbol_ops_def
        KnownField_def fieldAccessors_def in_int64_def int64_min_def int64_max_def)
  then show ?thesis
    by (rule print_parse)
qed

end
