(* ===== verification/Event_Store.thy ===== *)
theory Event_Store
  imports Event_Model
begin

text \<open>
  The event lake, \<^verbatim>\<open>internal/eventstore\<close>: the query (\<^verbatim>\<open>eventstore.go\<close>) and the in-memory store (\<^verbatim>\<open>memory.go\<close>).
  The contract of the \<^verbatim>\<open>Store\<close> interface is the locale \<open>event_lake\<close>, interpreted on the in-memory store;
  the SQLite store is a client of a database engine and is not modelled. A context is its error, if it
  is done. The mutex is a sequence of calls. \<^verbatim>\<open>sort.SliceStable\<close> is the stable sort of the library.
\<close>

section \<open>Queries (eventstore.go)\<close>

definition DefaultLimit :: int where
  "DefaultLimit = 1000"

record lake_query =
  q_Action :: string
  q_Host :: string
  q_PID :: uint32
  q_Since :: go_time
  q_Until :: go_time
  q_Contains :: string
  q_Limit :: int
  q_Ascending :: bool

definition any_query :: lake_query where
  "any_query = \<lparr>q_Action = [], q_Host = [], q_PID = 0, q_Since = zero_time, q_Until = zero_time,
     q_Contains = [], q_Limit = 0, q_Ascending = False\<rparr>"

definition query_limit :: "lake_query \<Rightarrow> int" where
  "query_limit q = (if q_Limit q \<le> 0 then DefaultLimit else q_Limit q)"

definition searchText :: "event \<Rightarrow> string" where
  "searchText e = to_lower (join '' ''
     [p_Name (e_Process e), p_Executable (e_Process e), p_CommandLine (e_Process e),
      f_Path (e_File e), f_Target (e_File e), n_DstIP (e_Network e), n_Domain (e_Network e), e_Host e])"

definition query_matches :: "lake_query \<Rightarrow> event \<Rightarrow> bool" where
  "query_matches q e =
     (if q_Action q \<noteq> [] \<and> e_Action e \<noteq> q_Action q then False
      else if q_Host q \<noteq> [] \<and> e_Host e \<noteq> q_Host q then False
      else if q_PID q \<noteq> 0 \<and> p_PID (e_Process e) \<noteq> q_PID q then False
      else if \<not> is_zero (q_Since q) \<and> e_Timestamp e < q_Since q then False
      else if \<not> is_zero (q_Until q) \<and> e_Timestamp e > q_Until q then False
      else if q_Contains q \<noteq> [] \<and> \<not> str_contains (searchText e) (to_lower (q_Contains q)) then False
      else True)"

section \<open>The in-memory store (memory.go)\<close>

type_synonym context_err = "string option"

record lake_memory =
  lm_events :: "event list"

definition NewMemory :: lake_memory where
  "NewMemory = \<lparr>lm_events = []\<rparr>"

definition lake_Append :: "context_err \<Rightarrow> event list \<Rightarrow> lake_memory \<Rightarrow> string option \<times> lake_memory" where
  "lake_Append ctx events m =
     (case ctx of Some err \<Rightarrow> (Some err, m)
      | None \<Rightarrow> (None, m\<lparr>lm_events := lm_events m @ events\<rparr>))"

definition time_order :: "lake_query \<Rightarrow> event list \<Rightarrow> event list" where
  "time_order q = sort_key (\<lambda>e. if q_Ascending q then e_Timestamp e else - e_Timestamp e)"

definition lake_Query :: "context_err \<Rightarrow> lake_query \<Rightarrow> lake_memory \<Rightarrow> string + event list" where
  "lake_Query ctx q m =
     (case ctx of Some err \<Rightarrow> Inl err
      | None \<Rightarrow>
          let matched = time_order q (filter (query_matches q) (lm_events m)) in
          Inr (if int (length matched) > query_limit q then take (nat (query_limit q)) matched else matched))"

definition lake_Count :: "lake_memory \<Rightarrow> int" where
  "lake_Count m = int (length (lm_events m))"

fun prune_loop :: "go_time \<Rightarrow> event list \<Rightarrow> event list \<times> int" where
  "prune_loop before [] = ([], 0)"
| "prune_loop before (e # es) =
     (case prune_loop before es of (kept, pruned) \<Rightarrow>
        if e_Timestamp e < before then (kept, pruned + 1) else (e # kept, pruned))"

definition lake_Prune :: "go_time \<Rightarrow> lake_memory \<Rightarrow> int \<times> lake_memory" where
  "lake_Prune before m = (case prune_loop before (lm_events m) of (kept, pruned) \<Rightarrow> (pruned, m\<lparr>lm_events := kept\<rparr>))"

section \<open>The store's contract\<close>

text \<open>
  What a store promises its clients: \<open>held\<close> is the history it stands for. An append extends it, a prune
  removes what is older than its bound and says how many events that was, and a query returns events of
  the history that match it, no more than its limit, and all of them if they fit.
\<close>

locale event_lake =
  fixes append_events :: "context_err \<Rightarrow> event list \<Rightarrow> 's \<Rightarrow> string option \<times> 's"
    and run_query :: "context_err \<Rightarrow> lake_query \<Rightarrow> 's \<Rightarrow> string + event list"
    and prune :: "go_time \<Rightarrow> 's \<Rightarrow> int \<times> 's"
    and held :: "'s \<Rightarrow> event list"
  assumes append_held: "held (snd (append_events None es s)) = held s @ es"
    and append_done: "append_events (Some err) es s = (Some err, s)"
    and append_ok: "fst (append_events None es s) = None"
    and prune_held: "held (snd (prune t s)) = filter (\<lambda>e. t \<le> e_Timestamp e) (held s)"
    and prune_number: "fst (prune t s) = int (length (held s)) - int (length (held (snd (prune t s))))"
    and query_done: "run_query (Some err) q s = Inl err"
    and query_ok: "\<exists>res. run_query None q s = Inr res"
    and query_sound: "run_query None q s = Inr res \<Longrightarrow> mset res \<subseteq># filter_mset (query_matches q) (mset (held s))"
    and query_limit: "run_query None q s = Inr res \<Longrightarrow>
      length res = min (nat (query_limit q)) (length (filter (query_matches q) (held s)))"
begin

lemma query_set: "run_query None q s = Inr res \<Longrightarrow> e \<in> set res \<Longrightarrow> e \<in> set (held s) \<and> query_matches q e"
  using mset_subset_eqD [OF query_sound, of q s res e] by simp

lemma query_complete:
  assumes "run_query None q s = Inr res" "length (filter (query_matches q) (held s)) \<le> nat (query_limit q)"
  shows "mset res = filter_mset (query_matches q) (mset (held s))"
proof (rule subset_mset.antisym)
  show "mset res \<subseteq># filter_mset (query_matches q) (mset (held s))"
    by (rule query_sound [OF assms(1)])
  have "size (mset res) = size (filter_mset (query_matches q) (mset (held s)))"
    using query_limit [OF assms(1)] assms(2) by (metis min.absorb2 mset_filter size_mset)
  then show "filter_mset (query_matches q) (mset (held s)) \<subseteq># mset res"
    using query_sound [OF assms(1)] by (metis mset_subset_size nat_neq_iff subset_mset.le_less subset_mset.order_refl)
qed

end

lemma query_matches_iff:
  "query_matches q e \<longleftrightarrow>
     (q_Action q = [] \<or> e_Action e = q_Action q) \<and> (q_Host q = [] \<or> e_Host e = q_Host q) \<and>
     (q_PID q = 0 \<or> p_PID (e_Process e) = q_PID q) \<and>
     (is_zero (q_Since q) \<or> q_Since q \<le> e_Timestamp e) \<and> (is_zero (q_Until q) \<or> e_Timestamp e \<le> q_Until q) \<and>
     (q_Contains q = [] \<or> str_contains (searchText e) (to_lower (q_Contains q)))"
  by (auto simp: query_matches_def)



lemma query_limit_pos: "0 < query_limit q"
  by (simp add: query_limit_def DefaultLimit_def)

lemma lake_Query_take:
  "lake_Query None q m = Inr (take (nat (query_limit q)) (time_order q (filter (query_matches q) (lm_events m))))"
  using query_limit_pos [of q] by (auto simp: lake_Query_def Let_def)

lemma prune_loop_eq:
  "prune_loop t es = (filter (\<lambda>e. t \<le> e_Timestamp e) es, int (length (filter (\<lambda>e. e_Timestamp e < t) es)))"
  by (induction es) (auto simp: linorder_not_less)

lemma mset_time_order [simp]: "mset (time_order q es) = mset es"
  by (simp add: time_order_def)

lemma mset_take_subset: "mset (take n xs) \<subseteq># mset xs"
  by (metis append_take_drop_id mset_append mset_subset_eq_add_left)

interpretation mlake: event_lake lake_Append lake_Query lake_Prune lm_events
proof unfold_locales
  fix t s
  show "fst (lake_Prune t s) = int (length (lm_events s)) - int (length (lm_events (snd (lake_Prune t s))))"
    using sum_length_filter_compl [of "\<lambda>e. e_Timestamp e < t" "lm_events s"]
    by (simp add: lake_Prune_def prune_loop_eq linorder_not_less)
next
  fix q s res
  assume "lake_Query None q s = Inr res"
  then have res: "res = take (nat (query_limit q)) (time_order q (filter (query_matches q) (lm_events s)))"
    by (simp add: lake_Query_take)
  show "mset res \<subseteq># filter_mset (query_matches q) (mset (lm_events s))"
    using mset_take_subset [of "nat (query_limit q)" "time_order q (filter (query_matches q) (lm_events s))"]
    by (simp add: res)
  show "length res = min (nat (query_limit q)) (length (filter (query_matches q) (lm_events s)))"
    by (simp add: res time_order_def min.commute)
qed (simp_all add: lake_Append_def lake_Prune_def prune_loop_eq lake_Query_def Let_def)

section \<open>What a query returns\<close>

definition in_order :: "lake_query \<Rightarrow> event \<Rightarrow> event \<Rightarrow> bool" where
  "in_order q a b \<longleftrightarrow> (if q_Ascending q then e_Timestamp a \<le> e_Timestamp b else e_Timestamp b \<le> e_Timestamp a)"

lemma time_order_sorted: "sorted_wrt (in_order q) (time_order q es)"
proof -
  let ?f = "\<lambda>e. if q_Ascending q then e_Timestamp e else - e_Timestamp e"
  have "sorted_wrt (\<lambda>a b. ?f a \<le> ?f b) (time_order q es)"
    using sorted_sort_key [of ?f es] by (simp only: time_order_def sorted_map)
  then show ?thesis
    by (rule sorted_wrt_mono_rel [rotated]) (simp add: in_order_def split: if_splits)
qed

lemma time_order_stable:
  "filter (\<lambda>e. e_Timestamp e = t) (time_order q es) = filter (\<lambda>e. e_Timestamp e = t) es"
proof (cases "q_Ascending q")
  case True
  then show ?thesis
    using sort_key_stable [of e_Timestamp t es] by (simp add: time_order_def)
next
  case False
  then show ?thesis
    using sort_key_stable [of "\<lambda>e. - e_Timestamp e" "- t" es] by (simp add: time_order_def)
qed

text \<open>
  C29. A query fails only with the error of its context. Otherwise it returns the first events, up to the
  limit, of all the stored events that match it, put in time order (newest first unless ascending) with
  events of one instant in the order they were stored; nothing that matches is left out while there is room.
\<close>

theorem lake_Query_correct:
  "case lake_Query ctx q m of
     Inl err \<Rightarrow> ctx = Some err
   | Inr res \<Rightarrow> ctx = None \<and>
      (\<exists>rest. mset (res @ rest) = mset (filter (query_matches q) (lm_events m)) \<and>
        sorted_wrt (in_order q) (res @ rest) \<and>
        (\<forall>t. filter (\<lambda>e. e_Timestamp e = t) (res @ rest) =
              filter (\<lambda>e. e_Timestamp e = t) (filter (query_matches q) (lm_events m))) \<and>
        int (length res) \<le> query_limit q \<and> (rest = [] \<or> int (length res) = query_limit q))"
proof (cases ctx)
  case (Some err)
  then show ?thesis by (simp add: lake_Query_def)
next
  case None
  let ?all = "time_order q (filter (query_matches q) (lm_events m))" and ?n = "nat (query_limit q)"
  have "mset (take ?n ?all @ drop ?n ?all) = mset (filter (query_matches q) (lm_events m))"
    "sorted_wrt (in_order q) (take ?n ?all @ drop ?n ?all)"
    "\<forall>t. filter (\<lambda>e. e_Timestamp e = t) (take ?n ?all @ drop ?n ?all) =
          filter (\<lambda>e. e_Timestamp e = t) (filter (query_matches q) (lm_events m))"
    by (simp_all only: append_take_drop_id mset_time_order time_order_sorted time_order_stable) simp
  moreover have "int (length (take ?n ?all)) \<le> query_limit q"
    "drop ?n ?all = [] \<or> int (length (take ?n ?all)) = query_limit q"
    using query_limit_pos [of q] by auto
  ultimately show ?thesis
    using None by (simp only: lake_Query_take sum.case) blast
qed

end
