(* ===== verification/Hunt.thy ===== *)
theory Hunt
  imports Hunt_Parse Event_Store Detect_Condition
begin

text \<open>
  Hunting, \<^verbatim>\<open>internal/hunt\<close>: evaluation of a compiled query on an event (\<^verbatim>\<open>eval.go\<close>), simple and sequence
  hunts over the event lake (\<^verbatim>\<open>hunt.go\<close>) and the conversion of a hunt to a detection rule (\<^verbatim>\<open>torule.go\<close>).
  A hunt takes the lake as the function that answers its query. The order in which Go ranges over the
  groups of a sequence hunt is an argument. YAML encoding is not modelled: the rule document is the
  result.
\<close>

section \<open>Integers as floating-point numbers\<close>

text \<open>
  The conversion of an integer to a \<^verbatim>\<open>float64\<close>, which keeps 53 significant bits: \<open>excess_bits\<close> of the
  number do not fit and are rounded away, to the nearest and on a tie to the even neighbour.
\<close>

fun excess_bits :: "nat \<Rightarrow> nat" where
  "excess_bits m = (if m < 2 ^ 53 then 0 else Suc (excess_bits (m div 2)))"

declare excess_bits.simps [simp del]

definition round_even :: "nat \<Rightarrow> nat \<Rightarrow> nat" where
  "round_even m k =
     (let q = m div 2 ^ k; r = m mod 2 ^ k
      in if 2 * r < 2 ^ k \<or> 2 * r = 2 ^ k \<and> even q then q else q + 1)"

definition float64_nat :: "nat \<Rightarrow> nat" where
  "float64_nat m = round_even m (excess_bits m) * 2 ^ excess_bits m"

definition float64_of_int :: "int \<Rightarrow> real" where
  "float64_of_int i = (if i < 0 then - real (float64_nat (nat (- i))) else real (float64_nat (nat i)))"

lemma float64_nat_exact: "m < 2 ^ 53 \<Longrightarrow> float64_nat m = m"
  by (simp add: float64_nat_def round_even_def excess_bits.simps [of m])

lemma excess_bits_quotient: "2 ^ 53 \<le> m \<Longrightarrow> 2 ^ 52 \<le> m div 2 ^ excess_bits m \<and> 0 < excess_bits m"
proof (induction m rule: excess_bits.induct)
  case (1 m)
  have step: "excess_bits m = Suc (excess_bits (m div 2))"
    using 1(2) by (simp add: excess_bits.simps [of m])
  show ?case
  proof (cases "m div 2 < 2 ^ 53")
    case True
    then have "excess_bits m = 1"
      by (simp add: step excess_bits.simps [of "m div 2"])
    then show ?thesis
      using 1(2) by simp
  next
    case False
    then have "2 ^ 52 \<le> m div 2 div 2 ^ excess_bits (m div 2)"
      using 1 by simp
    then show ?thesis
      by (simp add: step div_mult2_eq [symmetric])
  qed
qed

lemma float64_nat_large: "2 ^ 53 \<le> m \<Longrightarrow> 2 ^ 53 \<le> float64_nat m"
proof -
  assume "2 ^ 53 \<le> m"
  then obtain k where k: "excess_bits m = Suc k" and q: "2 ^ 52 \<le> m div 2 ^ excess_bits m"
    using excess_bits_quotient gr0_implies_Suc by blast
  have "m div 2 ^ excess_bits m \<le> round_even m (excess_bits m)"
    by (simp add: round_even_def Let_def)
  then have "2 ^ 52 * 2 ^ 1 \<le> round_even m (excess_bits m) * 2 ^ excess_bits m"
    using q k by (intro mult_le_mono) simp_all
  then show ?thesis
    by (simp add: float64_nat_def)
qed

text \<open>Against a whole number below \<open>2 ^ 53\<close> the conversion compares as the integer itself.\<close>

lemma float64_of_int_exact: "\<bar>i\<bar> < 2 ^ 53 \<Longrightarrow> float64_of_int i = of_int i"
  by (simp add: float64_of_int_def float64_nat_exact nat_less_iff)

lemma float64_of_int_large: "2 ^ 53 \<le> i \<Longrightarrow> 2 ^ 53 \<le> float64_of_int i" "i \<le> - (2 ^ 53) \<Longrightarrow> float64_of_int i \<le> - (2 ^ 53)"
proof -
  show "2 ^ 53 \<le> float64_of_int i" if "2 ^ 53 \<le> i"
    using that float64_nat_large [of "nat i"] by (simp add: float64_of_int_def le_nat_iff)
  show "float64_of_int i \<le> - (2 ^ 53)" if "i \<le> - (2 ^ 53)"
    using that float64_nat_large [of "nat (- i)"] by (simp add: float64_of_int_def le_nat_iff)
qed

lemma float64_compare:
  assumes "\<bar>i\<bar> < 2 ^ 53"
  shows "float64_of_int n = of_int i \<longleftrightarrow> n = i" "float64_of_int n < of_int i \<longleftrightarrow> n < i"
    "of_int i < float64_of_int n \<longleftrightarrow> i < n"
proof -
  have i: "of_int i < (2 ^ 53 :: real)" "- (2 ^ 53 :: real) < of_int i"
    using assms by simp_all
  consider "\<bar>n\<bar> < 2 ^ 53" | "2 ^ 53 \<le> n" | "n \<le> - (2 ^ 53)"
    by linarith
  then have "(float64_of_int n = of_int i \<longleftrightarrow> n = i) \<and> (float64_of_int n < of_int i \<longleftrightarrow> n < i) \<and>
      (of_int i < float64_of_int n \<longleftrightarrow> i < n)"
  proof cases
    case 1
    then show ?thesis
      by (simp add: float64_of_int_exact)
  next
    case 2
    then show ?thesis
      using float64_of_int_large(1) [of n] assms i by auto
  next
    case 3
    then show ?thesis
      using float64_of_int_large(2) [of n] assms i by auto
  qed
  then show "float64_of_int n = of_int i \<longleftrightarrow> n = i" "float64_of_int n < of_int i \<longleftrightarrow> n < i"
    "of_int i < float64_of_int n \<longleftrightarrow> i < n"
    by blast+
qed

section \<open>Evaluation (eval.go)\<close>

definition value_String :: "go_lib \<Rightarrow> hvalue \<Rightarrow> string" where
  "value_String L v = (if v_isNum v then format_float L (v_num v) else v_str v)"

definition asNumber :: "go_lib \<Rightarrow> hvalue \<Rightarrow> real option" where
  "asNumber L v = (if v_isNum v then Some (v_num v) else parse_float L (v_str v))"

definition hunt_toString :: "go_lib \<Rightarrow> any \<Rightarrow> string" where
  "hunt_toString L raw = (case raw of
       AStr s \<Rightarrow> s
     | AInt64 i \<Rightarrow> int_str i
     | ABool b \<Rightarrow> bool_str b
     | _ \<Rightarrow> sprint L raw)"

definition toNumber :: "go_lib \<Rightarrow> any \<Rightarrow> real option" where
  "toNumber L raw = (case raw of
       AInt64 i \<Rightarrow> Some (float64_of_int i)
     | AStr s \<Rightarrow> parse_float L s
     | _ \<Rightarrow> None)"

definition valueEquals :: "go_lib \<Rightarrow> any \<Rightarrow> hvalue \<Rightarrow> bool" where
  "valueEquals L raw v = (case raw of
       AInt64 i \<Rightarrow> (case asNumber L v of None \<Rightarrow> False | Some n \<Rightarrow> float64_of_int i = n)
     | ABool b \<Rightarrow> v_str v = bool_str b
     | AStr s \<Rightarrow> s = value_String L v
     | _ \<Rightarrow> False)"

definition numericCompare :: "go_lib \<Rightarrow> any \<Rightarrow> string \<Rightarrow> hvalue \<Rightarrow> bool" where
  "numericCompare L raw op v =
     (case toNumber L raw of
        None \<Rightarrow> False
      | Some left \<Rightarrow>
          (case asNumber L v of
             None \<Rightarrow> False
           | Some right \<Rightarrow>
               if op = ''>'' then left > right
               else if op = ''<'' then left < right
               else if op = ''>='' then left \<ge> right
               else if op = ''<='' then left \<le> right
               else False))"

fun in_values :: "go_lib \<Rightarrow> any \<Rightarrow> hvalue list \<Rightarrow> bool" where
  "in_values L raw [] = False"
| "in_values L raw (v # vs) = (if valueEquals L raw v then True else in_values L raw vs)"

fun hunt_eval :: "go_lib \<Rightarrow> expr \<Rightarrow> event \<Rightarrow> bool" where
  "hunt_eval L (AndExpr a b) e = (hunt_eval L a e \<and> hunt_eval L b e)"
| "hunt_eval L (OrExpr a b) e = (hunt_eval L a e \<or> hunt_eval L b e)"
| "hunt_eval L (NotExpr a) e = (\<not> hunt_eval L a e)"
| "hunt_eval L (Comparison field op v vs re) e =
     (case Field e field of
        None \<Rightarrow> False
      | Some raw \<Rightarrow>
          if op = ''=='' then valueEquals L raw v
          else if op = ''!='' then \<not> valueEquals L raw v
          else if op = ''contains'' then str_contains (hunt_toString L raw) (v_str v)
          else if op = ''startswith'' then has_prefix (hunt_toString L raw) (v_str v)
          else if op = ''endswith'' then has_suffix (hunt_toString L raw) (v_str v)
          else if op = ''=~'' then (case re of None \<Rightarrow> False | Some r \<Rightarrow> r (hunt_toString L raw))
          else if op = ''in'' then in_values L raw vs
          else if op = ''>'' \<or> op = ''<'' \<or> op = ''>='' \<or> op = ''<='' then numericCompare L raw op v
          else False)"

section \<open>Simple hunts (hunt.go)\<close>

definition scanCap :: int where
  "scanCap = 50000"

definition class_matches :: "classRef \<Rightarrow> event \<Rightarrow> bool" where
  "class_matches c e \<longleftrightarrow> cr_all c \<or> e_Action e = cr_action c"

definition opt_eval :: "go_lib \<Rightarrow> expr option \<Rightarrow> event \<Rightarrow> bool" where
  "opt_eval L f e = (case f of None \<Rightarrow> True | Some x \<Rightarrow> hunt_eval L x e)"

definition stage_matches :: "go_lib \<Rightarrow> hstage \<Rightarrow> event \<Rightarrow> bool" where
  "stage_matches L s e \<longleftrightarrow> class_matches (hs_class s) e \<and> opt_eval L (hs_filter s) e"

record hunt_result =
  hr_Events :: "event list"
  hr_Sequences :: "event list list option"

definition result_Count :: "hunt_result \<Rightarrow> nat" where
  "result_Count r = (case hr_Sequences r of Some ss \<Rightarrow> length ss | None \<Rightarrow> length (hr_Events r))"

definition Classes :: "string list" where
  "Classes = [''any'', ''event''] @ KnownActions"

definition filterEvents :: "go_lib \<Rightarrow> event list \<Rightarrow> expr option \<Rightarrow> event list" where
  "filterEvents L events f = (case f of None \<Rightarrow> events | Some x \<Rightarrow> filter (hunt_eval L x) events)"

fun run_pipes :: "go_lib \<Rightarrow> pipe list \<Rightarrow> event list \<Rightarrow> int \<Rightarrow> event list \<times> int" where
  "run_pipes L [] events limit = (events, limit)"
| "run_pipes L (p # ps) events limit =
     run_pipes L ps (filterEvents L events (pp_filter p)) (if pp_hasLimit p then pp_limit p else limit)"

definition runSimple :: "go_lib \<Rightarrow> (lake_query \<Rightarrow> string + event list) \<Rightarrow> simpleQuery \<Rightarrow> string + hunt_result" where
  "runSimple L Q q =
     (let storeQuery = any_query\<lparr>q_Limit := scanCap\<rparr>;
          storeQuery = (if \<not> cr_all (sq_class q) then storeQuery\<lparr>q_Action := cr_action (sq_class q)\<rparr> else storeQuery)
      in sum_bind (Q storeQuery) (\<lambda>events.
        case run_pipes L (sq_pipes q) (filterEvents L events (sq_filter q)) 0 of (events, limit) \<Rightarrow>
          Inr \<lparr>hr_Events = (if limit > 0 \<and> int (length events) > limit then take (nat limit) events else events),
               hr_Sequences = None\<rparr>))"

section \<open>Sequence hunts (hunt.go)\<close>

record partial =
  pt_events :: "event list"
  pt_stage :: nat
  pt_start :: go_time

fun group_loop :: "go_lib \<Rightarrow> string \<Rightarrow> event list \<Rightarrow> (string, event list) gomap \<Rightarrow> (string, event list) gomap" where
  "group_loop L by_field [] groups = groups"
| "group_loop L by_field (e # es) groups =
     (let add = (\<lambda>key. AList.update key ((case map_of groups key of None \<Rightarrow> [] | Some g \<Rightarrow> g) @ [e]) groups) in
      if by_field \<noteq> [] then
        (case Field e by_field of
           None \<Rightarrow> group_loop L by_field es groups
         | Some raw \<Rightarrow> group_loop L by_field es (add (hunt_toString L raw)))
      else group_loop L by_field es (add []))"

definition groupBy :: "go_lib \<Rightarrow> sequenceQuery \<Rightarrow> event list \<Rightarrow> (string, event list) gomap" where
  "groupBy L q events = group_loop L (sq_by q) events []"

definition expired :: "sequenceQuery \<Rightarrow> go_time \<Rightarrow> event \<Rightarrow> bool" where
  "expired q start e \<longleftrightarrow> sq_within q > 0 \<and> time_sub (e_Timestamp e) start > sq_within q"

fun advancePartials ::
    "go_lib \<Rightarrow> partial list \<Rightarrow> event \<Rightarrow> sequenceQuery \<Rightarrow> event list list \<Rightarrow> partial list \<times> event list list" where
  "advancePartials L [] e q done = ([], done)"
| "advancePartials L (p # ps) e q done =
     (if expired q (pt_start p) e then advancePartials L ps e q done
      else if \<not> stage_matches L (sq_stages q ! pt_stage p) e then
        (case advancePartials L ps e q done of (next, done) \<Rightarrow> (p # next, done))
      else
        let advanced = \<lparr>pt_events = pt_events p @ [e], pt_stage = pt_stage p + 1, pt_start = pt_start p\<rparr> in
        if pt_stage advanced = length (sq_stages q) then advancePartials L ps e q (done @ [pt_events advanced])
        else (case advancePartials L ps e q done of (next, done) \<Rightarrow> (advanced # next, done)))"

fun match_loop ::
    "go_lib \<Rightarrow> sequenceQuery \<Rightarrow> event list \<Rightarrow> partial list \<Rightarrow> event list list \<Rightarrow> event list list" where
  "match_loop L q [] open_ps done = done"
| "match_loop L q (e # es) open_ps done =
     (case advancePartials L open_ps e q done of (open_ps, done) \<Rightarrow>
        match_loop L q es
          (if stage_matches L (hd (sq_stages q)) e
           then open_ps @ [\<lparr>pt_events = [e], pt_stage = 1, pt_start = e_Timestamp e\<rparr>] else open_ps) done)"

definition matchSequences :: "go_lib \<Rightarrow> event list \<Rightarrow> sequenceQuery \<Rightarrow> event list list" where
  "matchSequences L grp q = match_loop L q grp [] []"

text \<open>\<open>ranged\<close> is the order in which the groups are visited. A nil slice of sequences is \<open>None\<close>.\<close>

definition runSequence ::
    "go_lib \<Rightarrow> ((string, event list) gomap \<Rightarrow> (string, event list) gomap) \<Rightarrow> (lake_query \<Rightarrow> string + event list) \<Rightarrow>
     sequenceQuery \<Rightarrow> string + hunt_result" where
  "runSequence L ranged Q q =
     sum_bind (Q (any_query\<lparr>q_Limit := scanCap, q_Ascending := True\<rparr>)) (\<lambda>events.
     let sequences = concat (map (\<lambda>(key, grp). matchSequences L grp q) (ranged (groupBy L q events))) in
     Inr \<lparr>hr_Events = [], hr_Sequences = (if sequences = [] then None else Some sequences)\<rparr>)"

definition hunt_Run ::
    "go_lib \<Rightarrow> ((string, event list) gomap \<Rightarrow> (string, event list) gomap) \<Rightarrow> (lake_query \<Rightarrow> string + event list) \<Rightarrow>
     hquery \<Rightarrow> string + hunt_result" where
  "hunt_Run L ranged Q q = (case q of Sequence _ s \<Rightarrow> runSequence L ranged Q s | Simple _ s \<Rightarrow> runSimple L Q s)"

section \<open>From hunt to rule (torule.go)\<close>

datatype ruleCond = RuleCond
  (rc_All: "ruleCond list") (rc_Any: "ruleCond list") (rc_Not: "ruleCond option")
  (rc_Field: string) (rc_Op: string) (rc_Value: any)

definition ruleOps :: "(string, string) gomap" where
  "ruleOps = [(''=='', ''eq''), (''!='', ''ne''), (''>'', ''gt''), (''<'', ''lt''), (''>='', ''ge''), (''<='', ''le''),
     (''=~'', ''regex''), (''contains'', ''contains''), (''startswith'', ''startswith''), (''endswith'', ''endswith''),
     (''in'', ''in'')]"

definition literal :: "hvalue \<Rightarrow> any" where
  "literal v =
     (if v_isNum v then
        (if v_num v = float64_of_int (float_to_int64 (v_num v)) then AInt64 (float_to_int64 (v_num v)) else AFloat (v_num v))
      else AStr (v_str v))"

text \<open>The two instances of \<^verbatim>\<open>flatten\<close>, for \<open>and\<close> and for \<open>or\<close>, next to \<^verbatim>\<open>toCond\<close>.\<close>

fun toCond :: "expr \<Rightarrow> ruleCond"
  and flatten_and :: "expr \<Rightarrow> ruleCond list"
  and flatten_or :: "expr \<Rightarrow> ruleCond list" where
  "toCond (AndExpr a b) = RuleCond (flatten_and a @ flatten_and b) [] None [] [] ANil"
| "toCond (OrExpr a b) = RuleCond [] (flatten_or a @ flatten_or b) None [] [] ANil"
| "toCond (NotExpr a) = RuleCond [] [] (Some (toCond a)) [] [] ANil"
| "toCond (Comparison f op v vs re) =
     RuleCond [] [] None f (case map_of ruleOps op of None \<Rightarrow> [] | Some o' \<Rightarrow> o')
       (if op = ''in'' then AList (map literal vs) else literal v)"
| "flatten_and (AndExpr a b) = flatten_and a @ flatten_and b"
| "flatten_and (OrExpr a b) = [toCond (OrExpr a b)]"
| "flatten_and (NotExpr a) = [toCond (NotExpr a)]"
| "flatten_and (Comparison f op v vs re) = [toCond (Comparison f op v vs re)]"
| "flatten_or (OrExpr a b) = flatten_or a @ flatten_or b"
| "flatten_or (AndExpr a b) = [toCond (AndExpr a b)]"
| "flatten_or (NotExpr a) = [toCond (NotExpr a)]"
| "flatten_or (Comparison f op v vs re) = [toCond (Comparison f op v vs re)]"

fun some_filters :: "pipe list \<Rightarrow> expr list" where
  "some_filters [] = []"
| "some_filters (p # ps) = (case pp_filter p of None \<Rightarrow> some_filters ps | Some x \<Rightarrow> x # some_filters ps)"

definition matchTree :: "simpleQuery \<Rightarrow> ruleCond" where
  "matchTree q =
     (let conds =
        (if \<not> cr_all (sq_class q) then [RuleCond [] [] None ''event.type'' ''eq'' (AStr (cr_action (sq_class q)))] else [])
        @ (case sq_filter q of None \<Rightarrow> [] | Some x \<Rightarrow> [toCond x])
        @ map toCond (some_filters (sq_pipes q))
      in case conds of
           [] \<Rightarrow> RuleCond [] [] None ''event.action'' ''exists'' ANil
         | [c] \<Rightarrow> c
         | _ \<Rightarrow> RuleCond conds [] None [] [] ANil)"

record ruleMeta =
  rm_ID :: string
  rm_Name :: string
  rm_Description :: string
  rm_Severity :: string
  rm_RiskScore :: int
  rm_Response :: string
  rm_Technique :: technique

record ruleDoc =
  rd_ID :: string
  rd_Name :: string
  rd_Description :: string
  rd_Severity :: string
  rd_RiskScore :: int
  rd_Response :: string
  rd_Technique :: technique
  rd_Match :: ruleCond

definition ToRule :: "hquery \<Rightarrow> ruleMeta \<Rightarrow> string + ruleDoc" where
  "ToRule q m =
     (case q of
        Sequence _ _ \<Rightarrow> Inl ''a sequence hunt cannot become a single rule; save its first stage or use correlation''
      | Simple _ s \<Rightarrow>
          if rm_ID m = [] \<or> rm_Name m = [] then Inl ''a rule needs an id and a name''
          else Inr \<lparr>rd_ID = rm_ID m, rd_Name = rm_Name m, rd_Description = rm_Description m,
            rd_Severity = rm_Severity m, rd_RiskScore = rm_RiskScore m, rd_Response = rm_Response m,
            rd_Technique = rm_Technique m, rd_Match = matchTree s\<rparr>)"

section \<open>Sequence hunts find what is there\<close>

text \<open>The chain an opening event completes: each stage takes the first event after the last one that matches it.\<close>

fun greedy :: "go_lib \<Rightarrow> sequenceQuery \<Rightarrow> go_time \<Rightarrow> hstage list \<Rightarrow> event list \<Rightarrow> event list option" where
  "greedy L q start [] es = Some []"
| "greedy L q start (s # ss) [] = None"
| "greedy L q start (s # ss) (e # es) =
     (if expired q start e then None
      else if stage_matches L s e then map_option (\<lambda>c. e # c) (greedy L q start ss es)
      else greedy L q start (s # ss) es)"

definition completes :: "go_lib \<Rightarrow> sequenceQuery \<Rightarrow> event list \<Rightarrow> partial \<Rightarrow> event list list" where
  "completes L q es p = (case greedy L q (pt_start p) (drop (pt_stage p) (sq_stages q)) es of
     None \<Rightarrow> [] | Some c \<Rightarrow> [pt_events p @ c])"

fun chains :: "go_lib \<Rightarrow> sequenceQuery \<Rightarrow> event list \<Rightarrow> event list list" where
  "chains L q [] = []"
| "chains L q (e # es) =
     (if stage_matches L (hd (sq_stages q)) e
      then completes L q es \<lparr>pt_events = [e], pt_stage = 1, pt_start = e_Timestamp e\<rparr> else []) @ chains L q es"

definition waiting :: "sequenceQuery \<Rightarrow> partial \<Rightarrow> bool" where
  "waiting q p \<longleftrightarrow> pt_stage p < length (sq_stages q)"

lemma completes_step:
  assumes "waiting q p"
  shows "completes L q (e # es) p =
    (if expired q (pt_start p) e then []
     else if \<not> stage_matches L (sq_stages q ! pt_stage p) e then completes L q es p
     else completes L q es \<lparr>pt_events = pt_events p @ [e], pt_stage = pt_stage p + 1, pt_start = pt_start p\<rparr>)"
proof -
  have "drop (pt_stage p) (sq_stages q) = sq_stages q ! pt_stage p # drop (pt_stage p + 1) (sq_stages q)"
    using assms by (simp add: waiting_def Cons_nth_drop_Suc)
  then show ?thesis
    by (auto simp: completes_def split: option.splits)
qed

lemma completes_done:
  "pt_stage p = length (sq_stages q) \<Longrightarrow> completes L q es p = [pt_events p]"
  by (simp add: completes_def)

lemma advancePartials_completes:
  assumes "list_all (waiting q) ps" "advancePartials L ps e q acc = (nx, acc')"
  shows "list_all (waiting q) nx \<and>
    mset acc' + mset (concat (map (completes L q es) nx)) = mset acc + mset (concat (map (completes L q (e # es)) ps))"
  using assms
proof (induction ps arbitrary: acc nx acc')
  case Nil
  then show ?case by simp
next
  case (Cons p ps)
  let ?adv = "\<lparr>pt_events = pt_events p @ [e], pt_stage = pt_stage p + 1, pt_start = pt_start p\<rparr>"
  have p: "waiting q p" and ps: "list_all (waiting q) ps"
    using Cons.prems(1) by simp_all
  consider (gone) "expired q (pt_start p) e"
    | (wait) "\<not> expired q (pt_start p) e" "\<not> stage_matches L (sq_stages q ! pt_stage p) e"
    | (last) "\<not> expired q (pt_start p) e" "stage_matches L (sq_stages q ! pt_stage p) e" "pt_stage ?adv = length (sq_stages q)"
    | (step) "\<not> expired q (pt_start p) e" "stage_matches L (sq_stages q ! pt_stage p) e" "pt_stage ?adv \<noteq> length (sq_stages q)"
    by blast
  then show ?case
  proof cases
    case gone
    then show ?thesis
      using Cons.prems(2) Cons.IH [OF ps] by (simp add: completes_step [OF p])
  next
    case wait
    then obtain n where "advancePartials L ps e q acc = (n, acc')" "nx = p # n"
      using Cons.prems(2) by (auto split: prod.splits)
    then show ?thesis
      using Cons.IH [OF ps] wait p by (simp add: completes_step [OF p])
  next
    case last
    then show ?thesis
      using Cons.prems(2) Cons.IH [OF ps] completes_done [OF last(3)] by (simp add: completes_step [OF p])
  next
    case step
    then obtain n where n: "advancePartials L ps e q acc = (n, acc')" "nx = ?adv # n"
      using Cons.prems(2) by (auto simp: Let_def split: prod.splits)
    have "waiting q ?adv"
      using step p by (simp add: waiting_def)
    then show ?thesis
      using Cons.IH [OF ps n(1)] step n(2) by (simp add: completes_step [OF p])
  qed
qed

lemma match_loop_chains:
  assumes "list_all (waiting q) ps" "1 < length (sq_stages q)"
  shows "mset (match_loop L q es ps acc) = mset acc + mset (concat (map (completes L q es) ps)) + mset (chains L q es)"
  using assms(1)
proof (induction es arbitrary: ps acc)
  case Nil
  have "concat (map (completes L q []) ps) = []" if "list_all (waiting q) ps" for ps
  proof -
    have "completes L q [] p = []" if "waiting q p" for p
      using that by (cases "drop (pt_stage p) (sq_stages q)") (simp_all add: completes_def waiting_def)
    then show ?thesis
      using that by (auto simp: list_all_iff)
  qed
  then show ?case using Nil by simp
next
  case (Cons e es)
  obtain nx acc' where a: "advancePartials L ps e q acc = (nx, acc')"
    by fastforce
  note adv = advancePartials_completes [OF Cons.prems a, of es]
  let ?new = "\<lparr>pt_events = [e], pt_stage = 1, pt_start = e_Timestamp e\<rparr>"
  have "waiting q ?new"
    using assms(2) by (simp add: waiting_def)
  then show ?case
    using adv Cons.IH [of "nx @ [?new]" acc'] Cons.IH [of nx acc'] by (simp add: a)
qed

lemma expired_mono: "expired q start e \<Longrightarrow> e_Timestamp e \<le> e_Timestamp e' \<Longrightarrow> expired q start e'"
  using time_sub_mono [of "e_Timestamp e" "e_Timestamp e'" start] by (auto simp: expired_def)

lemma greedy_sound:
  "greedy L q start ss es = Some c \<Longrightarrow>
     subseq c es \<and> list_all2 (stage_matches L) ss c \<and> list_all (\<lambda>e. \<not> expired q start e) c"
  by (induction L q start ss es arbitrary: c rule: greedy.induct) (auto split: if_splits)

lemma greedy_complete:
  "sorted (map e_Timestamp es) \<Longrightarrow> subseq c es \<Longrightarrow> list_all2 (stage_matches L) ss c \<Longrightarrow>
     list_all (\<lambda>e. \<not> expired q start e) c \<Longrightarrow> greedy L q start ss es \<noteq> None"
proof (induction L q start ss es arbitrary: c rule: greedy.induct)
  case (3 L q start s ss e es)
  obtain d ds where c: "c = d # ds" "stage_matches L s d" "list_all2 (stage_matches L) ss ds"
    using "3.prems"(3) by (auto simp: list_all2_Cons1)
  have "d \<in> set (e # es)"
    using list_emb_set [OF "3.prems"(2), of d] c by auto
  then have "e_Timestamp e \<le> e_Timestamp d"
    using "3.prems"(1) by auto
  then have fresh: "\<not> expired q start e"
    using expired_mono [of q start e d] "3.prems"(4) by (auto simp: c)
  show ?case
  proof (cases "stage_matches L s e")
    case True
    have "subseq ds es"
      using "3.prems"(2) unfolding c by (auto split: if_splits dest: subseq_Cons')
    then show ?thesis
      using "3.IH"(1) [OF fresh True, of ds] "3.prems" fresh True c by simp
  next
    case False
    then have "subseq c es"
      using "3.prems"(2) c by (auto split: if_splits)
    then show ?thesis
      using "3.IH"(2) [OF fresh False, of c] "3.prems" fresh False by simp
  qed
qed (auto simp: list_all2_Cons1)

definition valid_chain :: "go_lib \<Rightarrow> sequenceQuery \<Rightarrow> event list \<Rightarrow> event list \<Rightarrow> bool" where
  "valid_chain L q es c \<longleftrightarrow> subseq c es \<and> list_all2 (stage_matches L) (sq_stages q) c \<and>
     list_all (\<lambda>e. \<not> expired q (e_Timestamp (hd c)) e) (tl c)"

lemma chains_valid:
  assumes "sq_stages q \<noteq> []" "c \<in> set (chains L q es)"
  shows "valid_chain L q es c"
  using assms(2)
proof (induction es)
  case (Cons e es)
  show ?case
  proof (cases "c \<in> set (chains L q es)")
    case True
    then show ?thesis
      using Cons.IH by (auto simp: valid_chain_def)
  next
    case False
    then obtain d where d: "stage_matches L (hd (sq_stages q)) e" "c = e # d"
      "greedy L q (e_Timestamp e) (tl (sq_stages q)) es = Some d"
      using Cons.prems by (auto simp: completes_def drop_Suc split: if_splits option.splits)
    then show ?thesis
      using greedy_sound [OF d(3)] assms(1) by (cases "sq_stages q") (simp_all add: valid_chain_def)
  qed
qed simp

lemma valid_chains:
  assumes "sq_stages q \<noteq> []" "sorted (map e_Timestamp es)" "valid_chain L q es c"
  shows "\<exists>c' \<in> set (chains L q es). hd c' = hd c"
proof -
  obtain s ss where st: "sq_stages q = s # ss"
    using assms(1) by (cases "sq_stages q") auto
  obtain e d where c: "c = e # d" "stage_matches L s e" "list_all2 (stage_matches L) ss d" "subseq (e # d) es"
    "list_all (\<lambda>x. \<not> expired q (e_Timestamp e) x) d"
    using assms(3) by (auto simp: valid_chain_def st list_all2_Cons1)
  obtain pre post where es: "es = pre @ e # post" "subseq d post"
    using list_emb_ConsD [OF c(4)] by auto
  have "greedy L q (e_Timestamp e) ss post \<noteq> None"
    using assms(2) c es by (intro greedy_complete) (auto simp: sorted_append)
  then obtain d' where "greedy L q (e_Timestamp e) ss post = Some d'"
    by auto
  moreover have "set (chains L q (e # post)) \<subseteq> set (chains L q (pre @ e # post))"
    by (induction pre) auto
  ultimately have "e # d' \<in> set (chains L q es)"
    using c(2) by (auto simp: es(1) st completes_def)
  then show ?thesis
    using c(1) by force
qed

text \<open>
  C14. A sequence hunt is exact on its openings: over a time-ordered group, every chain it reports takes
  events of the group in order, one per stage, each matching its stage and none later than the window
  allows after the first; and for every such chain there is in the group, one with the same first event
  is reported.
\<close>

theorem matchSequences_correct:
  assumes "1 < length (sq_stages q)" "sorted (map e_Timestamp es)"
  shows "(\<forall>c \<in> set (matchSequences L es q). valid_chain L q es c) \<and>
    (\<forall>c. valid_chain L q es c \<longrightarrow> (\<exists>c' \<in> set (matchSequences L es q). hd c' = hd c))"
proof -
  have "mset (matchSequences L es q) = mset (chains L q es)"
    using match_loop_chains [of q "[]" L es "[]"] assms(1) by (simp add: matchSequences_def)
  then have "set (matchSequences L es q) = set (chains L q es)"
    by (metis set_mset_mset)
  moreover have "sq_stages q \<noteq> []"
    using assms(1) by auto
  ultimately show ?thesis
    using chains_valid valid_chains assms(2) by blast
qed

definition sample_sequence :: sequenceQuery where
  "sample_sequence = \<lparr>sq_by = [], sq_within = 0,
     sq_stages = [\<lparr>hs_class = \<lparr>cr_action = ''exec'', cr_all = False\<rparr>, hs_filter = None\<rparr>,
                  \<lparr>hs_class = \<lparr>cr_action = ''connect'', cr_all = False\<rparr>, hs_filter = None\<rparr>]\<rparr>"

definition acting :: "string \<Rightarrow> event" where
  "acting a = zero_event\<lparr>e_Action := a\<rparr>"

theorem matchSequences_correct_witness:
  "\<exists>c \<in> set (matchSequences literal_lib [acting ''exec'', acting ''connect''] sample_sequence). hd c = acting ''exec''"
proof -
  let ?es = "[acting ''exec'', acting ''connect'']"
  have "1 < length (sq_stages sample_sequence)" "sorted (map e_Timestamp ?es)"
    by (simp_all add: sample_sequence_def acting_def)
  note correct = matchSequences_correct [OF this, of literal_lib]
  have "valid_chain literal_lib sample_sequence ?es ?es"
    by (simp add: valid_chain_def sample_sequence_def stage_matches_def class_matches_def opt_eval_def acting_def expired_def)
  then show ?thesis
    using correct by force
qed

section \<open>Simple hunts find what is there\<close>

text \<open>What a simple hunt selects, whatever its limit.\<close>

definition selects :: "go_lib \<Rightarrow> simpleQuery \<Rightarrow> event \<Rightarrow> bool" where
  "selects L q e \<longleftrightarrow> class_matches (sq_class q) e \<and> opt_eval L (sq_filter q) e \<and>
     list_all (\<lambda>p. opt_eval L (pp_filter p) e) (sq_pipes q)"

lemma filterEvents_eq: "filterEvents L es f = filter (opt_eval L f) es"
  by (cases f) (simp_all add: filterEvents_def opt_eval_def [abs_def])

lemma run_pipes_events: "fst (run_pipes L ps es n) = filter (\<lambda>e. list_all (\<lambda>p. opt_eval L (pp_filter p) e) ps) es"
  by (induction ps arbitrary: es n) (simp_all add: filterEvents_eq)

fun last_limit :: "pipe list \<Rightarrow> int \<Rightarrow> int" where
  "last_limit [] n = n"
| "last_limit (p # ps) n = last_limit ps (if pp_hasLimit p then pp_limit p else n)"

lemma run_pipes_limit: "snd (run_pipes L ps es n) = last_limit ps n"
  by (induction ps arbitrary: es n) simp_all

text \<open>The query a simple hunt puts to the lake.\<close>

definition lake_query_of :: "classRef \<Rightarrow> lake_query" where
  "lake_query_of c = (if \<not> cr_all c then any_query\<lparr>q_Limit := scanCap, q_Action := cr_action c\<rparr> else any_query\<lparr>q_Limit := scanCap\<rparr>)"

lemma lake_query_of_matches:
  "cr_all c \<or> cr_action c \<noteq> [] \<Longrightarrow> query_matches (lake_query_of c) e \<longleftrightarrow> class_matches c e"
  by (auto simp: query_matches_iff lake_query_of_def any_query_def class_matches_def is_zero_def)

lemma lake_query_of_limit: "query_limit (lake_query_of c) = scanCap"
  by (simp add: lake_query_of_def query_limit_def scanCap_def)

lemma runSimple_eq:
  assumes "Q (lake_query_of (sq_class hq)) = Inr es"
  shows "runSimple L Q hq = Inr \<lparr>hr_Events = (let kept = filter (\<lambda>e. opt_eval L (sq_filter hq) e \<and>
      list_all (\<lambda>p. opt_eval L (pp_filter p) e) (sq_pipes hq)) es; n = last_limit (sq_pipes hq) 0 in
      if n > 0 then take (nat n) kept else kept), hr_Sequences = None\<rparr>"
proof -
  have "(if \<not> cr_all c then any_query\<lparr>q_Limit := scanCap\<rparr>\<lparr>q_Action := cr_action c\<rparr> else any_query\<lparr>q_Limit := scanCap\<rparr>) = lake_query_of c" for c
    by (simp add: lake_query_of_def)
  then show ?thesis
    using assms
    by (simp add: runSimple_def case_prod_beta run_pipes_events run_pipes_limit filterEvents_eq filter_filter conj_commute Let_def)
qed

context event_lake
begin

lemma simple_hunt:
  assumes "cr_all (sq_class hq) \<or> cr_action (sq_class hq) \<noteq> []"
    and "int (length (filter (class_matches (sq_class hq)) (held s))) \<le> scanCap"
  shows "\<exists>all. mset all = mset (filter (selects L hq) (held s)) \<and>
    runSimple L (\<lambda>q. run_query None q s) hq = Inr \<lparr>hr_Events = (if last_limit (sq_pipes hq) 0 > 0
      then take (nat (last_limit (sq_pipes hq) 0)) all else all), hr_Sequences = None\<rparr>"
proof -
  let ?q = "lake_query_of (sq_class hq)"
  let ?P = "\<lambda>e. opt_eval L (sq_filter hq) e \<and> list_all (\<lambda>p. opt_eval L (pp_filter p) e) (sq_pipes hq)"
  obtain es where es: "run_query None ?q s = Inr es"
    using query_ok by blast
  have m: "query_matches ?q = class_matches (sq_class hq)"
    using lake_query_of_matches [OF assms(1)] by blast
  have "mset es = filter_mset (query_matches ?q) (mset (held s))"
    by (rule query_complete [OF es]) (use assms(2) in \<open>simp add: m lake_query_of_limit\<close>)
  then have "mset (filter ?P es) = mset (filter (selects L hq) (held s))"
    by (simp add: m selects_def [abs_def] filter_filter_mset conj_commute)
  then show ?thesis
    using runSimple_eq [of "\<lambda>q. run_query None q s" hq es L] es by (intro exI [of _ "filter ?P es"]) (simp add: Let_def)
qed

end

text \<open>
  A simple hunt finds every event it asks for: on an in-memory lake with at most 50000 events of its
  class, the result is exactly the stored events of that class that satisfy the filter and every pipe,
  each as often as it is stored, cut to the last limit of the pipes if that is positive.
\<close>

theorem simple_hunt_correct:
  assumes "cr_all (sq_class hq) \<or> cr_action (sq_class hq) \<noteq> []"
    and "int (length (filter (class_matches (sq_class hq)) (lm_events m))) \<le> scanCap"
  shows "\<exists>all. mset all = mset (filter (selects L hq) (lm_events m)) \<and>
    hunt_Run L ranged (\<lambda>q. lake_Query None q m) (Simple src hq) = Inr \<lparr>hr_Events = (if last_limit (sq_pipes hq) 0 > 0
      then take (nat (last_limit (sq_pipes hq) 0)) all else all), hr_Sequences = None\<rparr>"
  using mlake.simple_hunt [OF assms, of L] by (simp add: hunt_Run_def)

theorem simple_hunt_correct_witness:
  "\<exists>all. mset all = {#acting ''exec''#} \<and>
    hunt_Run literal_lib id (\<lambda>q. lake_Query None q \<lparr>lm_events = [acting ''exec'', acting ''open'']\<rparr>)
      (Simple [] \<lparr>sq_class = \<lparr>cr_action = ''exec'', cr_all = False\<rparr>, sq_filter = None, sq_pipes = []\<rparr>) =
      Inr \<lparr>hr_Events = all, hr_Sequences = None\<rparr>"
  using simple_hunt_correct [of "\<lparr>sq_class = \<lparr>cr_action = ''exec'', cr_all = False\<rparr>, sq_filter = None, sq_pipes = []\<rparr>"
      "\<lparr>lm_events = [acting ''exec'', acting ''open'']\<rparr>" literal_lib id "[]"]
  by (simp add: class_matches_def acting_def scanCap_def selects_def opt_eval_def)

end
