(* ===== verification/Hunt_Rule.thy ===== *)
theory Hunt_Rule
  imports Hunt
begin

text \<open>
  A hunt and the rule made of it, \<^verbatim>\<open>internal/hunt/torule.go\<close> against \<^verbatim>\<open>internal/detect\<close>: on a fragment of the
  language the rule fires on exactly the events the hunt selects; outside it the two disagree, most
  visibly on \<open>!=\<close> of an absent field, and on whole numbers a \<^verbatim>\<open>float64\<close> cannot hold. The YAML library that
  encodes the rule and decodes it again is a parameter.
\<close>

section \<open>The condition the rule loader decodes\<close>

text \<open>
  What the YAML library is relied on for: a condition whose operands are text, lists of text, whole
  numbers or nothing comes back with its shape and its operands, a whole number as an \<^verbatim>\<open>int\<close>. The
  parameter \<open>reload\<close> is the encoding followed by the rule loader's decoding; nothing is assumed of it
  on other conditions.
\<close>

fun yaml_any :: "any \<Rightarrow> any" where
  "yaml_any (AInt64 i) = AInt i"
| "yaml_any (AList vs) = AList (map yaml_any vs)"
| "yaml_any v = v"

fun yaml_cond :: "ruleCond \<Rightarrow> condition" where
  "yaml_cond (RuleCond alls anys inner f op v) =
     Condition (map (\<lambda>c. Some (yaml_cond c)) alls) (map (\<lambda>c. Some (yaml_cond c)) anys)
       (case inner of None \<Rightarrow> None | Some c \<Rightarrow> Some (yaml_cond c)) f op (yaml_any v)"






section \<open>The fragment\<close>






section \<open>Leaves agree\<close>

lemma known_nonempty: "KnownField f \<Longrightarrow> f \<noteq> []"
  by (auto simp: KnownField_def fieldAccessors_def)








section \<open>Trees agree\<close>





section \<open>The rule of a hunt\<close>
















text \<open>
  The rule of a hunt for a number that needs more than 53 bits does not find what the hunt found: the
  hunt compares as \<^verbatim>\<open>float64\<close>, where neighbouring integers coincide, and the rule compares integers.
\<close>

definition big_value :: hvalue where
  "big_value = zero_value\<lparr>v_isNum := True, v_num := 2 ^ 53\<rparr>"

lemma float64_tie: "float64_of_int (2 ^ 53 + 1) = 2 ^ 53" "float64_of_int (2 ^ 53) = 2 ^ 53"
  by (simp_all add: float64_of_int_def float64_nat_def round_even_def excess_bits.simps)

theorem large_number_diverges:
  assumes "Field e ''syscall.request'' = Some (AInt64 (2 ^ 53 + 1))"
  shows "hunt_eval L (Comparison ''syscall.request'' ''=='' big_value vs re) e \<and>
    (\<exists>p. Compile L (yaml_cond (toCond (Comparison ''syscall.request'' ''=='' big_value vs re))) = Inr p \<and> \<not> p e)"
proof -
  have "float_to_int64 (2 ^ 53) = 2 ^ 53"
    using float_to_int64_of_int [of "2 ^ 53"] by (simp add: in_int64_def int64_min_def int64_max_def)
  then have lit: "literal big_value = AInt64 (2 ^ 53)"
    using float64_tie(2) by (simp add: literal_def big_value_def)
  have f: "KnownField ''syscall.request''"
    by (simp add: KnownField_def fieldAccessors_def)
  have "Compile L (yaml_cond (toCond (Comparison ''syscall.request'' ''=='' big_value vs re))) =
      Inr (equality L ''syscall.request'' (AInt (2 ^ 53)) False)"
    by (simp add: ruleOps_def classify_def compileLeaf_def f lit del: power_numeral)
  moreover have "hunt_eval L (Comparison ''syscall.request'' ''=='' big_value vs re) e"
    using assms float64_tie(1) by (simp add: valueEquals_def asNumber_def big_value_def)
  moreover have "\<not> equality L ''syscall.request'' (AInt (2 ^ 53)) False e"
    using assms by (simp add: equality_def valuesEqual_def toInt64_def)
  ultimately show ?thesis
    by blast
qed

theorem large_number_diverges_witness:
  "\<exists>p. Compile literal_lib (yaml_cond (toCond (Comparison ''syscall.request'' ''=='' big_value [] None))) = Inr p \<and>
     \<not> p (zero_event\<lparr>e_Syscall := zero_syscall\<lparr>s_Request := 2 ^ 53 + 1\<rparr>\<rparr>)"
proof -
  have "Field (zero_event\<lparr>e_Syscall := zero_syscall\<lparr>s_Request := 2 ^ 53 + 1\<rparr>\<rparr>) ''syscall.request'' = Some (AInt64 (2 ^ 53 + 1))"
    by (simp add: Field_def fieldAccessors_def)
  from large_number_diverges [OF this, of literal_lib "[]" None] show ?thesis
    by blast
qed

text \<open>
  The rule of a hunt with \<open>!=\<close> fires on events the hunt did not find: where the field is absent the
  hunt's comparison is false, and the rule's \<open>ne\<close> is true.
\<close>

theorem not_equal_diverges:
  assumes "Field e f = None" "KnownField f"
  shows "\<not> hunt_eval L (Comparison f ''!='' v vs re) e \<and>
    (\<exists>p. Compile L (yaml_cond (toCond (Comparison f ''!='' v vs re))) = Inr p \<and> p e)"
proof -
  have f: "f \<noteq> []"
    using assms(2) known_nonempty by blast
  have "Compile L (yaml_cond (toCond (Comparison f ''!='' v vs re))) = Inr (equality L f (yaml_any (literal v)) True)"
    by (simp add: ruleOps_def classify_def f compileLeaf_def assms(2))
  then show ?thesis
    using assms(1) by (simp add: equality_def)
qed

theorem not_equal_diverges_witness:
  "\<exists>p. Compile literal_lib (yaml_cond (toCond (Comparison ''user.name'' ''!='' (zero_value\<lparr>v_str := ''root''\<rparr>) [] None))) = Inr p \<and>
     p zero_event"
proof -
  have "Field zero_event ''user.name'' = None" "KnownField ''user.name''"
    by (simp_all add: Field_def fieldAccessors_def str_present_def zero_event_def zero_user_def KnownField_def)
  from not_equal_diverges [OF this, of literal_lib] show ?thesis
    by blast
qed

end
