(* ===== verification/Fleet_Store.thy ===== *)
theory Fleet_Store
  imports Argus_Prelude
begin

text \<open>
  The state backend of the control plane: \<^verbatim>\<open>server/store/store.go\<close> (agents, alert records, commands,
  filters) and the in-memory store of \<^verbatim>\<open>server/store/memory.go\<close>. Each operation runs under the store's lock,
  so a concurrent use is a sequence of operations. The clock and the sixteen random bytes behind a new
  identifier are arguments. The SQLite store of \<^verbatim>\<open>server/store/sqlite.go\<close> builds SQL for a database engine
  and is not modelled.
\<close>

section \<open>Agents, alert records and commands (store.go)\<close>

record agent =
  ag_ID :: string
  ag_Hostname :: string
  ag_Version :: string
  ag_Kernel :: string
  ag_CertFingerprint :: string
  ag_PendingCertFingerprint :: string
  ag_FirstSeen :: go_time
  ag_LastSeen :: go_time
  ag_EventsProcessed :: uint64
  ag_Alerts :: uint64
  ag_Incidents :: uint64
  ag_RulesVersion :: string

definition Online :: "agent \<Rightarrow> go_time \<Rightarrow> duration \<Rightarrow> bool" where
  "Online a now ttl \<longleftrightarrow> time_sub now (ag_LastSeen a) \<le> ttl"

record agent_stats =
  as_EventsProcessed :: uint64
  as_Alerts :: uint64
  as_Incidents :: uint64
  as_RulesVersion :: string

record alertRecord =
  ar_ID :: string
  ar_AgentID :: string
  ar_Hostname :: string
  ar_Time :: go_time
  ar_RuleID :: string
  ar_RuleName :: string
  ar_Severity :: string
  ar_TechniqueID :: string
  ar_TechniqueName :: string
  ar_PID :: uint32
  ar_ProcessName :: string
  ar_ProcessExecutable :: string
  ar_DestinationIP :: string
  ar_RiskScore :: int
  ar_IsIncident :: bool

record command =
  cmd_Kind :: string
  cmd_Argument :: string

record alertFilter =
  af_Hostname :: string
  af_Severity :: string
  af_TechniqueID :: string
  af_Since :: go_time
  af_Until :: go_time
  af_IncidentsOnly :: bool
  af_Limit :: int

definition filter_matches :: "alertFilter \<Rightarrow> alertRecord \<Rightarrow> bool" where
  "filter_matches f r =
     (if af_Hostname f \<noteq> [] \<and> ar_Hostname r \<noteq> af_Hostname f then False
      else if af_Severity f \<noteq> [] \<and> ar_Severity r \<noteq> af_Severity f then False
      else if af_TechniqueID f \<noteq> [] \<and> ar_TechniqueID r \<noteq> af_TechniqueID f then False
      else if af_IncidentsOnly f \<and> \<not> ar_IsIncident r then False
      else if \<not> is_zero (af_Since f) \<and> ar_Time r < af_Since f then False
      else if \<not> is_zero (af_Until f) \<and> ar_Time r > af_Until f then False
      else True)"

text \<open>\<open>NewID\<close> encodes the sixteen bytes it reads from the random source, here the bytes of a 128-bit word.\<close>

type_synonym random_id = "128 word"

definition id_bytes :: "random_id \<Rightarrow> uint8 list" where
  "id_bytes w = map (\<lambda>i. ucast (drop_bit (8 * i) w)) (rev [0..<16])"

definition NewID :: "random_id \<Rightarrow> string" where
  "NewID w = hex_encode (id_bytes w)"

section \<open>The in-memory store (memory.go)\<close>

definition maxRetainedAlerts :: nat where
  "maxRetainedAlerts = 1000"

record fleet_store =
  fs_agents :: "(string, agent) gomap"
  fs_alerts :: "alertRecord list"
  fs_commands :: "(string, command list) gomap"

definition new_fleet_store :: fleet_store where
  "new_fleet_store = \<lparr>fs_agents = [], fs_alerts = [], fs_commands = []\<rparr>"

text \<open>
  \<open>Open\<close> chooses the backend by name. Opening a database is the argument \<open>open_sqlite\<close>, and a store is
  either of the two.
\<close>

datatype open_error = NeedsDSN string | UnknownStore string | OpenFailed string

definition store_Open :: "(string \<Rightarrow> string + 's) \<Rightarrow> string \<Rightarrow> string \<Rightarrow> open_error + (fleet_store + 's)" where
  "store_Open open_sqlite kind dsn =
     (if kind = ''memory'' \<or> kind = [] then Inr (Inl new_fleet_store)
      else if kind = ''sqlite'' then
        (if dsn = [] then Inl (NeedsDSN kind)
         else case open_sqlite dsn of Inl err \<Rightarrow> Inl (OpenFailed err) | Inr s \<Rightarrow> Inr (Inr s))
      else Inl (UnknownStore kind))"

definition store_Enroll ::
  "random_id \<Rightarrow> go_time \<Rightarrow> string \<Rightarrow> string \<Rightarrow> string \<Rightarrow> string \<Rightarrow> fleet_store \<Rightarrow> agent \<times> fleet_store" where
  "store_Enroll rnd now hostname version krnl certFingerprint m =
     (let agent = \<lparr>ag_ID = NewID rnd, ag_Hostname = hostname, ag_Version = version, ag_Kernel = krnl,
            ag_CertFingerprint = certFingerprint, ag_PendingCertFingerprint = [], ag_FirstSeen = now,
            ag_LastSeen = now, ag_EventsProcessed = 0, ag_Alerts = 0, ag_Incidents = 0, ag_RulesVersion = []\<rparr>
      in (agent, m\<lparr>fs_agents := AList.update (ag_ID agent) agent (fs_agents m)\<rparr>))"

definition store_Heartbeat ::
  "go_time \<Rightarrow> string \<Rightarrow> agent_stats \<Rightarrow> fleet_store \<Rightarrow> agent option \<times> fleet_store" where
  "store_Heartbeat now agentID stats m =
     (case map_of (fs_agents m) agentID of
        None \<Rightarrow> (None, m)
      | Some agent \<Rightarrow>
          let agent = agent\<lparr>ag_LastSeen := now, ag_EventsProcessed := as_EventsProcessed stats,
                ag_Alerts := as_Alerts stats, ag_Incidents := as_Incidents stats,
                ag_RulesVersion := as_RulesVersion stats\<rparr>
          in (Some agent, m\<lparr>fs_agents := AList.update agentID agent (fs_agents m)\<rparr>))"

definition store_Get :: "string \<Rightarrow> fleet_store \<Rightarrow> agent option" where
  "store_Get agentID m = map_of (fs_agents m) agentID"

definition SetPendingCert :: "string \<Rightarrow> string \<Rightarrow> fleet_store \<Rightarrow> bool \<times> fleet_store" where
  "SetPendingCert agentID fingerprint m =
     (case map_of (fs_agents m) agentID of
        None \<Rightarrow> (False, m)
      | Some agent \<Rightarrow>
          (True, m\<lparr>fs_agents := AList.update agentID (agent\<lparr>ag_PendingCertFingerprint := fingerprint\<rparr>) (fs_agents m)\<rparr>))"

definition PromoteCert :: "string \<Rightarrow> string \<Rightarrow> fleet_store \<Rightarrow> bool \<times> fleet_store" where
  "PromoteCert agentID fingerprint m =
     (case map_of (fs_agents m) agentID of
        None \<Rightarrow> (False, m)
      | Some agent \<Rightarrow>
          if ag_PendingCertFingerprint agent = [] \<or> ag_PendingCertFingerprint agent \<noteq> fingerprint then (False, m)
          else (True, m\<lparr>fs_agents := AList.update agentID
            (agent\<lparr>ag_CertFingerprint := fingerprint, ag_PendingCertFingerprint := []\<rparr>) (fs_agents m)\<rparr>))"

text \<open>The order in which \<open>List\<close> ranges over the map is not specified by the language; the model's is one order.\<close>

definition store_List :: "fleet_store \<Rightarrow> agent list" where
  "store_List m = map snd (fs_agents m)"

definition RecordAlert :: "random_id \<Rightarrow> alertRecord \<Rightarrow> fleet_store \<Rightarrow> fleet_store" where
  "RecordAlert rnd r m =
     (let r = (if ar_ID r = [] then r\<lparr>ar_ID := NewID rnd\<rparr> else r)
      in m\<lparr>fs_alerts := keep_last maxRetainedAlerts (fs_alerts m @ [r])\<rparr>)"

text \<open>The loop of \<open>QueryAlerts\<close> walks the alerts from the last; \<open>out\<close> is what it has appended so far.\<close>

fun query_loop :: "alertFilter \<Rightarrow> alertRecord list \<Rightarrow> alertRecord list \<Rightarrow> alertRecord list" where
  "query_loop f [] out = out"
| "query_loop f (r # rs) out =
     (if af_Limit f > 0 \<and> int (length out) \<ge> af_Limit f then out
      else query_loop f rs (if filter_matches f r then out @ [r] else out))"

definition QueryAlerts :: "alertFilter \<Rightarrow> fleet_store \<Rightarrow> alertRecord list" where
  "QueryAlerts f m = query_loop f (rev (fs_alerts m)) []"

definition any_alert :: alertFilter where
  "any_alert = \<lparr>af_Hostname = [], af_Severity = [], af_TechniqueID = [], af_Since = zero_time,
     af_Until = zero_time, af_IncidentsOnly = False, af_Limit = 0\<rparr>"

definition RecentAlerts :: "int \<Rightarrow> fleet_store \<Rightarrow> alertRecord list" where
  "RecentAlerts limit m = QueryAlerts (any_alert\<lparr>af_Limit := limit\<rparr>) m"

definition AlertByID :: "string \<Rightarrow> fleet_store \<Rightarrow> alertRecord option" where
  "AlertByID i m = List.find (\<lambda>r. ar_ID r = i) (rev (fs_alerts m))"

fun prune_alerts_loop :: "go_time \<Rightarrow> alertRecord list \<Rightarrow> alertRecord list \<times> int" where
  "prune_alerts_loop before [] = ([], 0)"
| "prune_alerts_loop before (r # rs) =
     (case prune_alerts_loop before rs of (kept, removed) \<Rightarrow>
        if ar_Time r < before then (kept, removed + 1) else (r # kept, removed))"

definition PruneAlerts :: "go_time \<Rightarrow> fleet_store \<Rightarrow> int \<times> fleet_store" where
  "PruneAlerts before m =
     (case prune_alerts_loop before (fs_alerts m) of (kept, removed) \<Rightarrow> (removed, m\<lparr>fs_alerts := kept\<rparr>))"

text \<open>Reading a missing key of the command map gives the empty queue.\<close>

definition queue_of :: "string \<Rightarrow> fleet_store \<Rightarrow> command list" where
  "queue_of agentID m = (case map_of (fs_commands m) agentID of None \<Rightarrow> [] | Some cs \<Rightarrow> cs)"

definition EnqueueCommand :: "string \<Rightarrow> command \<Rightarrow> fleet_store \<Rightarrow> bool \<times> fleet_store" where
  "EnqueueCommand agentID cmd m =
     (case map_of (fs_agents m) agentID of
        None \<Rightarrow> (False, m)
      | Some _ \<Rightarrow> (True, m\<lparr>fs_commands := AList.update agentID (queue_of agentID m @ [cmd]) (fs_commands m)\<rparr>))"

definition DrainCommands :: "string \<Rightarrow> fleet_store \<Rightarrow> command list \<times> fleet_store" where
  "DrainCommands agentID m = (queue_of agentID m, m\<lparr>fs_commands := AList.delete agentID (fs_commands m)\<rparr>)"

section \<open>The well-formed stores\<close>

text \<open>
  What every store that was built by these operations has: maps with distinct keys, agents filed under
  their identifier, at most the retained number of alerts, each with an identifier, and command queues that
  belong to agents and are not empty.
\<close>

definition store_wf :: "fleet_store \<Rightarrow> bool" where
  "store_wf m \<longleftrightarrow>
     wf_map (fs_agents m) \<and> (\<forall>i a. map_of (fs_agents m) i = Some a \<longrightarrow> ag_ID a = i) \<and>
     length (fs_alerts m) \<le> maxRetainedAlerts \<and> (\<forall>r \<in> set (fs_alerts m). ar_ID r \<noteq> []) \<and>
     wf_map (fs_commands m) \<and>
     (\<forall>i cs. map_of (fs_commands m) i = Some cs \<longrightarrow> cs \<noteq> [] \<and> map_of (fs_agents m) i \<noteq> None)"

text \<open>The operations that change the store, as the transitions of one machine.\<close>

datatype store_op =
    SEnroll random_id go_time string string string string
  | SHeartbeat go_time string agent_stats
  | SSetPending string string
  | SPromote string string
  | SRecord random_id alertRecord
  | SPrune go_time
  | SEnqueue string command
  | SDrain string

primrec store_step :: "store_op \<Rightarrow> fleet_store \<Rightarrow> fleet_store" where
  "store_step (SEnroll rnd now h v k fp) m = snd (store_Enroll rnd now h v k fp m)"
| "store_step (SHeartbeat now i st) m = snd (store_Heartbeat now i st m)"
| "store_step (SSetPending i fp) m = snd (SetPendingCert i fp m)"
| "store_step (SPromote i fp) m = snd (PromoteCert i fp m)"
| "store_step (SRecord rnd r) m = RecordAlert rnd r m"
| "store_step (SPrune before) m = snd (PruneAlerts before m)"
| "store_step (SEnqueue i c) m = snd (EnqueueCommand i c m)"
| "store_step (SDrain i) m = snd (DrainCommands i m)"

lemmas store_ops = store_Enroll_def store_Heartbeat_def SetPendingCert_def PromoteCert_def RecordAlert_def
  EnqueueCommand_def DrainCommands_def Let_def

lemma length_NewID [simp]: "length (NewID w) = 32"
  by (simp add: NewID_def hex_encode_def hex_byte_def id_bytes_def length_concat comp_def sum_list_triv)

lemma NewID_nonempty [simp]: "NewID w \<noteq> []"
  by (metis length_NewID list.size(3) zero_neq_numeral)

lemma prune_alerts_loop_eq:
  "prune_alerts_loop before rs =
     (filter (\<lambda>r. \<not> ar_Time r < before) rs, int (length (filter (\<lambda>r. ar_Time r < before) rs)))"
  by (induction rs) auto

lemma PruneAlerts_eq:
  "PruneAlerts before m =
     (int (length (filter (\<lambda>r. ar_Time r < before) (fs_alerts m))),
      m\<lparr>fs_alerts := filter (\<lambda>r. \<not> ar_Time r < before) (fs_alerts m)\<rparr>)"
  by (simp add: PruneAlerts_def prune_alerts_loop_eq)

lemma set_keep_last: "x \<in> set (keep_last n xs) \<Longrightarrow> x \<in> set xs"
  by (auto simp: keep_last_def dest: in_set_dropD split: if_splits)

text \<open>Storing an agent under its own identifier keeps a store well-formed, and so does every operation.\<close>

lemma store_wf_agents:
  assumes "store_wf m" and "ag_ID a = i"
  shows "store_wf (m\<lparr>fs_agents := AList.update i a (fs_agents m)\<rparr>)"
  using assms by (auto simp: store_wf_def)

lemma store_wf_commands:
  assumes "store_wf m" and "map_of (fs_agents m) i \<noteq> None" and "cs \<noteq> []"
  shows "store_wf (m\<lparr>fs_commands := AList.update i cs (fs_commands m)\<rparr>)"
  using assms by (auto simp: store_wf_def simp del: map_of_eq_Some_iff)

lemma store_wf_step: "store_wf m \<Longrightarrow> store_wf (store_step op m)"
proof (cases op)
  case (SRecord rnd r)
  assume "store_wf m"
  then show ?thesis
    using SRecord by (auto simp: store_wf_def RecordAlert_def Let_def dest!: set_keep_last)
next
  case (SPrune before)
  assume "store_wf m"
  moreover have "length (filter P rs) \<le> n" if "length rs \<le> n" for P n and rs :: "alertRecord list"
    using that length_filter_le [of P rs] by linarith
  ultimately show ?thesis
    using SPrune by (auto simp: store_wf_def PruneAlerts_eq)
next
  case (SDrain i)
  assume "store_wf m"
  then show ?thesis using SDrain by (auto simp: store_wf_def DrainCommands_def)
next
  case (SEnqueue i c)
  assume "store_wf m"
  then show ?thesis using SEnqueue by (auto simp: EnqueueCommand_def store_wf_commands split: option.splits)
next
  case (SHeartbeat now i st)
  assume m: "store_wf m"
  show ?thesis
  proof (cases "map_of (fs_agents m) i")
    case (Some a)
    then have "ag_ID a = i" using m by (simp add: store_wf_def)
    then show ?thesis using SHeartbeat Some m by (simp add: store_Heartbeat_def Let_def store_wf_agents)
  qed (use SHeartbeat m in \<open>simp add: store_Heartbeat_def\<close>)
next
  case (SSetPending i fp)
  assume m: "store_wf m"
  show ?thesis
  proof (cases "map_of (fs_agents m) i")
    case (Some a)
    then have "ag_ID a = i" using m by (simp add: store_wf_def)
    then show ?thesis using SSetPending Some m by (simp add: SetPendingCert_def store_wf_agents)
  qed (use SSetPending m in \<open>simp add: SetPendingCert_def\<close>)
next
  case (SPromote i fp)
  assume m: "store_wf m"
  show ?thesis
  proof (cases "map_of (fs_agents m) i")
    case (Some a)
    then have "ag_ID a = i" using m by (simp add: store_wf_def)
    then show ?thesis using SPromote Some m by (simp add: PromoteCert_def store_wf_agents)
  qed (use SPromote m in \<open>simp add: PromoteCert_def\<close>)
next
  case (SEnroll rnd now h v k fp)
  assume "store_wf m"
  then show ?thesis using SEnroll by (simp add: store_Enroll_def Let_def store_wf_agents)
qed

lemma store_wf_new: "store_wf new_fleet_store"
  by (simp add: store_wf_def new_fleet_store_def)

lemma store_wf_fold: "store_wf m \<Longrightarrow> store_wf (fold store_step ops m)"
  by (induction ops arbitrary: m) (simp_all add: store_wf_step)

text \<open>
  C19. Every store reached by any sequence of operations is well-formed: agents are filed under their own
  identifier, alerts carry an identifier and are at most the retained number, and commands wait only for
  agents that are enrolled.
\<close>

theorem store_typed: "store_wf (fold store_step ops new_fleet_store)"
  by (rule store_wf_fold [OF store_wf_new])

section \<open>Queries\<close>

lemma query_loop_unlimited: "af_Limit f \<le> 0 \<Longrightarrow> query_loop f rs out = out @ filter (filter_matches f) rs"
  by (induction rs arbitrary: out) auto

lemma query_loop_limited:
  "0 < af_Limit f \<Longrightarrow> int (length out) \<le> af_Limit f \<Longrightarrow>
   query_loop f rs out = take (nat (af_Limit f)) (out @ filter (filter_matches f) rs)"
proof (induction rs arbitrary: out)
  case (Cons r rs)
  show ?case
  proof (cases "int (length out) = af_Limit f")
    case True
    then have "nat (af_Limit f) = length out" by linarith
    then show ?thesis using True Cons.prems by simp
  next
    case False
    then have "int (length (if filter_matches f r then out @ [r] else out)) \<le> af_Limit f"
      using Cons.prems by auto
    note IH = Cons.IH [OF Cons.prems(1) this]
    have "nat (af_Limit f) - length out = Suc (nat (af_Limit f) - Suc (length out))"
      using False Cons.prems by linarith
    then show ?thesis using False Cons.prems IH by auto
  qed
qed auto

lemma QueryAlerts_eq:
  "QueryAlerts f m =
     (let hits = filter (filter_matches f) (rev (fs_alerts m)) in
      if af_Limit f > 0 then take (nat (af_Limit f)) hits else hits)"
  by (cases "af_Limit f > 0") (simp_all add: QueryAlerts_def query_loop_unlimited query_loop_limited)

lemma filter_matches_any [simp]: "filter_matches (any_alert\<lparr>af_Limit := l\<rparr>) r"
  by (simp add: filter_matches_def any_alert_def is_zero_def)

lemma RecentAlerts_eq:
  "RecentAlerts limit m = (if limit > 0 then take (nat limit) (rev (fs_alerts m)) else rev (fs_alerts m))"
  by (simp add: RecentAlerts_def QueryAlerts_eq)

lemma keep_last_idem: "keep_last n (keep_last n xs) = keep_last n xs"
  by (simp add: keep_last_def)

text \<open>
  A run of recordings keeps exactly the latest alerts, up to the retained number, and \<open>AlertByID\<close> finds the
  latest of them with an identifier.
\<close>

definition filed :: "random_id \<times> alertRecord \<Rightarrow> alertRecord" where
  "filed rr = (if ar_ID (snd rr) = [] then (snd rr)\<lparr>ar_ID := NewID (fst rr)\<rparr> else snd rr)"

lemma RecordAlert_filed: "RecordAlert rnd r m = m\<lparr>fs_alerts := keep_last maxRetainedAlerts (fs_alerts m @ [filed (rnd, r)])\<rparr>"
  by (simp add: RecordAlert_def filed_def Let_def)

lemma recordings_kept:
  "fs_alerts (fold (\<lambda>(rnd, r). RecordAlert rnd r) rs m) =
     (if rs = [] then fs_alerts m else keep_last maxRetainedAlerts (fs_alerts m @ map filed rs))"
proof (induction rs rule: rev_induct)
  case (snoc x rs)
  obtain rnd r where x: "x = (rnd, r)" by (cases x)
  show ?case
    using snoc by (auto simp: x RecordAlert_filed keep_last_snoc [of _ "fs_alerts m @ map filed rs", simplified])
qed simp

section \<open>Command queues\<close>

text \<open>
  The contract of the command queues: what is accepted for an agent waits behind what was accepted before it,
  a drain hands over everything that waits and empties the queue, and neither touches another agent's queue.
\<close>

locale command_queue =
  fixes known :: "'s \<Rightarrow> string \<Rightarrow> bool"
    and queued :: "'s \<Rightarrow> string \<Rightarrow> 'c list"
    and enqueue :: "string \<Rightarrow> 'c \<Rightarrow> 's \<Rightarrow> bool \<times> 's"
    and drain :: "string \<Rightarrow> 's \<Rightarrow> 'c list \<times> 's"
  assumes enqueue_known: "fst (enqueue i c s) = known s i"
    and enqueue_queue: "queued (snd (enqueue i c s)) = (queued s)(i := queued s i @ (if known s i then [c] else []))"
    and drain_hands_over: "fst (drain i s) = queued s i"
    and drain_empties: "queued (snd (drain i s)) = (queued s)(i := [])"
begin

text \<open>\<open>handed acc got s\<close>: of what was accepted for each agent, \<open>got\<close> was delivered and the rest waits in \<open>s\<close>.\<close>

definition handed :: "(string \<Rightarrow> 'c list) \<Rightarrow> (string \<Rightarrow> 'c list) \<Rightarrow> 's \<Rightarrow> bool" where
  "handed acc got s \<longleftrightarrow> (\<forall>i. acc i = got i @ queued s i)"

lemma handed_enqueue:
  "handed acc got s \<Longrightarrow> handed (acc(i := acc i @ (if fst (enqueue i c s) then [c] else []))) got (snd (enqueue i c s))"
  by (simp add: handed_def enqueue_known enqueue_queue)

lemma handed_drain:
  "handed acc got s \<Longrightarrow> handed acc (got(i := got i @ fst (drain i s))) (snd (drain i s))"
  by (simp add: handed_def drain_hands_over drain_empties)

lemma handed_same: "handed acc got s \<Longrightarrow> queued s' = queued s \<Longrightarrow> handed acc got s'"
  by (simp add: handed_def)

end

lemma queue_of_upd: "queue_of j (m\<lparr>fs_commands := AList.update i cs (fs_commands m)\<rparr>) = (if j = i then cs else queue_of j m)"
  by (simp add: queue_of_def)

interpretation fleet_queue: command_queue "\<lambda>m i. store_Get i m \<noteq> None" "\<lambda>m i. queue_of i m" EnqueueCommand DrainCommands
proof unfold_locales
  fix i c m
  show "fst (EnqueueCommand i c m) = (store_Get i m \<noteq> None)"
    by (auto simp: EnqueueCommand_def store_Get_def split: option.splits)
  show "(\<lambda>j. queue_of j (snd (EnqueueCommand i c m))) =
    (\<lambda>j. queue_of j m)(i := queue_of i m @ (if store_Get i m \<noteq> None then [c] else []))"
    by (auto simp: EnqueueCommand_def store_Get_def queue_of_upd fun_eq_iff split: option.splits)
  show "fst (DrainCommands i m) = queue_of i m"
    by (simp add: DrainCommands_def)
  show "(\<lambda>j. queue_of j (snd (DrainCommands i m))) = (\<lambda>j. queue_of j m)(i := [])"
    by (auto simp: DrainCommands_def queue_of_def fun_eq_iff)
qed

text \<open>
  The commands a sequence of operations accepts for agent \<open>i\<close> (the calls of \<open>EnqueueCommand\<close> that return true)
  and those it hands over (what the calls of \<open>DrainCommands\<close> return), in order.
\<close>

fun accepted :: "string \<Rightarrow> store_op list \<Rightarrow> fleet_store \<Rightarrow> command list" where
  "accepted i [] m = []"
| "accepted i (op # ops) m =
     (case op of SEnqueue j c \<Rightarrow> if j = i \<and> fst (EnqueueCommand j c m) then [c] else [] | _ \<Rightarrow> [])
       @ accepted i ops (store_step op m)"

fun delivered :: "string \<Rightarrow> store_op list \<Rightarrow> fleet_store \<Rightarrow> command list" where
  "delivered i [] m = []"
| "delivered i (op # ops) m =
     (case op of SDrain j \<Rightarrow> if j = i then fst (DrainCommands j m) else [] | _ \<Rightarrow> [])
       @ delivered i ops (store_step op m)"

lemma queue_of_agents [simp]: "queue_of i (m\<lparr>fs_agents := as\<rparr>) = queue_of i m"
  by (simp add: queue_of_def)

lemma queue_of_alerts [simp]: "queue_of i (m\<lparr>fs_alerts := as\<rparr>) = queue_of i m"
  by (simp add: queue_of_def)

lemma queue_of_step:
  assumes "\<forall>j c. op \<noteq> SEnqueue j c" and "\<forall>j. op \<noteq> SDrain j"
  shows "queue_of i (store_step op m) = queue_of i m"
  using assms by (cases op) (simp_all add: store_ops PruneAlerts_eq split: option.splits)

lemma accepted_delivered:
  "queue_of i m @ accepted i ops m = delivered i ops m @ queue_of i (fold store_step ops m)"
proof (induction ops arbitrary: m)
  case (Cons op ops)
  note IH = Cons.IH [of "store_step op m"]
  show ?case
  proof (cases op)
    case (SEnqueue j c)
    then show ?thesis
      using IH fleet_queue.enqueue_known [of j c m] fun_cong [OF fleet_queue.enqueue_queue [of j c m], of i]
      by (auto simp: append_assoc [symmetric] simp del: append_assoc split: if_splits)
  next
    case (SDrain j)
    then show ?thesis
      using IH fleet_queue.drain_hands_over [of j m] fun_cong [OF fleet_queue.drain_empties [of j m], of i]
      by (auto split: if_splits)
  qed (use IH queue_of_step [of op i m] in simp_all)
qed simp

text \<open>
  C18. Whatever else happens to the store, every command accepted for an agent is handed over exactly once and in
  the order of acceptance: what was delivered, followed by what still waits, is what was accepted.
\<close>

theorem commands_delivered_once:
  "accepted i ops new_fleet_store = delivered i ops new_fleet_store @ queue_of i (fold store_step ops new_fleet_store)"
  using accepted_delivered [of i new_fleet_store ops] by (simp add: queue_of_def new_fleet_store_def)

end
