(* ===== verification/Cross_Host.thy ===== *)
theory Cross_Host
  imports Fleet_Store
begin

text \<open>
  Fleet-wide correlation, \<^verbatim>\<open>server/correlate/crosshost.go\<close>: which hosts hit a technique or a destination
  recently, and the signal raised when there are enough of them. A \<open>*hostWindow\<close> is held by its map alone, so
  the map holds the windows themselves. The clock is an argument.
\<close>

section \<open>Signals and host windows\<close>

abbreviation (input) KindLateralMovement :: string where "KindLateralMovement \<equiv> ''lateral-movement''"
abbreviation (input) KindC2FanIn :: string where "KindC2FanIn \<equiv> ''c2-fanin''"

definition maxTrackedKeys :: nat where
  "maxTrackedKeys = 100000"

record fleet_signal =
  sg_Kind :: string
  sg_Key :: string
  sg_Hosts :: "string list"
  sg_FirstSeen :: go_time
  sg_LastSeen :: go_time
  sg_Summary :: string

record hostWindow =
  hw_hosts :: "(string, go_time) gomap"
  hw_first :: go_time
  hw_fired :: bool

type_synonym host_index = "(string, hostWindow) gomap"

record crossHost =
  ch_window :: duration
  ch_minHosts :: int
  ch_byTechnique :: host_index
  ch_byDest :: host_index
  ch_lastSweep :: go_time

definition NewCrossHost :: "duration \<Rightarrow> int \<Rightarrow> crossHost" where
  "NewCrossHost window minHosts = \<lparr>ch_window = window, ch_minHosts = minHosts, ch_byTechnique = [],
     ch_byDest = [], ch_lastSweep = zero_time\<rparr>"

definition timeOf :: "go_time \<Rightarrow> alertRecord \<Rightarrow> go_time" where
  "timeOf clock r = (if is_zero (ar_Time r) then clock else ar_Time r)"

definition pruneExpired :: "(string, go_time) gomap \<Rightarrow> go_time \<Rightarrow> duration \<Rightarrow> (string, go_time) gomap" where
  "pruneExpired hosts now window = filter (\<lambda>(host, seen). \<not> time_sub now seen > window) hosts"

definition sortedKeys :: "(string, go_time) gomap \<Rightarrow> string list" where
  "sortedKeys hosts = sort (map fst hosts)"

definition index_sweep :: "duration \<Rightarrow> go_time \<Rightarrow> host_index \<Rightarrow> host_index" where
  "index_sweep window now index =
     filter (\<lambda>(key, w). hw_hosts w \<noteq> [])
       (map (\<lambda>(key, w). (key, w\<lparr>hw_hosts := pruneExpired (hw_hosts w) now window\<rparr>)) index)"

definition sweepExpired :: "go_time \<Rightarrow> crossHost \<Rightarrow> crossHost" where
  "sweepExpired now c =
     (if \<not> is_zero (ch_lastSweep c) \<and> time_sub now (ch_lastSweep c) < ch_window c then c
      else c\<lparr>ch_byTechnique := index_sweep (ch_window c) now (ch_byTechnique c),
             ch_byDest := index_sweep (ch_window c) now (ch_byDest c),
             ch_lastSweep := now\<rparr>)"

definition summarize :: "string \<Rightarrow> string \<Rightarrow> string list \<Rightarrow> string" where
  "summarize kind key hosts =
     (let joined = join '', '' hosts in
      if kind = KindLateralMovement then
        ''technique '' @ key @ '' seen on '' @ nat_str (length hosts) @ '' hosts: '' @ joined
      else if kind = KindC2FanIn then
        nat_str (length hosts) @ '' hosts contacted '' @ key @ '': '' @ joined
      else key)"

text \<open>
  The second half of \<open>track\<close>: the host is stamped into the window, the expired ones are dropped, and the
  signal is raised at the first moment there are enough hosts.
\<close>

definition stamp_host ::
  "crossHost \<Rightarrow> hostWindow \<Rightarrow> string \<Rightarrow> string \<Rightarrow> go_time \<Rightarrow> string \<Rightarrow> hostWindow \<times> fleet_signal option" where
  "stamp_host c window key host now kind =
     (let window = window\<lparr>hw_hosts := pruneExpired (AList.update host now (hw_hosts window)) now (ch_window c)\<rparr>
      in if hw_fired window \<or> int (length (hw_hosts window)) < ch_minHosts c then (window, None)
         else let window = window\<lparr>hw_fired := True\<rparr>;
                  hosts = sortedKeys (hw_hosts window)
              in (window, Some \<lparr>sg_Kind = kind, sg_Key = key, sg_Hosts = hosts, sg_FirstSeen = hw_first window,
                   sg_LastSeen = now, sg_Summary = summarize kind key hosts\<rparr>))"

definition fresh_window :: "go_time \<Rightarrow> hostWindow" where
  "fresh_window now = \<lparr>hw_hosts = [], hw_first = now, hw_fired = False\<rparr>"

definition track ::
  "crossHost \<Rightarrow> host_index \<Rightarrow> string \<Rightarrow> string \<Rightarrow> go_time \<Rightarrow> string \<Rightarrow> host_index \<times> fleet_signal option" where
  "track c index key host now kind =
     (let store = (\<lambda>index window.
            case stamp_host c window key host now kind of (window, signal) \<Rightarrow>
              (AList.update key window index, signal))
      in case map_of index key of
           Some window \<Rightarrow>
             if time_sub now (hw_first window) > ch_window c then store index (fresh_window now)
             else store index window
         | None \<Rightarrow>
             if length index \<ge> maxTrackedKeys then
               (let index = index_sweep (ch_window c) now index in
                if length index \<ge> maxTrackedKeys then (index, None) else store index (fresh_window now))
             else store index (fresh_window now))"

definition opt_list :: "'a option \<Rightarrow> 'a list" where
  "opt_list x = (case x of None \<Rightarrow> [] | Some v \<Rightarrow> [v])"

definition cross_Observe :: "go_time \<Rightarrow> alertRecord \<Rightarrow> crossHost \<Rightarrow> crossHost \<times> fleet_signal list" where
  "cross_Observe clock r c =
     (let now = timeOf clock r;
          c = sweepExpired now c;
          (c, s1) = (if ar_TechniqueID r \<noteq> [] then
              (case track c (ch_byTechnique c) (ar_TechniqueID r) (ar_Hostname r) now KindLateralMovement of
                 (index, s) \<Rightarrow> (c\<lparr>ch_byTechnique := index\<rparr>, opt_list s))
            else (c, []));
          (c, s2) = (if ar_DestinationIP r \<noteq> [] then
              (case track c (ch_byDest c) (ar_DestinationIP r) (ar_Hostname r) now KindC2FanIn of
                 (index, s) \<Rightarrow> (c\<lparr>ch_byDest := index\<rparr>, opt_list s))
            else (c, []))
      in (c, s1 @ s2))"

fun observe_records :: "(go_time \<times> alertRecord) list \<Rightarrow> crossHost \<Rightarrow> crossHost \<times> fleet_signal list" where
  "observe_records [] c = (c, [])"
| "observe_records ((clock, r) # rs) c =
     (case cross_Observe clock r c of (c, s) \<Rightarrow>
        case observe_records rs c of (c, ss) \<Rightarrow> (c, s @ ss))"

section \<open>Every signal is justified\<close>

text \<open>The index and the field of a record that a kind of signal is about.\<close>

definition index_of :: "string \<Rightarrow> crossHost \<Rightarrow> host_index" where
  "index_of kind c = (if kind = KindLateralMovement then ch_byTechnique c else ch_byDest c)"

definition key_of :: "string \<Rightarrow> alertRecord \<Rightarrow> string" where
  "key_of kind r = (if kind = KindLateralMovement then ar_TechniqueID r else ar_DestinationIP r)"

text \<open>
  \<open>sighted rs kind key host t\<close>: some record of \<open>rs\<close> reports the key on the host at time \<open>t\<close>. An index is
  justified by \<open>rs\<close> if each of its entries was sighted, and windows hold a host once.
\<close>

definition sighted :: "(go_time \<times> alertRecord) set \<Rightarrow> string \<Rightarrow> string \<Rightarrow> string \<Rightarrow> go_time \<Rightarrow> bool" where
  "sighted R kind key host t \<longleftrightarrow>
     (\<exists>(clock, r) \<in> R. key_of kind r = key \<and> ar_Hostname r = host \<and> timeOf clock r = t)"

definition window_justified :: "(go_time \<times> alertRecord) set \<Rightarrow> string \<Rightarrow> string \<Rightarrow> hostWindow \<Rightarrow> bool" where
  "window_justified R kind key w \<longleftrightarrow>
     wf_map (hw_hosts w) \<and> (\<forall>(host, t) \<in> set (hw_hosts w). sighted R kind key host t)"

definition index_justified :: "(go_time \<times> alertRecord) set \<Rightarrow> string \<Rightarrow> host_index \<Rightarrow> bool" where
  "index_justified R kind index \<longleftrightarrow> (\<forall>(key, w) \<in> set index. window_justified R kind key w)"

definition signal_recent :: "duration \<Rightarrow> int \<Rightarrow> (go_time \<times> alertRecord) set \<Rightarrow> fleet_signal \<Rightarrow> bool" where
  "signal_recent window minHosts R s \<longleftrightarrow>
     sg_Kind s \<in> {KindLateralMovement, KindC2FanIn} \<and> sg_Key s \<noteq> [] \<and>
     sorted (sg_Hosts s) \<and> distinct (sg_Hosts s) \<and> int (length (sg_Hosts s)) \<ge> minHosts \<and>
     (\<forall>host \<in> set (sg_Hosts s). \<exists>t. sighted R (sg_Kind s) (sg_Key s) host t \<and> time_sub (sg_LastSeen s) t \<le> window)"

text \<open>
  A recent signal has no sighting longer than the window before its last one; a justified one has all of
  them within the window, none after the last.
\<close>

definition signal_justified :: "duration \<Rightarrow> int \<Rightarrow> (go_time \<times> alertRecord) set \<Rightarrow> fleet_signal \<Rightarrow> bool" where
  "signal_justified window minHosts R s \<longleftrightarrow>
     sg_Kind s \<in> {KindLateralMovement, KindC2FanIn} \<and> sg_Key s \<noteq> [] \<and>
     sorted (sg_Hosts s) \<and> distinct (sg_Hosts s) \<and> int (length (sg_Hosts s)) \<ge> minHosts \<and>
     (\<forall>host \<in> set (sg_Hosts s). \<exists>t. sighted R (sg_Kind s) (sg_Key s) host t \<and>
        t \<le> sg_LastSeen s \<and> time_sub (sg_LastSeen s) t \<le> window)"

lemma sighted_mono: "sighted R kind key host t \<Longrightarrow> R \<subseteq> R' \<Longrightarrow> sighted R' kind key host t"
  by (auto simp: sighted_def)

lemma window_justified_mono: "window_justified R kind key w \<Longrightarrow> R \<subseteq> R' \<Longrightarrow> window_justified R' kind key w"
  by (auto simp: window_justified_def intro: sighted_mono)

lemma index_justified_mono: "index_justified R kind index \<Longrightarrow> R \<subseteq> R' \<Longrightarrow> index_justified R' kind index"
  by (auto simp: index_justified_def intro: window_justified_mono)

lemma signal_recent_mono: "signal_recent window n R s \<Longrightarrow> R \<subseteq> R' \<Longrightarrow> signal_recent window n R' s"
  unfolding signal_recent_def by (blast intro: sighted_mono)

lemma index_justified_Nil [simp]: "index_justified R kind []"
  by (simp add: index_justified_def)

lemma window_justified_fresh [simp]: "window_justified R kind key (fresh_window now)"
  by (simp add: window_justified_def fresh_window_def)

lemma index_justified_sweep: "index_justified R kind index \<Longrightarrow> index_justified R kind (index_sweep window now index)"
  by (fastforce simp: index_justified_def index_sweep_def window_justified_def pruneExpired_def)

lemma index_justified_update:
  "index_justified R kind index \<Longrightarrow> window_justified R kind key w \<Longrightarrow> index_justified R kind (AList.update key w index)"
  by (induction index) (auto simp: index_justified_def)

lemma index_justified_lookup: "index_justified R kind index \<Longrightarrow> map_of index key = Some w \<Longrightarrow> window_justified R kind key w"
  by (auto simp: index_justified_def dest: map_of_SomeD)

lemma set_update: "(k, v) \<in> set (AList.update k' v' m) \<Longrightarrow> (k = k' \<and> v = v') \<or> (k, v) \<in> set m"
  by (induction m) (auto split: if_splits)

lemma stamp_host_justified:
  assumes "window_justified R kind key w" and "sighted R kind key host now"
    and "stamp_host c w key host now kind = (w', s)"
    and "kind \<in> {KindLateralMovement, KindC2FanIn}" and "key \<noteq> []"
  shows "window_justified R kind key w' \<and> (\<forall>x \<in> set (opt_list s). signal_recent (ch_window c) (ch_minHosts c) R x)"
proof -
  let ?hosts = "pruneExpired (AList.update host now (hw_hosts w)) now (ch_window c)"
  have wf: "wf_map ?hosts" using assms(1) by (simp add: pruneExpired_def window_justified_def)
  have entry: "sighted R kind key h t \<and> time_sub now t \<le> ch_window c" if "(h, t) \<in> set ?hosts" for h t
    using that assms(1,2) by (auto simp: pruneExpired_def window_justified_def dest!: set_update)
  have "window_justified R kind key w'"
    using assms(3) wf entry
    by (auto simp: stamp_host_def window_justified_def Let_def split: if_splits)
  moreover have "signal_recent (ch_window c) (ch_minHosts c) R x" if "s = Some x" for x
  proof -
    have "sg_Kind x = kind \<and> sg_Key x = key \<and> sg_LastSeen x = now \<and> sg_Hosts x = sort (map fst ?hosts) \<and>
        int (length ?hosts) \<ge> ch_minHosts c"
      using assms(3) that by (auto simp: stamp_host_def Let_def sortedKeys_def split: if_splits)
    then show ?thesis
      using assms(4,5) wf entry unfolding signal_recent_def by fastforce
  qed
  ultimately show ?thesis by (auto simp: opt_list_def split: option.splits)
qed

lemma track_justified:
  assumes "index_justified R kind index" and "sighted R kind key host now"
    and "track c index key host now kind = (index', s)"
    and "kind \<in> {KindLateralMovement, KindC2FanIn}" and "key \<noteq> []"
  shows "index_justified R kind index' \<and> (\<forall>x \<in> set (opt_list s). signal_recent (ch_window c) (ch_minHosts c) R x)"
proof -
  have stored: "index_justified R kind index' \<and> (\<forall>x \<in> set (opt_list s). signal_recent (ch_window c) (ch_minHosts c) R x)"
    if "index_justified R kind ix" and "window_justified R kind key w"
      and "(case stamp_host c w key host now kind of (w, s) \<Rightarrow> (AList.update key w ix, s)) = (index', s)" for ix w
    using that stamp_host_justified [OF that(2) assms(2) _ assms(4,5)]
    by (auto intro: index_justified_update split: prod.splits)
  show ?thesis
  proof (cases "map_of index key")
    case (Some w)
    show ?thesis
    proof (cases "time_sub now (hw_first w) > ch_window c")
      case True
      then show ?thesis using stored [OF assms(1), of "fresh_window now"] assms(3) Some by (simp add: track_def)
    next
      case False
      then show ?thesis
        using stored [OF assms(1) index_justified_lookup [OF assms(1) Some]] assms(3) Some by (simp add: track_def)
    qed
  next
    case None
    show ?thesis
      using stored [OF assms(1), of "fresh_window now"]
        stored [OF index_justified_sweep [OF assms(1), of "ch_window c" now], of "fresh_window now"]
        index_justified_sweep [OF assms(1), of "ch_window c" now] assms(3) None
      by (auto simp: track_def Let_def opt_list_def split: if_splits)
  qed
qed

definition cross_justified :: "(go_time \<times> alertRecord) set \<Rightarrow> crossHost \<Rightarrow> bool" where
  "cross_justified R c \<longleftrightarrow>
     index_justified R KindLateralMovement (ch_byTechnique c) \<and> index_justified R KindC2FanIn (ch_byDest c)"

lemma cross_justified_sweep: "cross_justified R c \<Longrightarrow> cross_justified R (sweepExpired now c)"
  by (simp add: cross_justified_def sweepExpired_def index_justified_sweep)

lemma sweepExpired_fields [simp]:
  "ch_window (sweepExpired now c) = ch_window c" "ch_minHosts (sweepExpired now c) = ch_minHosts c"
  by (simp_all add: sweepExpired_def)

lemma stamp_host_technique [simp]: "stamp_host (c\<lparr>ch_byTechnique := ix\<rparr>) w k h n kd = stamp_host c w k h n kd"
  by (simp add: stamp_host_def)

lemma track_technique [simp]: "track (c\<lparr>ch_byTechnique := ix\<rparr>) i k h n kd = track c i k h n kd"
  by (cases "map_of i k") (simp_all add: track_def Let_def)

lemma cross_Observe_justified:
  assumes "cross_justified R c" and "(clock, r) \<in> R" and "cross_Observe clock r c = (c', ss)"
  shows "cross_justified R c' \<and> ch_window c' = ch_window c \<and> ch_minHosts c' = ch_minHosts c \<and>
    (\<forall>s \<in> set ss. signal_recent (ch_window c) (ch_minHosts c) R s)"
proof -
  let ?now = "timeOf clock r" and ?c = "sweepExpired (timeOf clock r) c"
  let ?t = "track ?c (ch_byTechnique ?c) (ar_TechniqueID r) (ar_Hostname r) ?now KindLateralMovement"
  let ?d = "track ?c (ch_byDest ?c) (ar_DestinationIP r) (ar_Hostname r) ?now KindC2FanIn"
  have c: "cross_justified R ?c" by (rule cross_justified_sweep [OF assms(1)])

  have t: "index_justified R KindLateralMovement (fst ?t) \<and>
      (\<forall>s \<in> set (opt_list (snd ?t)). signal_recent (ch_window c) (ch_minHosts c) R s)" if "ar_TechniqueID r \<noteq> []"
    using track_justified [of R KindLateralMovement "ch_byTechnique ?c" "ar_TechniqueID r" "ar_Hostname r" ?now ?c
        "fst ?t" "snd ?t"] c assms(2) that
    by (fastforce simp: cross_justified_def sighted_def key_of_def)
  have d: "index_justified R KindC2FanIn (fst ?d) \<and>
      (\<forall>s \<in> set (opt_list (snd ?d)). signal_recent (ch_window c) (ch_minHosts c) R s)" if "ar_DestinationIP r \<noteq> []"
    using track_justified [of R KindC2FanIn "ch_byDest ?c" "ar_DestinationIP r" "ar_Hostname r" ?now ?c
        "fst ?d" "snd ?d"] c assms(2) that
    by (fastforce simp: cross_justified_def sighted_def key_of_def)
  show ?thesis
    using assms(3) c t d
    by (auto simp: cross_Observe_def cross_justified_def Let_def split: if_splits prod.splits)
qed

lemma observe_records_justified:
  assumes "cross_justified R c" and "set rs \<subseteq> R"
  shows "\<forall>s \<in> set (snd (observe_records rs c)). signal_recent (ch_window c) (ch_minHosts c) R s"
  using assms
proof (induction rs arbitrary: c)
  case (Cons x rs)
  obtain clock r where x: "x = (clock, r)" by (cases x)
  obtain c' ss where o1: "cross_Observe clock r c = (c', ss)" by (cases "cross_Observe clock r c")
  from cross_Observe_justified [OF Cons.prems(1) _ o1] Cons.prems(2) x
  have step: "cross_justified R c' \<and> ch_window c' = ch_window c \<and> ch_minHosts c' = ch_minHosts c \<and>
      (\<forall>s \<in> set ss. signal_recent (ch_window c) (ch_minHosts c) R s)"
    by simp
  then show ?case using Cons.IH [of c'] Cons.prems(2) o1 x by (auto split: prod.splits)
qed simp

text \<open>
  However alert records arrive, in whatever order and with whatever times, a signal the correlator
  raises is recent: it names, sorted and without repetition, at least the required number of hosts, and
  for each of them a record of the stream reports the signal's technique or destination on that host not
  longer than the window before the record that raised it.
\<close>

theorem signals_recent:
  "list_all (signal_recent window minHosts (set rs)) (snd (observe_records rs (NewCrossHost window minHosts)))"
  using observe_records_justified [of "set rs" "NewCrossHost window minHosts" rs]
  by (simp add: cross_justified_def NewCrossHost_def list_all_iff)

lemma cross_justified_mono: "cross_justified R c \<Longrightarrow> R \<subseteq> R' \<Longrightarrow> cross_justified R' c"
  by (auto simp: cross_justified_def intro: index_justified_mono)

lemma track_LastSeen: "x \<in> set (opt_list (snd (track c index key host now kind))) \<Longrightarrow> sg_LastSeen x = now"
  by (auto simp: track_def stamp_host_def opt_list_def Let_def split: option.splits if_splits prod.splits)

lemma cross_Observe_LastSeen: "s \<in> set (snd (cross_Observe clock r c)) \<Longrightarrow> sg_LastSeen s = timeOf clock r"
  by (auto simp: cross_Observe_def Let_def case_prod_beta dest: track_LastSeen split: if_splits)

definition record_time :: "go_time \<times> alertRecord \<Rightarrow> go_time" where
  "record_time x = timeOf (fst x) (snd x)"

lemma recent_justified:
  assumes "signal_recent window n R s" and "\<forall>x \<in> R. record_time x \<le> sg_LastSeen s"
  shows "signal_justified window n R s"
proof -
  have "t \<le> sg_LastSeen s" if "sighted R kind key host t" for kind key host t
    using that assms(2) by (force simp: sighted_def record_time_def)
  then show ?thesis
    using assms(1) unfolding signal_recent_def signal_justified_def by blast
qed

lemma signal_justified_mono: "signal_justified window n R s \<Longrightarrow> R \<subseteq> R' \<Longrightarrow> signal_justified window n R' s"
  unfolding signal_justified_def by (blast intro: sighted_mono)

lemma observe_in_order:
  assumes "cross_justified R c" and "sorted (map record_time rs)" and "\<forall>x \<in> R. \<forall>y \<in> set rs. record_time x \<le> record_time y"
  shows "\<forall>s \<in> set (snd (observe_records rs c)). signal_justified (ch_window c) (ch_minHosts c) (R \<union> set rs) s"
  using assms
proof (induction rs arbitrary: c R)
  case (Cons x rs)
  obtain clock r where x: "x = (clock, r)" by (cases x)
  obtain c' ss where o1: "cross_Observe clock r c = (c', ss)" by (cases "cross_Observe clock r c")
  let ?R = "insert x R"
  have step: "cross_justified ?R c'" "ch_window c' = ch_window c" "ch_minHosts c' = ch_minHosts c"
    "\<forall>s \<in> set ss. signal_recent (ch_window c) (ch_minHosts c) ?R s"
    using cross_Observe_justified [OF cross_justified_mono [OF Cons.prems(1), of ?R] _ o1] x by auto
  have "signal_justified (ch_window c) (ch_minHosts c) ?R s" if "s \<in> set ss" for s
  proof (rule recent_justified)
    show "signal_recent (ch_window c) (ch_minHosts c) ?R s" using step(4) that by blast
    have "sg_LastSeen s = record_time x"
      using cross_Observe_LastSeen [of s clock r c] o1 that x by (simp add: record_time_def)
    then show "\<forall>y \<in> ?R. record_time y \<le> sg_LastSeen s" using Cons.prems(3) by simp
  qed
  then have first: "\<forall>s \<in> set ss. signal_justified (ch_window c) (ch_minHosts c) (R \<union> set (x # rs)) s"
    by (intro ballI) (rule signal_justified_mono [where R = ?R], auto)
  have "\<forall>s \<in> set (snd (observe_records rs c')). signal_justified (ch_window c') (ch_minHosts c') (?R \<union> set rs) s"
    using Cons.prems by (intro Cons.IH step(1)) auto
  then show ?case using first step(2,3) o1 x by (auto split: prod.splits)
qed simp

text \<open>
  C26. When alert records arrive in the order of their times, a signal the correlator raises is true of
  them: it names, sorted and without repetition, at least the required number of hosts, and for each of
  them a record of the stream reports the signal's technique or destination on that host at a time inside
  the window that ends with the signal's last sighting.
\<close>

theorem signals_justified:
  assumes "sorted (map record_time rs)"
  shows "list_all (signal_justified window minHosts (set rs)) (snd (observe_records rs (NewCrossHost window minHosts)))"
  using observe_in_order [of "{}" "NewCrossHost window minHosts" rs] assms
  by (simp add: cross_justified_def NewCrossHost_def list_all_iff)

section \<open>A burst raises one signal\<close>

text \<open>
  \<open>window_holds\<close> describes the window of a burst that began at \<open>t0\<close> and has reached the hosts \<open>H\<close> by
  \<open>now\<close>: it knows exactly those hosts and has fired exactly if there are enough of them.
\<close>

definition enough :: "int \<Rightarrow> string set \<Rightarrow> bool" where
  "enough minHosts H \<longleftrightarrow> H \<noteq> {} \<and> int (card H) \<ge> minHosts"

definition window_holds :: "int \<Rightarrow> go_time \<Rightarrow> go_time \<Rightarrow> string set \<Rightarrow> hostWindow \<Rightarrow> bool" where
  "window_holds minHosts t0 now H w \<longleftrightarrow>
     hw_first w = t0 \<and> wf_map (hw_hosts w) \<and> fst ` set (hw_hosts w) = H \<and>
     (\<forall>t \<in> snd ` set (hw_hosts w). t0 \<le> t \<and> t \<le> now) \<and> hw_fired w = enough minHosts H"

lemma prune_none:
  assumes "\<forall>t \<in> snd ` set hosts. t0 \<le> t" and "now \<le> t0 + window" and "0 \<le> window"
  shows "pruneExpired hosts now window = hosts"
proof -
  have "\<not> time_sub now t > window" if "t0 \<le> t" for t
    using that assms(2,3) by (auto simp: time_sub_def int64_min_def)
  then show ?thesis
    using assms(1) by (force simp: pruneExpired_def filter_id_conv)
qed

lemma wf_index_sweep: "wf_map index \<Longrightarrow> wf_map (index_sweep window now index)"
  unfolding index_sweep_def by (rule wf_map_filter) (simp only: fst_mapval)

lemma length_index_sweep: "length (index_sweep window now index) \<le> length index"
  unfolding index_sweep_def by (rule order_trans [OF length_filter_le]) simp

lemma index_sweep_None: "map_of index key = None \<Longrightarrow> map_of (index_sweep window now index) key = None"
  by (auto simp: index_sweep_def map_of_eq_None_iff image_iff)

lemma index_sweep_Some:
  assumes "wf_map index" and "map_of index key = Some w" and "hw_hosts w \<noteq> []"
    and "pruneExpired (hw_hosts w) now window = hw_hosts w"
  shows "map_of (index_sweep window now index) key = Some w"
proof -
  let ?f = "\<lambda>(key, w). (key, w\<lparr>hw_hosts := pruneExpired (hw_hosts w) now window\<rparr>)"
  have "wf_map (map ?f index)" using assms(1) by (simp only: fst_mapval)
  moreover have "map_of (map ?f index) key = Some w"
    using assms(2,4) by (simp add: map_of_mapval)
  ultimately show ?thesis using assms(3) by (simp add: index_sweep_def map_of_filter)
qed

lemma length_hosts: "wf_map hosts \<Longrightarrow> length hosts = card (fst ` set hosts)"
  by (metis distinct_card length_map set_map)

lemma stamp_host_burst:
  assumes "window_holds (ch_minHosts c) t0 now' H w" and "t0 \<le> now" and "now' \<le> now"
    and "now \<le> t0 + ch_window c" and "0 \<le> ch_window c"
  shows "window_holds (ch_minHosts c) t0 now (insert host H) (fst (stamp_host c w key host now kind)) \<and>
    (snd (stamp_host c w key host now kind) \<noteq> None \<longleftrightarrow>
       \<not> enough (ch_minHosts c) H \<and> enough (ch_minHosts c) (insert host H))"
proof -
  let ?hs = "AList.update host now (hw_hosts w)"
  have keys: "fst ` set ?hs = insert host H"
    using dom_map_of_conv_image_fst [of ?hs] dom_map_of_conv_image_fst [of "hw_hosts w"] assms(1)
    by (simp add: window_holds_def)
  have times: "\<forall>t \<in> snd ` set ?hs. t0 \<le> t \<and> t \<le> now"
    using assms(1,2,3) by (fastforce simp: window_holds_def dest!: set_update)
  have "pruneExpired ?hs now (ch_window c) = ?hs"
    by (rule prune_none [OF _ assms(4,5)]) (use times in blast)
  moreover have wf: "wf_map ?hs" using assms(1) by (simp add: window_holds_def)
  moreover have "length ?hs = card (insert host H)" using length_hosts [OF wf] keys by simp
  moreover have "finite H" using assms(1) by (auto simp: window_holds_def)
  then have "card H \<le> card (insert host H)" by (simp add: card_insert_le)
  ultimately show ?thesis
    using assms(1) keys times by (auto simp: stamp_host_def window_holds_def enough_def Let_def)
qed

lemma window_holds_fresh: "window_holds minHosts t0 t0 {} (fresh_window t0)"
  by (simp add: window_holds_def fresh_window_def enough_def)

lemma stamp_host_signal: "snd (stamp_host c w key host now kind) = Some s \<Longrightarrow> sg_Kind s = kind \<and> sg_Key s = key"
  by (auto simp: stamp_host_def Let_def split: if_splits)

lemma track_signal: "snd (track c index key host now kind) = Some s \<Longrightarrow> sg_Kind s = kind \<and> sg_Key s = key"
  by (cases "map_of index key") (auto simp: track_def Let_def case_prod_beta dest: stamp_host_signal split: if_splits)

text \<open>Seen from one kind of signal, observing a record is a sweep and a \<open>track\<close> in that kind's index.\<close>

definition about :: "string \<Rightarrow> string \<Rightarrow> fleet_signal \<Rightarrow> bool" where
  "about kind key s \<longleftrightarrow> sg_Kind s = kind \<and> sg_Key s = key"

lemma filter_about_other:
  "kind \<noteq> kind' \<Longrightarrow> filter (about kind key) (opt_list (snd (track c index k host now kind'))) = []"
  by (auto simp: opt_list_def about_def dest: track_signal split: option.splits)

lemma filter_about_same:
  "filter (about kind key) (opt_list (snd (track c index key host now kind))) = opt_list (snd (track c index key host now kind))"
  by (auto simp: opt_list_def about_def dest: track_signal split: option.splits)

lemma cross_Observe_kind:
  assumes "kind \<in> {KindLateralMovement, KindC2FanIn}" and "key_of kind r = key" and "key \<noteq> []"
  shows "let now = timeOf clock r; c1 = sweepExpired now c;
             t = track c1 (index_of kind c1) key (ar_Hostname r) now kind
    in index_of kind (fst (cross_Observe clock r c)) = fst t \<and>
       filter (about kind key) (snd (cross_Observe clock r c)) = opt_list (snd t)"
proof (cases "kind = KindLateralMovement")
  case True
  then show ?thesis
    using assms filter_about_other [of KindLateralMovement KindC2FanIn key]
      filter_about_same [of KindLateralMovement key]
    by (simp add: cross_Observe_def index_of_def key_of_def Let_def case_prod_beta)
next
  case False
  then have "kind = KindC2FanIn" using assms(1) by blast
  then show ?thesis
    using assms filter_about_other [of KindC2FanIn KindLateralMovement key]
      filter_about_same [of KindC2FanIn key]
    by (simp add: cross_Observe_def index_of_def key_of_def Let_def case_prod_beta)
qed

lemma cross_Observe_config:
  "ch_window (fst (cross_Observe clock r c)) = ch_window c" "ch_minHosts (fst (cross_Observe clock r c)) = ch_minHosts c"
  by (simp_all add: cross_Observe_def Let_def case_prod_beta)

lemma index_of_sweepExpired:
  "index_of kind (sweepExpired now c) = index_of kind c \<or>
   index_of kind (sweepExpired now c) = index_sweep (ch_window c) now (index_of kind c)"
  by (simp add: sweepExpired_def index_of_def)

text \<open>The state of a burst of one key that has reached the hosts \<open>H\<close> by \<open>now\<close>.\<close>

definition burst_state :: "string \<Rightarrow> string \<Rightarrow> go_time \<Rightarrow> go_time \<Rightarrow> string set \<Rightarrow> crossHost \<Rightarrow> bool" where
  "burst_state kind key t0 now H c \<longleftrightarrow>
     wf_map (index_of kind c) \<and> H \<noteq> {} \<and>
     (\<exists>w. map_of (index_of kind c) key = Some w \<and> window_holds (ch_minHosts c) t0 now H w)"

lemma store_window:
  assumes "wf_map index" and "window_holds (ch_minHosts c) t0 now' H w" and "t0 \<le> now" and "now' \<le> now"
    and "now \<le> t0 + ch_window c" and "0 \<le> ch_window c"
    and "fst t = AList.update key (fst (stamp_host c w key host now kind)) index"
    and "snd t = snd (stamp_host c w key host now kind)"
  shows "wf_map (fst t) \<and> (\<exists>w. map_of (fst t) key = Some w \<and> window_holds (ch_minHosts c) t0 now (insert host H) w) \<and>
    length (opt_list (snd t)) = (if \<not> enough (ch_minHosts c) H \<and> enough (ch_minHosts c) (insert host H) then 1 else 0)"
  using stamp_host_burst [OF assms(2-6), of host key kind] assms(1,7,8)
  by (auto simp: opt_list_def split: option.splits)

lemma burst_begins:
  assumes "kind \<in> {KindLateralMovement, KindC2FanIn}" and "key_of kind r = key" and "key \<noteq> []"
    and "wf_map (index_of kind c)" and "map_of (index_of kind c) key = None"
    and "length (index_of kind c) < maxTrackedKeys" and "0 \<le> ch_window c" and "timeOf clock r = t0"
  shows "burst_state kind key t0 t0 {ar_Hostname r} (fst (cross_Observe clock r c)) \<and>
    length (filter (about kind key) (snd (cross_Observe clock r c))) = (if enough (ch_minHosts c) {ar_Hostname r} then 1 else 0)"
proof -
  let ?c = "sweepExpired t0 c"
  let ?t = "track ?c (index_of kind ?c) key (ar_Hostname r) t0 kind"
  have wf: "wf_map (index_of kind ?c)" and none: "map_of (index_of kind ?c) key = None"
    and len: "length (index_of kind ?c) < maxTrackedKeys"
    using index_of_sweepExpired [of kind t0 c] assms(4-6) length_index_sweep [of "ch_window c" t0 "index_of kind c"]
    by (auto simp: wf_index_sweep index_sweep_None)
  have t: "fst ?t = AList.update key (fst (stamp_host ?c (fresh_window t0) key (ar_Hostname r) t0 kind)) (index_of kind ?c)"
      "snd ?t = snd (stamp_host ?c (fresh_window t0) key (ar_Hostname r) t0 kind)"
    using none len by (simp_all add: track_def case_prod_beta)
  have "wf_map (fst ?t) \<and> (\<exists>w. map_of (fst ?t) key = Some w \<and> window_holds (ch_minHosts ?c) t0 t0 (insert (ar_Hostname r) {}) w) \<and>
      length (opt_list (snd ?t)) = (if \<not> enough (ch_minHosts ?c) {} \<and> enough (ch_minHosts ?c) (insert (ar_Hostname r) {}) then 1 else 0)"
    by (rule store_window [OF wf window_holds_fresh _ _ _ _ t]) (simp_all add: assms(7))
  moreover have "\<not> enough n {}" for n by (simp add: enough_def)
  ultimately show ?thesis
    using cross_Observe_kind [OF assms(1-3), of clock c] assms(8)
    by (simp add: burst_state_def cross_Observe_config Let_def del: map_of_eq_Some_iff)
qed

lemma burst_continues:
  assumes "kind \<in> {KindLateralMovement, KindC2FanIn}" and "key_of kind r = key" and "key \<noteq> []"
    and "burst_state kind key t0 now' H c" and "timeOf clock r = now" and "t0 \<le> now'" and "now' \<le> now"
    and "now \<le> t0 + ch_window c" and "0 \<le> ch_window c"
  shows "burst_state kind key t0 now (insert (ar_Hostname r) H) (fst (cross_Observe clock r c)) \<and>
    length (filter (about kind key) (snd (cross_Observe clock r c))) =
      (if \<not> enough (ch_minHosts c) H \<and> enough (ch_minHosts c) (insert (ar_Hostname r) H) then 1 else 0)"
proof -
  let ?c = "sweepExpired now c"
  let ?t = "track ?c (index_of kind ?c) key (ar_Hostname r) now kind"
  obtain w where w: "map_of (index_of kind c) key = Some w" "window_holds (ch_minHosts c) t0 now' H w"
      and wf0: "wf_map (index_of kind c)" and H: "H \<noteq> {}"
    using assms(4) by (auto simp: burst_state_def)
  have ne: "hw_hosts w \<noteq> []" using w(2) H by (auto simp: window_holds_def)
  have "pruneExpired (hw_hosts w) now (ch_window c) = hw_hosts w"
    by (rule prune_none [OF _ assms(8,9)]) (use w(2) in \<open>auto simp: window_holds_def\<close>)
  then have look: "map_of (index_of kind ?c) key = Some w" and wf: "wf_map (index_of kind ?c)"
    using index_of_sweepExpired [of kind now c] index_sweep_Some [OF wf0 w(1) ne, of now "ch_window c"] w(1) wf0
    by (auto simp: wf_index_sweep)
  have "\<not> time_sub now (hw_first w) > ch_window c"
    using w(2) assms(8,9) by (auto simp: window_holds_def time_sub_def int64_min_def)
  then have t: "fst ?t = AList.update key (fst (stamp_host ?c w key (ar_Hostname r) now kind)) (index_of kind ?c)"
      "snd ?t = snd (stamp_host ?c w key (ar_Hostname r) now kind)"
    using look by (simp_all add: track_def case_prod_beta)
  have "wf_map (fst ?t) \<and> (\<exists>w. map_of (fst ?t) key = Some w \<and> window_holds (ch_minHosts ?c) t0 now (insert (ar_Hostname r) H) w) \<and>
      length (opt_list (snd ?t)) = (if \<not> enough (ch_minHosts ?c) H \<and> enough (ch_minHosts ?c) (insert (ar_Hostname r) H) then 1 else 0)"
    by (rule store_window [OF wf _ _ assms(7) _ _ t]) (use w(2) assms in simp_all)
  then show ?thesis
    using cross_Observe_kind [OF assms(1-3), of clock c] assms(5)
    by (simp add: burst_state_def cross_Observe_config Let_def del: map_of_eq_Some_iff)
qed

text \<open>
  A burst: records of one key whose times do not decrease and stay within the window of the first, all
  within the window that begins at \<open>t0\<close>.
\<close>

fun in_burst :: "string \<Rightarrow> string \<Rightarrow> go_time \<Rightarrow> go_time \<Rightarrow> (go_time \<times> alertRecord) list \<Rightarrow> bool" where
  "in_burst kind key now last_time [] = True"
| "in_burst kind key now last_time ((clock, r) # rs) =
     (key_of kind r = key \<and> now \<le> timeOf clock r \<and> timeOf clock r \<le> last_time \<and>
      in_burst kind key (timeOf clock r) last_time rs)"

definition burst_hosts :: "(go_time \<times> alertRecord) list \<Rightarrow> string set" where
  "burst_hosts rs = (\<lambda>(clock, r). ar_Hostname r) ` set rs"

lemma burst_run:
  assumes "kind \<in> {KindLateralMovement, KindC2FanIn}" and "key \<noteq> []" and "0 \<le> ch_window c"
    and "burst_state kind key t0 now H c" and "t0 \<le> now" and "in_burst kind key now (t0 + ch_window c) rs"
  shows "length (filter (about kind key) (snd (observe_records rs c))) =
    (if \<not> enough (ch_minHosts c) H \<and> enough (ch_minHosts c) (H \<union> burst_hosts rs) then 1 else 0)"
  using assms(3-6)
proof (induction rs arbitrary: c now H)
  case (Cons x rs)
  obtain clock r where x: "x = (clock, r)" by (cases x)
  let ?c = "fst (cross_Observe clock r c)" and ?H = "insert (ar_Hostname r) H"
  from Cons.prems(4) x have r: "key_of kind r = key" "now \<le> timeOf clock r" "timeOf clock r \<le> t0 + ch_window c"
    and rs: "in_burst kind key (timeOf clock r) (t0 + ch_window c) rs" by auto
  note step = burst_continues [OF assms(1) r(1) assms(2) Cons.prems(2) refl Cons.prems(3) r(2,3) Cons.prems(1)]
  have t0: "t0 \<le> timeOf clock r" using Cons.prems(3) r(2) by linarith
  have IH: "length (filter (about kind key) (snd (observe_records rs ?c))) =
      (if \<not> enough (ch_minHosts c) ?H \<and> enough (ch_minHosts c) (?H \<union> burst_hosts rs) then 1 else 0)"
    using Cons.IH [of ?c "timeOf clock r" ?H] step t0 rs Cons.prems(1) by (simp add: cross_Observe_config)
  have "H \<union> burst_hosts (x # rs) = ?H \<union> burst_hosts rs" by (auto simp: burst_hosts_def x)
  moreover have fin: "finite H" using Cons.prems(2) by (auto simp: burst_state_def window_holds_def)
  have "enough n (H' \<union> X)" if "enough n H'" and "finite H'" and "finite X" for n H' X
    using that card_mono [of "H' \<union> X" H'] by (auto simp: enough_def)
  then have "enough n ?H \<Longrightarrow> enough n (?H \<union> burst_hosts rs)" and "enough n H \<Longrightarrow> enough n ?H" for n
    using fin by (metis burst_hosts_def finite_imageI finite_insert finite_set,
        metis insert_is_Un finite.simps sup_commute)
  ultimately show ?case
    using step IH by (auto simp: x case_prod_beta)
qed (simp add: burst_hosts_def)

text \<open>
  When a key that is not tracked is reported in a burst, the correlator raises exactly one signal for it if the
  burst reaches the required number of distinct hosts, and none otherwise, whatever else the records carry.
  As this holds of every beginning of the burst, the signal comes with the record that makes the hosts enough.
\<close>

theorem burst_raises_one_signal:
  assumes "kind \<in> {KindLateralMovement, KindC2FanIn}" and "key \<noteq> []" and "0 \<le> ch_window c"
    and "wf_map (index_of kind c)" and "map_of (index_of kind c) key = None"
    and "length (index_of kind c) < maxTrackedKeys"
    and "in_burst kind key (timeOf clock r) (timeOf clock r + ch_window c) ((clock, r) # rs)"
  shows "length (filter (about kind key) (snd (observe_records ((clock, r) # rs) c))) =
    (if int (card (burst_hosts ((clock, r) # rs))) \<ge> ch_minHosts c then 1 else 0)"
proof -
  let ?c = "fst (cross_Observe clock r c)" and ?H = "{ar_Hostname r}"
  have r: "key_of kind r = key" and rs: "in_burst kind key (timeOf clock r) (timeOf clock r + ch_window c) rs"
    using assms(7) by auto
  note first = burst_begins [OF assms(1) r assms(2,4-6,3) refl, of clock]
  have rest: "length (filter (about kind key) (snd (observe_records rs ?c))) =
      (if \<not> enough (ch_minHosts c) ?H \<and> enough (ch_minHosts c) (?H \<union> burst_hosts rs) then 1 else 0)"
    using burst_run [OF assms(1,2), of ?c "timeOf clock r" "timeOf clock r" ?H rs] first rs assms(3)
    by (simp add: cross_Observe_config)
  have hosts: "burst_hosts ((clock, r) # rs) = ?H \<union> burst_hosts rs" by (auto simp: burst_hosts_def)
  have "card ?H \<le> card (?H \<union> burst_hosts rs)" by (rule card_mono) (auto simp: burst_hosts_def)
  then have "enough n ?H \<Longrightarrow> enough n (?H \<union> burst_hosts rs)" for n by (auto simp: enough_def)
  moreover have "enough n (?H \<union> burst_hosts rs) = (int (card (?H \<union> burst_hosts rs)) \<ge> n)" for n
    by (simp add: enough_def)
  ultimately show ?thesis using first rest hosts by (auto simp: case_prod_beta)
qed

definition contact :: "string \<Rightarrow> go_time \<Rightarrow> go_time \<times> alertRecord" where
  "contact host t = (t, \<lparr>ar_ID = [], ar_AgentID = [], ar_Hostname = host, ar_Time = t, ar_RuleID = [], ar_RuleName = [],
     ar_Severity = [], ar_TechniqueID = [], ar_TechniqueName = [], ar_PID = 0, ar_ProcessName = [],
     ar_ProcessExecutable = [], ar_DestinationIP = ''9.9.9.9'', ar_RiskScore = 0, ar_IsIncident = False\<rparr>)"

theorem burst_raises_one_signal_witness:
  "length (filter (about KindC2FanIn ''9.9.9.9'')
     (snd (observe_records [contact ''a'' 0, contact ''b'' 4, contact ''a'' 5] (NewCrossHost 10 2)))) = 1"
proof -
  have "burst_hosts [contact ''a'' 0, contact ''b'' 4, contact ''a'' 5] = {''a'', ''b''}"
    by (auto simp: burst_hosts_def contact_def)
  then have "card (burst_hosts [contact ''a'' 0, contact ''b'' 4, contact ''a'' 5]) = 2" by simp
  then show ?thesis
    using burst_raises_one_signal [of KindC2FanIn "''9.9.9.9''" "NewCrossHost 10 2" "fst (contact ''a'' 0)"
        "snd (contact ''a'' 0)" "[contact ''b'' 4, contact ''a'' 5]"]
    by (simp add: contact_def NewCrossHost_def index_of_def key_of_def timeOf_def is_zero_def zero_time_def
        maxTrackedKeys_def)
qed

text \<open>
  The window is not a sliding one: it begins with the first host and starts over, empty, when that host's
  sighting has aged out. So three hosts can contact one destination within a moment of each other, far less
  than the window, and raise no signal, because a fourth host began the window earlier.
\<close>

definition tracking :: "duration \<Rightarrow> go_time \<Rightarrow> go_time \<Rightarrow> (string, go_time) gomap \<Rightarrow> crossHost" where
  "tracking w swept first hosts = \<lparr>ch_window = w, ch_minHosts = 3, ch_byTechnique = [],
     ch_byDest = [(''9.9.9.9'', \<lparr>hw_hosts = hosts, hw_first = first, hw_fired = False\<rparr>)], ch_lastSweep = swept\<rparr>"

lemmas cross_steps = contact_def NewCrossHost_def cross_Observe_def sweepExpired_def track_def stamp_host_def
  fresh_window_def timeOf_def Let_def pruneExpired_def index_sweep_def opt_list_def maxTrackedKeys_def tracking_def

lemma contact_first:
  assumes "0 \<le> w" and "\<not> is_zero t0"
  shows "cross_Observe t0 (snd (contact host t0)) (NewCrossHost w 3) = (tracking w t0 t0 [(host, t0)], [])"
  using assms by (simp add: cross_steps) (simp add: is_zero_def)

lemma contact_swept:
  assumes "0 \<le> w" and "\<not> is_zero t0" and "\<not> is_zero t" and "time_sub t t0 = w" and "host' \<noteq> host"
  shows "cross_Observe t (snd (contact host t)) (tracking w t0 t0 [(host', t0)]) =
    (tracking w t t0 [(host', t0), (host, t)], [])"
  using assms by (simp add: cross_steps)

lemma contact_restart:
  assumes "1 < w" and "\<not> is_zero t" and "\<not> is_zero u" and "time_sub t u = 1" and "time_sub t t0 > w"
  shows "cross_Observe t (snd (contact host t)) (tracking w u t0 hosts) = (tracking w u t [(host, t)], [])"
  using assms by (simp add: cross_steps)

lemma contact_joins:
  assumes "1 < w" and "\<not> is_zero t" and "\<not> is_zero u" and "time_sub t u = 1" and "host' \<noteq> host"
  shows "cross_Observe t (snd (contact host t)) (tracking w u t [(host', t)]) = (tracking w u t [(host', t), (host, t)], [])"
  using assms by (simp add: cross_steps)

lemma observe_contact:
  "observe_records (contact host t # rs) c =
     (case cross_Observe t (snd (contact host t)) c of (c, s) \<Rightarrow> case observe_records rs c of (c, ss) \<Rightarrow> (c, s @ ss))"
  by (simp add: contact_def)

theorem fanin_missed:
  assumes "1 < w" and "w < int64_max" and "zero_time < t0"
  shows "snd (observe_records [contact ''a'' t0, contact ''b'' (t0 + w), contact ''c'' (t0 + w + 1), contact ''d'' (t0 + w + 1)]
    (NewCrossHost w 3)) = []"
proof -
  have nz: "\<not> is_zero t0" "\<not> is_zero (t0 + w)" "\<not> is_zero (t0 + w + 1)"
    using assms by (auto simp: is_zero_def)
  have sub: "time_sub (t0 + w) t0 = w" "time_sub (t0 + w + 1) t0 > w" "time_sub (t0 + w + 1) (t0 + w) = 1"
    using assms by (auto simp: time_sub_def int64_min_def int64_max_def)
  show ?thesis
    using assms(1) by (simp add: observe_contact contact_first contact_swept contact_restart contact_joins nz sub)
qed

theorem fanin_missed_witness:
  "snd (observe_records [contact ''a'' 0, contact ''b'' 600, contact ''c'' 601, contact ''d'' 601] (NewCrossHost 600 3)) = []"
  using fanin_missed [of 600 0] by (simp add: int64_max_def zero_time_def)

lemma sort_two_hosts: "sort [''a'', ''b''] = [''a'', ''b'']"
  by code_simp

lemma contact_begins:
  assumes "\<not> is_zero t"
  shows "cross_Observe t (snd (contact host t)) (NewCrossHost 600 2) = ((tracking 600 t t [(host, t)])\<lparr>ch_minHosts := 2\<rparr>, [])"
  using assms by (simp add: cross_steps) (simp add: is_zero_def)

lemma contact_fires:
  assumes "\<not> is_zero t" "\<not> is_zero u" "\<not> time_sub u t > 600" and "host' \<noteq> host"
  shows "snd (cross_Observe u (snd (contact host u)) ((tracking 600 t t [(host', t)])\<lparr>ch_minHosts := 2\<rparr>)) =
    [\<lparr>sg_Kind = KindC2FanIn, sg_Key = ''9.9.9.9'', sg_Hosts = sort [host', host], sg_FirstSeen = t, sg_LastSeen = u,
      sg_Summary = summarize KindC2FanIn ''9.9.9.9'' (sort [host', host])\<rparr>]"
proof -
  define c where "c = (tracking 600 t t [(host', t)])\<lparr>ch_minHosts := 2\<rparr>"
  have keep: "\<exists>L. sweepExpired u c = c\<lparr>ch_lastSweep := L\<rparr>"
  proof (cases "time_sub u t < 600")
    case True
    then show ?thesis
      using assms(1) by (intro exI [of _ t]) (simp add: c_def sweepExpired_def tracking_def)
  next
    case False
    then show ?thesis
      using assms(3) by (intro exI [of _ u]) (simp add: c_def sweepExpired_def tracking_def index_sweep_def pruneExpired_def)
  qed
  then obtain L where L: "sweepExpired u c = c\<lparr>ch_lastSweep := L\<rparr>" ..
  have sub: "time_sub u u = 0"
    by (simp add: time_sub_def int64_min_def int64_max_def)
  have keys: "sortedKeys [(host', t), (host, u)] = sort [host', host]"
    by (simp add: sortedKeys_def)
  let ?w = "\<lparr>hw_hosts = [(host', t)], hw_first = t, hw_fired = False\<rparr>"
  have stamp: "snd (stamp_host (c\<lparr>ch_lastSweep := L\<rparr>) ?w ''9.9.9.9'' host u KindC2FanIn) =
      Some \<lparr>sg_Kind = KindC2FanIn, sg_Key = ''9.9.9.9'', sg_Hosts = sort [host', host], sg_FirstSeen = t, sg_LastSeen = u,
        sg_Summary = summarize KindC2FanIn ''9.9.9.9'' (sort [host', host])\<rparr>"
    using assms(3,4) by (simp add: stamp_host_def c_def tracking_def pruneExpired_def sub keys Let_def del: sort_key_simps)
  have track: "snd (track (c\<lparr>ch_lastSweep := L\<rparr>) [(''9.9.9.9'', ?w)] ''9.9.9.9'' host u KindC2FanIn) =
      snd (stamp_host (c\<lparr>ch_lastSweep := L\<rparr>) ?w ''9.9.9.9'' host u KindC2FanIn)"
    using assms(3) by (simp add: track_def c_def tracking_def case_prod_beta)
  have fields: "ar_TechniqueID (snd (contact host u)) = []" "ar_DestinationIP (snd (contact host u)) = ''9.9.9.9''"
    "ar_Hostname (snd (contact host u)) = host" "timeOf u (snd (contact host u)) = u"
    "ch_byDest (c\<lparr>ch_lastSweep := L\<rparr>) = [(''9.9.9.9'', ?w)]"
    by (simp_all add: contact_def timeOf_def c_def tracking_def)
  have "snd (cross_Observe u (snd (contact host u)) c) =
      opt_list (snd (track (c\<lparr>ch_lastSweep := L\<rparr>) [(''9.9.9.9'', ?w)] ''9.9.9.9'' host u KindC2FanIn))"
    unfolding cross_Observe_def Let_def fields(1-4) L case_prod_beta fst_conv snd_conv
    by (simp add: c_def tracking_def)
  then show ?thesis
    unfolding c_def [symmetric] by (simp only: track stamp opt_list_def option.case)
qed

lemma two_contacts:
  assumes "\<not> is_zero t" "\<not> is_zero u" "\<not> time_sub u t > 600"
  shows "snd (observe_records [contact ''a'' t, contact ''b'' u] (NewCrossHost 600 2)) =
    [\<lparr>sg_Kind = KindC2FanIn, sg_Key = ''9.9.9.9'', sg_Hosts = [''a'', ''b''], sg_FirstSeen = t, sg_LastSeen = u,
      sg_Summary = summarize KindC2FanIn ''9.9.9.9'' [''a'', ''b'']\<rparr>]"
proof -
  have "snd (observe_records [contact ''a'' t, contact ''b'' u] (NewCrossHost 600 2)) =
      snd (cross_Observe u (snd (contact ''b'' u)) ((tracking 600 t t [(''a'', t)])\<lparr>ch_minHosts := 2\<rparr>))"
    by (simp add: observe_contact contact_begins assms(1) case_prod_beta)
  also have "\<dots> = [\<lparr>sg_Kind = KindC2FanIn, sg_Key = ''9.9.9.9'', sg_Hosts = sort [''a'', ''b''], sg_FirstSeen = t,
      sg_LastSeen = u, sg_Summary = summarize KindC2FanIn ''9.9.9.9'' (sort [''a'', ''b''])\<rparr>]"
    by (rule contact_fires [OF assms]) simp
  finally show ?thesis
    unfolding sort_two_hosts .
qed

lemma sample_times: "\<not> is_zero 0" "\<not> is_zero 1" "\<not> is_zero 600" "\<not> is_zero 36000"
  "time_sub 600 0 = 600" "time_sub 1 36000 = - 35999"
  by (simp_all add: is_zero_def zero_time_def time_sub_def int64_min_def int64_max_def)

theorem signals_justified_witness:
  "sorted (map record_time [contact ''a'' 0, contact ''b'' 600]) \<and>
   snd (observe_records [contact ''a'' 0, contact ''b'' 600] (NewCrossHost 600 2)) \<noteq> [] \<and>
   list_all (signal_justified 600 2 (set [contact ''a'' 0, contact ''b'' 600]))
     (snd (observe_records [contact ''a'' 0, contact ''b'' 600] (NewCrossHost 600 2)))"
proof (intro conjI)
  show sorted: "sorted (map record_time [contact ''a'' 0, contact ''b'' 600])"
    by (simp add: record_time_def contact_def timeOf_def sample_times)
  show "snd (observe_records [contact ''a'' 0, contact ''b'' 600] (NewCrossHost 600 2)) \<noteq> []"
    using two_contacts [of 0 600] by (simp add: sample_times)
  show "list_all (signal_justified 600 2 (set [contact ''a'' 0, contact ''b'' 600]))
     (snd (observe_records [contact ''a'' 0, contact ''b'' 600] (NewCrossHost 600 2)))"
    by (rule signals_justified [OF sorted])
qed

text \<open>
  Out of order the window is one-sided: a record dated long before the others counts them all as recent,
  because only sightings older than the window are dropped. Two contacts almost sixty windows apart raise a signal
  when the later one is reported first.
\<close>

theorem late_record_raises_signal:
  "map sg_Hosts (snd (observe_records [contact ''a'' 36000, contact ''b'' 1] (NewCrossHost 600 2))) = [[''a'', ''b'']] \<and>
   \<not> list_ex (signal_justified 600 2 (set [contact ''a'' 36000, contact ''b'' 1]))
       (snd (observe_records [contact ''a'' 36000, contact ''b'' 1] (NewCrossHost 600 2)))"
proof -
  have run: "snd (observe_records [contact ''a'' 36000, contact ''b'' 1] (NewCrossHost 600 2)) =
      [\<lparr>sg_Kind = KindC2FanIn, sg_Key = ''9.9.9.9'', sg_Hosts = [''a'', ''b''], sg_FirstSeen = 36000, sg_LastSeen = 1,
        sg_Summary = summarize KindC2FanIn ''9.9.9.9'' [''a'', ''b'']\<rparr>]"
    by (rule two_contacts) (simp_all add: sample_times)
  show ?thesis
    unfolding run by (simp add: signal_justified_def sighted_def contact_def timeOf_def sample_times)
qed

end
