(* ===== verification/Ruleset.thy ===== *)
theory Ruleset
  imports Detect_Engine Respond
begin

text \<open>
  The bundle of detection rules the control plane serves, \<^verbatim>\<open>server/ruleset/ruleset.go\<close>, and the posture
  document that travels in it, \<^verbatim>\<open>internal/policy/policy.go\<close>. SHA-256 is the argument \<open>sha\<close> (a byte string to
  the hexadecimal text of its digest) and YAML decoding is an argument; files are read through a
  \<^typ>\<open>rule_dir\<close>. The directory may change between the validation and the reading that follows it, so \<open>Reload\<close>
  takes the directory as it is at each of the two moments.
\<close>

section \<open>Base names\<close>

text \<open>
  \<open>filepath.Base\<close>: the last element of a path, after trailing slashes are removed; \<open>.\<close> for the empty path
  and \<open>/\<close> for a path of slashes.
\<close>

definition is_slash :: "char \<Rightarrow> bool" where
  "is_slash c \<longleftrightarrow> c = CHR 0x2F"

definition path_base :: "string \<Rightarrow> string" where
  "path_base path =
     (if path = [] then ''.''
      else let trimmed = rev (dropWhile is_slash (rev path)) in
           if trimmed = [] then ''/''
           else rev (takeWhile (\<lambda>c. \<not> is_slash c) (rev trimmed)))"

section \<open>The posture document (policy.go)\<close>

definition policy_FileName :: string where
  "policy_FileName = ''argus-policy.yml''"

record policy_doc =
  po_Mode :: string

datatype policy_error = PolicyUnparsable | PolicyBadMode string

definition validModes :: "string list" where
  "validModes = [''off'', ''dry-run'', ''enforce'']"

definition policy_Parse :: "(string \<Rightarrow> policy_doc option) \<Rightarrow> string \<Rightarrow> policy_error + policy_doc" where
  "policy_Parse decode data =
     (case decode data of
        None \<Rightarrow> Inl PolicyUnparsable
      | Some parsed \<Rightarrow>
          if po_Mode parsed \<noteq> [] \<and> po_Mode parsed \<notin> set validModes then Inl (PolicyBadMode (po_Mode parsed))
          else Inr parsed)"

section \<open>The provider (ruleset.go)\<close>

definition versionLen :: nat where
  "versionLen = 12"

record rule_file =
  rf_Name :: string
  rf_Content :: string

record provider =
  pv_policyFile :: string
  pv_version :: string
  pv_files :: "rule_file list"

datatype reload_error =
    InvalidRules load_error
  | RulesScan
  | RuleRead string
  | PolicyRead string
  | PolicyInvalid policy_error

text \<open>
  What is written to the hash for one file: its name and the length of its content, each ended by a zero
  byte, then the content.
\<close>

definition hash_entry :: "string \<Rightarrow> string \<Rightarrow> string" where
  "hash_entry name content = name @ CHR 0x00 # nat_str (length content) @ CHR 0x00 # content"

fun read_rule_files :: "rule_dir \<Rightarrow> string list \<Rightarrow> reload_error + (rule_file list \<times> string)" where
  "read_rule_files D [] = Inr ([], [])"
| "read_rule_files D (path # paths) =
     (case rd_read D path of
        None \<Rightarrow> Inl (RuleRead path)
      | Some content \<Rightarrow>
          sum_bind (read_rule_files D paths) (\<lambda>(files, hashed).
            Inr (\<lparr>rf_Name = path_base path, rf_Content = content\<rparr> # files, hash_entry (path_base path) content @ hashed)))"

definition loadPolicy ::
  "(string \<Rightarrow> string option) \<Rightarrow> (string \<Rightarrow> policy_doc option) \<Rightarrow> provider \<Rightarrow> reload_error + (rule_file option \<times> string)" where
  "loadPolicy read decode p =
     (if pv_policyFile p = [] then Inr (None, [])
      else case read (pv_policyFile p) of
             None \<Rightarrow> Inl (PolicyRead (pv_policyFile p))
           | Some content \<Rightarrow>
               (case policy_Parse decode content of
                  Inl err \<Rightarrow> Inl (PolicyInvalid err)
                | Inr _ \<Rightarrow> Inr (Some \<lparr>rf_Name = policy_FileName, rf_Content = content\<rparr>, hash_entry policy_FileName content)))"

text \<open>
  \<open>D\<close> is the directory as the validation sees it and \<open>D'\<close> as the reading after it does. An error leaves the
  provider as it was.
\<close>

definition Reload ::
  "go_lib \<Rightarrow> (string \<Rightarrow> string) \<Rightarrow> (string \<Rightarrow> policy_doc option) \<Rightarrow> (string \<Rightarrow> string option) \<Rightarrow> rule_dir \<Rightarrow> rule_dir \<Rightarrow>
   provider \<Rightarrow> reload_error option \<times> provider" where
  "Reload L sha decode readPolicy D D' p =
     (case LoadDir L D of
        Inl err \<Rightarrow> (Some (InvalidRules err), p)
      | Inr _ \<Rightarrow>
          (case rd_glob D' of
             None \<Rightarrow> (Some RulesScan, p)
           | Some paths \<Rightarrow>
               (case read_rule_files D' (sort paths) of
                  Inl err \<Rightarrow> (Some err, p)
                | Inr (files, hashed) \<Rightarrow>
                    (case loadPolicy readPolicy decode p of
                       Inl err \<Rightarrow> (Some err, p)
                     | Inr (policyFile, posture) \<Rightarrow>
                         (None, p\<lparr>pv_version := take versionLen (sha (hashed @ posture)),
                           pv_files := files @ (case policyFile of None \<Rightarrow> [] | Some f \<Rightarrow> [f])\<rparr>)))))"

definition NewProvider ::
  "go_lib \<Rightarrow> (string \<Rightarrow> string) \<Rightarrow> (string \<Rightarrow> policy_doc option) \<Rightarrow> (string \<Rightarrow> string option) \<Rightarrow> rule_dir \<Rightarrow> rule_dir \<Rightarrow>
   string \<Rightarrow> reload_error + provider" where
  "NewProvider L sha decode readPolicy D D' policyFile =
     (case Reload L sha decode readPolicy D D' \<lparr>pv_policyFile = policyFile, pv_version = [], pv_files = []\<rparr> of
        (Some err, _) \<Rightarrow> Inl err
      | (None, p) \<Rightarrow> Inr p)"

definition provider_Version :: "provider \<Rightarrow> string" where
  "provider_Version p = pv_version p"

definition Bundle :: "provider \<Rightarrow> string \<times> rule_file list" where
  "Bundle p = (pv_version p, pv_files p)"

record ruleInfo =
  ri_ID :: string
  ri_Name :: string
  ri_Description :: string
  ri_Severity :: string
  ri_Technique :: technique
  ri_Enabled :: bool
  ri_RiskScore :: int

definition Catalogue :: "go_lib \<Rightarrow> rule_dir \<Rightarrow> load_error + ruleInfo list" where
  "Catalogue L D =
     (case LoadDir L D of
        Inl err \<Rightarrow> Inl err
      | Inr rules \<Rightarrow> Inr (map (\<lambda>r. \<lparr>ri_ID = r_ID r, ri_Name = r_Name r, ri_Description = r_Description r,
          ri_Severity = severity_String (r_Severity r), ri_Technique = r_Technique r, ri_Enabled = r_Enabled r,
          ri_RiskScore = r_RiskScore r\<rparr>) rules))"

section \<open>The version determines the bundle\<close>

definition bundle_bytes :: "rule_file list \<Rightarrow> string" where
  "bundle_bytes files = concat (map (\<lambda>f. hash_entry (rf_Name f) (rf_Content f)) files)"

lemma takeWhile_until: "x \<notin> set xs \<Longrightarrow> takeWhile (\<lambda>y. y \<noteq> x) (xs @ x # ys) = xs"
  by (induction xs) auto

lemma append_sep_inject:
  assumes "x \<notin> set xs" and "x \<notin> set ys" and "xs @ x # us = ys @ x # vs"
  shows "xs = ys \<and> us = vs"
  using assms takeWhile_until [of x xs us] takeWhile_until [of x ys vs] by auto

lemma hash_entry_inject:
  assumes "CHR 0x00 \<notin> set name" and "CHR 0x00 \<notin> set name'"
    and "hash_entry name content @ rest = hash_entry name' content' @ rest'"
  shows "name = name' \<and> content = content' \<and> rest = rest'"
proof -
  have digits: "CHR 0x00 \<notin> set (nat_str n)" for n
    by (rule nat_str_no_char) (simp add: is_digit_def)
  have "name = name' \<and> nat_str (length content) @ CHR 0x00 # (content @ rest) = nat_str (length content') @ CHR 0x00 # (content' @ rest')"
    using append_sep_inject [OF assms(1,2)] assms(3) by (simp add: hash_entry_def)
  moreover from this have "length content = length content' \<and> content @ rest = content' @ rest'"
    using append_sep_inject [OF digits digits, of "length content" "content @ rest" "length content'" "content' @ rest'"]
    by simp
  ultimately show ?thesis by auto
qed

lemma hash_entry_nonempty [simp]: "hash_entry name content \<noteq> []"
  by (simp add: hash_entry_def)

lemma bundle_bytes_inject:
  assumes "\<forall>f \<in> set fs. CHR 0x00 \<notin> set (rf_Name f)" and "\<forall>f \<in> set gs. CHR 0x00 \<notin> set (rf_Name f)"
    and "bundle_bytes fs = bundle_bytes gs"
  shows "fs = gs"
  using assms
proof (induction fs arbitrary: gs)
  case Nil
  then show ?case by (cases gs) (auto simp: bundle_bytes_def)
next
  case (Cons f fs)
  show ?case
  proof (cases gs)
    case Nil
    then show ?thesis using Cons.prems(3) by (simp add: bundle_bytes_def)
  next
    case (Cons g gs')
    have "rf_Name f = rf_Name g \<and> rf_Content f = rf_Content g \<and> bundle_bytes fs = bundle_bytes gs'"
      using hash_entry_inject [of "rf_Name f" "rf_Name g" "rf_Content f" "bundle_bytes fs" "rf_Content g" "bundle_bytes gs'"]
        Cons.prems Cons by (simp add: bundle_bytes_def)
    then show ?thesis using Cons.IH [of gs'] Cons.prems Cons by (simp add: rule_file.equality)
  qed
qed

lemma set_path_base: "set (path_base path) \<subseteq> set path \<union> {CHR 0x2E, CHR 0x2F}"
proof -
  have "set (takeWhile (\<lambda>c. \<not> is_slash c) (dropWhile is_slash (rev path))) \<subseteq> set path"
    by (metis set_rev set_takeWhileD set_dropWhileD subsetI)
  then show ?thesis by (auto simp: path_base_def Let_def)
qed

lemma read_rule_files_Inr:
  "read_rule_files D paths = Inr (files, hashed) \<Longrightarrow>
     hashed = bundle_bytes files \<and> map rf_Name files = map path_base paths \<and>
     list_all2 (\<lambda>path f. rd_read D path = Some (rf_Content f)) paths files"
proof (induction paths arbitrary: files hashed)
  case (Cons path paths)
  then show ?case by (auto simp: sum_bind_Inr bundle_bytes_def split: option.splits)
qed (simp add: bundle_bytes_def)

lemma loadPolicy_Inr:
  "loadPolicy readPolicy decode p = Inr (f, hashed) \<Longrightarrow>
     hashed = bundle_bytes (case f of None \<Rightarrow> [] | Some f \<Rightarrow> [f]) \<and>
     (f = None \<longleftrightarrow> pv_policyFile p = []) \<and>
     (\<forall>g. f = Some g \<longrightarrow> rf_Name g = policy_FileName \<and> readPolicy (pv_policyFile p) = Some (rf_Content g) \<and>
        (\<exists>doc. policy_Parse decode (rf_Content g) = Inr doc))"
  by (auto simp: loadPolicy_def bundle_bytes_def split: if_splits option.splits sum.splits)

text \<open>The files a provider serves from directory \<open>D\<close>: each rule file under its base name, then the posture document.\<close>

definition serves :: "rule_dir \<Rightarrow> rule_file list \<Rightarrow> rule_file option \<Rightarrow> bool" where
  "serves D files posture \<longleftrightarrow>
     (\<exists>paths rules. rd_glob D = Some paths \<and> files = rules @ (case posture of None \<Rightarrow> [] | Some f \<Rightarrow> [f]) \<and>
        map rf_Name rules = map path_base (sort paths) \<and>
        list_all2 (\<lambda>path f. rd_read D path = Some (rf_Content f)) (sort paths) rules)"

lemma Reload_ok:
  assumes "Reload L sha decode readPolicy D D' p = (None, p')"
  shows "(\<exists>rules. LoadDir L D = Inr rules) \<and> pv_policyFile p' = pv_policyFile p \<and>
    pv_version p' = take versionLen (sha (bundle_bytes (pv_files p'))) \<and>
    (\<exists>posture. serves D' (pv_files p') posture \<and> (posture = None \<longleftrightarrow> pv_policyFile p = []) \<and>
       (\<forall>f. posture = Some f \<longrightarrow> rf_Name f = policy_FileName \<and> (\<exists>doc. policy_Parse decode (rf_Content f) = Inr doc)))"
proof -
  obtain rules paths files hashed posture tail where r:
      "LoadDir L D = Inr rules" "rd_glob D' = Some paths" "read_rule_files D' (sort paths) = Inr (files, hashed)"
      "loadPolicy readPolicy decode p = Inr (posture, tail)"
      "p' = p\<lparr>pv_version := take versionLen (sha (hashed @ tail)), pv_files := files @ (case posture of None \<Rightarrow> [] | Some f \<Rightarrow> [f])\<rparr>"
    using assms by (auto simp: Reload_def split: sum.splits option.splits prod.splits)
  have "hashed @ tail = bundle_bytes (files @ (case posture of None \<Rightarrow> [] | Some f \<Rightarrow> [f]))"
    using read_rule_files_Inr [OF r(3)] loadPolicy_Inr [OF r(4)] by (simp add: bundle_bytes_def)
  moreover have "serves D' (files @ (case posture of None \<Rightarrow> [] | Some f \<Rightarrow> [f])) posture"
    using read_rule_files_Inr [OF r(3)] r(2) by (auto simp: serves_def)
  ultimately show ?thesis using r loadPolicy_Inr [OF r(4)] by auto
qed

lemma Reload_error: "Reload L sha decode readPolicy D D' p = (Some err, p') \<Longrightarrow> p' = p"
  by (auto simp: Reload_def split: sum.splits option.splits prod.splits)

text \<open>
  C24. A reload replaces the served bundle as a whole or not at all. After an error the provider is what it was;
  after a success the rules validated, the bundle is the rule files under their base names followed by a
  valid posture document where one is configured, and the version is the prefix of the digest of exactly
  these names and contents.
\<close>

theorem Reload_all_or_nothing:
  "case Reload L sha decode readPolicy D D' p of
     (Some err, p') \<Rightarrow> p' = p
   | (None, p') \<Rightarrow> (\<exists>rules. LoadDir L D = Inr rules) \<and>
       pv_version p' = take versionLen (sha (bundle_bytes (pv_files p'))) \<and>
       (\<exists>posture. serves D' (pv_files p') posture \<and>
          (case posture of
             None \<Rightarrow> pv_policyFile p = []
           | Some f \<Rightarrow> pv_policyFile p \<noteq> [] \<and> rf_Name f = policy_FileName \<and> (\<exists>doc. policy_Parse decode (rf_Content f) = Inr doc)))"
proof (cases "Reload L sha decode readPolicy D D' p")
  case (Pair err p')
  show ?thesis
  proof (cases err)
    case None
    then obtain posture where "serves D' (pv_files p') posture" "(posture = None) = (pv_policyFile p = [])"
        "\<forall>f. posture = Some f \<longrightarrow> rf_Name f = policy_FileName \<and> (\<exists>doc. policy_Parse decode (rf_Content f) = Inr doc)"
      using Reload_ok [of L sha decode readPolicy D D' p p'] Pair by blast
    then have "\<exists>posture. serves D' (pv_files p') posture \<and> (case posture of None \<Rightarrow> pv_policyFile p = []
        | Some f \<Rightarrow> pv_policyFile p \<noteq> [] \<and> rf_Name f = policy_FileName \<and> (\<exists>doc. policy_Parse decode (rf_Content f) = Inr doc))"
      by (intro exI [of _ posture]) (cases posture, simp_all)
    then show ?thesis using Reload_ok [of L sha decode readPolicy D D' p p'] None by (simp add: Pair)
  next
    case (Some x)
    then show ?thesis using Reload_error [of L sha decode readPolicy D D' p x p'] by (simp add: Pair)
  qed
qed

text \<open>Paths of a file system hold no zero byte.\<close>

definition no_nul :: "rule_dir \<Rightarrow> bool" where
  "no_nul D \<longleftrightarrow> (\<forall>paths. rd_glob D = Some paths \<longrightarrow> (\<forall>path \<in> set paths. CHR 0x00 \<notin> set path))"

lemma served_names:
  assumes "serves D files posture" and "no_nul D" and "\<forall>f. posture = Some f \<longrightarrow> rf_Name f = policy_FileName"
  shows "\<forall>f \<in> set files. CHR 0x00 \<notin> set (rf_Name f)"
proof -
  obtain paths rules where r: "rd_glob D = Some paths" "files = rules @ (case posture of None \<Rightarrow> [] | Some f \<Rightarrow> [f])"
      "map rf_Name rules = map path_base (sort paths)"
    using assms(1) by (auto simp: serves_def)
  have "CHR 0x00 \<notin> set (rf_Name f)" if "f \<in> set rules" for f
  proof -
    have "rf_Name f \<in> set (map path_base (sort paths))" using that r(3) by (metis image_eqI list.set_map)
    then obtain path where "path \<in> set paths" "rf_Name f = path_base path" by auto
    then show ?thesis using set_path_base [of path] assms(2) r(1) by (auto simp: no_nul_def)
  qed
  moreover have "CHR 0x00 \<notin> set policy_FileName" by (simp add: policy_FileName_def)
  ultimately show ?thesis using r(2) assms(3) by (auto split: option.splits)
qed

text \<open>
  Two bundles with one version are the same bundle, name by name and byte by byte, unless two different
  inputs of the hash agree on the first twelve digits of their digests. Renaming a file or moving bytes from
  one file to the next changes what is hashed.
\<close>

theorem version_determines_bundle:
  assumes "Reload L sha decode readPolicy D1 D p = (None, p')" and "Reload L sha decode readPolicy' E1 E q = (None, q')"
    and "no_nul D" and "no_nul E" and "provider_Version p' = provider_Version q'"
    and "bundle_bytes (pv_files p') \<noteq> bundle_bytes (pv_files q') \<Longrightarrow>
      take versionLen (sha (bundle_bytes (pv_files p'))) \<noteq> take versionLen (sha (bundle_bytes (pv_files q')))"
  shows "Bundle p' = Bundle q'"
proof -
  note P = Reload_ok [OF assms(1)] and Q = Reload_ok [OF assms(2)]
  have "bundle_bytes (pv_files p') = bundle_bytes (pv_files q')"
    using P Q assms(5,6) by (auto simp: provider_Version_def)
  moreover have "\<forall>f \<in> set (pv_files p'). CHR 0x00 \<notin> set (rf_Name f)" and "\<forall>f \<in> set (pv_files q'). CHR 0x00 \<notin> set (rf_Name f)"
    using P Q served_names assms(3,4) by blast+
  ultimately have "pv_files p' = pv_files q'" by (rule bundle_bytes_inject [rotated 2])
  then show ?thesis using assms(5) by (simp add: Bundle_def provider_Version_def)
qed

definition two_files :: "string list \<Rightarrow> rule_dir" where
  "two_files paths = \<lparr>rd_glob = Some paths, rd_read = (\<lambda>path. Some (path_base path)), rd_decode = (\<lambda>_. None)\<rparr>"

definition rules_only :: provider where
  "rules_only = \<lparr>pv_policyFile = [], pv_version = [], pv_files = []\<rparr>"

lemma Reload_two_files:
  "\<exists>p'. Reload literal_lib sha decode readPolicy sample_dir (two_files paths) rules_only = (None, p') \<and>
     pv_files p' = map (\<lambda>path. \<lparr>rf_Name = path_base path, rf_Content = path_base path\<rparr>) (sort paths)"
proof -
  have "\<exists>h. read_rule_files (two_files paths) ps = Inr (map (\<lambda>path. \<lparr>rf_Name = path_base path, rf_Content = path_base path\<rparr>) ps, h)" for ps
    by (induction ps) (auto simp: two_files_def)
  then obtain h where "read_rule_files (two_files paths) (sort paths) =
      Inr (map (\<lambda>path. \<lparr>rf_Name = path_base path, rf_Content = path_base path\<rparr>) (sort paths), h)"
    by blast
  moreover have "rd_glob (two_files paths) = Some paths" by (simp add: two_files_def)
  ultimately show ?thesis
    using sample_dir_loads by (auto simp: Reload_def loadPolicy_def rules_only_def)
qed

theorem version_determines_bundle_witness:
  "\<exists>p' q'. Reload literal_lib id (\<lambda>_. None) (\<lambda>_. None) sample_dir (two_files [''r/b.yaml'', ''r/a.yaml'']) rules_only = (None, p') \<and>
     Reload literal_lib id (\<lambda>_. None) (\<lambda>_. None) sample_dir (two_files [''r/a.yaml'', ''r/b.yaml'']) rules_only = (None, q') \<and>
     Bundle p' = Bundle q'"
proof -
  obtain p' where p: "Reload literal_lib id (\<lambda>_. None) (\<lambda>_. None) sample_dir (two_files [''r/b.yaml'', ''r/a.yaml'']) rules_only = (None, p')"
      "pv_files p' = map (\<lambda>path. \<lparr>rf_Name = path_base path, rf_Content = path_base path\<rparr>) (sort [''r/b.yaml'', ''r/a.yaml''])"
    using Reload_two_files by blast
  obtain q' where q: "Reload literal_lib id (\<lambda>_. None) (\<lambda>_. None) sample_dir (two_files [''r/a.yaml'', ''r/b.yaml'']) rules_only = (None, q')"
      "pv_files q' = map (\<lambda>path. \<lparr>rf_Name = path_base path, rf_Content = path_base path\<rparr>) (sort [''r/a.yaml'', ''r/b.yaml''])"
    using Reload_two_files by blast
  have files: "pv_files p' = pv_files q'" unfolding p(2) q(2) by simp
  then have "provider_Version p' = provider_Version q'"
    using Reload_ok [OF p(1)] Reload_ok [OF q(1)] by (simp add: provider_Version_def)
  then have "Bundle p' = Bundle q'"
    using version_determines_bundle [OF p(1) q(1)] files by (simp add: no_nul_def two_files_def)
  then show ?thesis using p(1) q(1) by blast
qed

end
