(* ===== verification/Fleet_Api.thy ===== *)
theory Fleet_Api
  imports Cross_Host Ruleset
begin

text \<open>
  The agent-facing service of the control plane, \<^verbatim>\<open>server/api/service.go\<close> and \<^verbatim>\<open>convert.go\<close>: enrolment,
  the certificate check that ties requests to an agent, heartbeats with command delivery, the alert stream and
  the rule download. The peer's certificate fingerprint (empty for a peer without TLS) is an argument of each
  request, as are the clock and the random bytes of the store. The callbacks \<open>OnAlert\<close> and \<open>OnSignal\<close> are the
  records and signals a request hands out. A request is one step; \<open>authorizeIdentity\<close> in the code takes the store's
  lock twice, to read the agent and to promote its certificate, and what another request does in between is not
  modelled. Logging is not modelled.
\<close>

section \<open>Wire types and conversions (convert.go)\<close>

definition Command_Kind_value :: "(string, int) gomap" where
  "Command_Kind_value = [(''KIND_UNSPECIFIED'', 0), (''UPDATE_RULES'', 1), (''SET_RESPONSE_MODE'', 2),
     (''KILL_PROCESS'', 3), (''QUARANTINE'', 4)]"

abbreviation (input) cmdUpdateRules :: string where "cmdUpdateRules \<equiv> ''UPDATE_RULES''"
abbreviation (input) cmdSetResponseMode :: string where "cmdSetResponseMode \<equiv> ''SET_RESPONSE_MODE''"
abbreviation (input) cmdKillProcess :: string where "cmdKillProcess \<equiv> ''KILL_PROCESS''"
abbreviation (input) cmdQuarantine :: string where "cmdQuarantine \<equiv> ''QUARANTINE''"

record wire_command =
  wc_Kind :: int
  wc_Argument :: string

definition toProtoCommands :: "command list \<Rightarrow> wire_command list" where
  "toProtoCommands cs =
     map (\<lambda>c. \<lparr>wc_Kind = (case map_of Command_Kind_value (cmd_Kind c) of Some v \<Rightarrow> v | None \<Rightarrow> 0),
       wc_Argument = cmd_Argument c\<rparr>) cs"

record alert_report =
  rp_AgentId :: string
  rp_Hostname :: string
  rp_Timestamp :: "go_time option"
  rp_RuleId :: string
  rp_RuleName :: string
  rp_Severity :: string
  rp_TechniqueId :: string
  rp_TechniqueName :: string
  rp_Pid :: uint32
  rp_ProcessName :: string
  rp_ProcessExecutable :: string
  rp_DestinationIp :: string
  rp_RiskScore :: "32 word"
  rp_IsIncident :: bool

definition recordFromReport :: "alert_report \<Rightarrow> alertRecord" where
  "recordFromReport rp = \<lparr>ar_ID = [], ar_AgentID = rp_AgentId rp, ar_Hostname = rp_Hostname rp,
     ar_Time = (case rp_Timestamp rp of Some t \<Rightarrow> t | None \<Rightarrow> zero_time), ar_RuleID = rp_RuleId rp,
     ar_RuleName = rp_RuleName rp, ar_Severity = rp_Severity rp, ar_TechniqueID = rp_TechniqueId rp,
     ar_TechniqueName = rp_TechniqueName rp, ar_PID = rp_Pid rp, ar_ProcessName = rp_ProcessName rp,
     ar_ProcessExecutable = rp_ProcessExecutable rp, ar_DestinationIP = rp_DestinationIp rp,
     ar_RiskScore = sint (rp_RiskScore rp), ar_IsIncident = rp_IsIncident rp\<rparr>"

text \<open>
  \<open>peerLeaf\<close> and \<open>peerFingerprint\<close>: the bytes of the first peer certificate, where the connection has TLS and a
  certificate, and the digest of them.
\<close>

definition peerLeaf :: "string list option \<Rightarrow> string option" where
  "peerLeaf tls = (case tls of Some (cert # _) \<Rightarrow> Some cert | _ \<Rightarrow> None)"

definition peerFingerprint :: "(string \<Rightarrow> string) \<Rightarrow> string list option \<Rightarrow> string" where
  "peerFingerprint sha tls = (case peerLeaf tls of None \<Rightarrow> [] | Some cert \<Rightarrow> sha cert)"

section \<open>The service (service.go)\<close>

datatype rpc_error = PermissionDenied string | InvalidArgument string | NotFound string | StreamBroken string

record service =
  sv_store :: fleet_store
  sv_rules :: provider
  sv_correlator :: "crossHost option"
  sv_token :: string

record enroll_request =
  er_Hostname :: string
  er_AgentVersion :: string
  er_Kernel :: string
  er_EnrollmentToken :: string

record enroll_response =
  ep_AgentId :: string
  ep_RulesVersion :: string

definition api_Enroll ::
  "random_id \<Rightarrow> go_time \<Rightarrow> string \<Rightarrow> enroll_request \<Rightarrow> service \<Rightarrow> (rpc_error + enroll_response) \<times> service" where
  "api_Enroll rnd now fp req s =
     (if sv_token s \<noteq> [] \<and> er_EnrollmentToken req \<noteq> sv_token s then
        (Inl (PermissionDenied ''invalid enrollment token''), s)
      else if er_Hostname req = [] then (Inl (InvalidArgument ''hostname is required''), s)
      else case store_Enroll rnd now (er_Hostname req) (er_AgentVersion req) (er_Kernel req) fp (sv_store s) of
        (agent, m) \<Rightarrow>
          (Inr \<lparr>ep_AgentId = ag_ID agent, ep_RulesVersion = provider_Version (sv_rules s)\<rparr>, s\<lparr>sv_store := m\<rparr>))"

definition authorizeIdentity :: "string \<Rightarrow> string \<Rightarrow> service \<Rightarrow> (rpc_error + agent) \<times> service" where
  "authorizeIdentity agentID fp s =
     (case store_Get agentID (sv_store s) of
        None \<Rightarrow> (Inl (NotFound agentID), s)
      | Some agent \<Rightarrow>
          if ag_CertFingerprint agent = [] \<or> fp = ag_CertFingerprint agent then (Inr agent, s)
          else if ag_PendingCertFingerprint agent \<noteq> [] \<and> fp = ag_PendingCertFingerprint agent then
            (case PromoteCert agentID fp (sv_store s) of (_, m) \<Rightarrow>
               (Inr (agent\<lparr>ag_CertFingerprint := fp, ag_PendingCertFingerprint := []\<rparr>), s\<lparr>sv_store := m\<rparr>))
          else (Inl (PermissionDenied ''client certificate does not match the enrolled agent''), s))"

record heartbeat_request =
  hb_AgentId :: string
  hb_EventsProcessed :: uint64
  hb_Alerts :: uint64
  hb_Incidents :: uint64
  hb_RulesVersion :: string

definition api_Heartbeat ::
  "go_time \<Rightarrow> string \<Rightarrow> heartbeat_request \<Rightarrow> service \<Rightarrow> (rpc_error + wire_command list) \<times> service" where
  "api_Heartbeat now fp req s =
     (case authorizeIdentity (hb_AgentId req) fp s of
        (Inl err, s) \<Rightarrow> (Inl err, s)
      | (Inr _, s) \<Rightarrow>
          (case store_Heartbeat now (hb_AgentId req) \<lparr>as_EventsProcessed = hb_EventsProcessed req,
                as_Alerts = hb_Alerts req, as_Incidents = hb_Incidents req, as_RulesVersion = hb_RulesVersion req\<rparr>
                (sv_store s) of
             (None, m) \<Rightarrow> (Inl (NotFound (hb_AgentId req)), s\<lparr>sv_store := m\<rparr>)
           | (Some agent, m) \<Rightarrow>
               (case DrainCommands (ag_ID agent) m of (commands, m) \<Rightarrow>
                  let current = provider_Version (sv_rules s);
                      commands = (if hb_RulesVersion req \<noteq> current
                        then \<lparr>cmd_Kind = cmdUpdateRules, cmd_Argument = current\<rparr> # commands else commands)
                  in (Inr (toProtoCommands commands), s\<lparr>sv_store := m\<rparr>))))"

text \<open>
  One round of the loop of \<open>ReportAlerts\<close>, for one received report. The stream's own variables are the agent it
  is authorised for (empty before the first report) and the number of reports so far. What the round hands
  out are the record given to \<open>OnAlert\<close> and the signals given to \<open>OnSignal\<close>.
\<close>

record alert_stream =
  as_authorized :: string
  as_received :: nat

definition report_round ::
  "random_id \<Rightarrow> go_time \<Rightarrow> string \<Rightarrow> alert_report \<Rightarrow> alert_stream \<Rightarrow> service \<Rightarrow>
   (rpc_error + (alert_stream \<times> alertRecord \<times> fleet_signal list)) \<times> service" where
  "report_round rnd clock fp rp st s =
     (let deliver = (\<lambda>s.
            let r = recordFromReport rp;
                s = s\<lparr>sv_store := RecordAlert rnd r (sv_store s)\<rparr>;
                st = \<lparr>as_authorized = rp_AgentId rp, as_received = as_received st + 1\<rparr>
            in case sv_correlator s of
                 None \<Rightarrow> (Inr (st, r, []), s)
               | Some c \<Rightarrow> (case cross_Observe clock r c of (c, signals) \<Rightarrow>
                   (Inr (st, r, signals), s\<lparr>sv_correlator := Some c\<rparr>)))
      in if as_authorized st = [] then
           (case authorizeIdentity (rp_AgentId rp) fp s of
              (Inl err, s) \<Rightarrow> (Inl err, s)
            | (Inr _, s) \<Rightarrow> deliver s)
         else if rp_AgentId rp \<noteq> as_authorized st then
           (Inl (PermissionDenied ''all alerts in a stream must come from the enrolled agent''), s)
         else deliver s)"

text \<open>
  A whole stream without interleaved requests: the reports that \<open>Recv\<close> returns, and then the end of the stream
  or an error. The result is the error or the acknowledged count, with the records and signals handed out.
\<close>

fun ReportAlerts ::
  "string \<Rightarrow> rpc_error option \<Rightarrow> (random_id \<times> go_time \<times> alert_report) list \<Rightarrow> alert_stream \<Rightarrow> service \<Rightarrow>
   (rpc_error + nat) \<times> alertRecord list \<times> fleet_signal list \<times> service" where
  "ReportAlerts fp ending [] st s =
     ((case ending of None \<Rightarrow> Inr (as_received st) | Some err \<Rightarrow> Inl err), [], [], s)"
| "ReportAlerts fp ending ((rnd, clock, rp) # rps) st s =
     (case report_round rnd clock fp rp st s of
        (Inl err, s) \<Rightarrow> (Inl err, [], [], s)
      | (Inr (st, r, signals), s) \<Rightarrow>
          (case ReportAlerts fp ending rps st s of (res, rs, ss, s) \<Rightarrow> (res, r # rs, signals @ ss, s)))"

definition new_stream :: alert_stream where
  "new_stream = \<lparr>as_authorized = [], as_received = 0\<rparr>"

datatype rules_response = RulesUnchanged string | RulesBundle string "rule_file list"

definition GetRules :: "string \<Rightarrow> service \<Rightarrow> rules_response" where
  "GetRules known s =
     (case Bundle (sv_rules s) of (version, files) \<Rightarrow>
        if known = version then RulesUnchanged version else RulesBundle version files)"

section \<open>Certificate rotation\<close>

lemma store_Get_update [simp]: "store_Get i (m\<lparr>fs_agents := AList.update j a (fs_agents m)\<rparr>) = (if i = j then Some a else store_Get i m)"
  by (simp add: store_Get_def)

lemma store_Get_alerts [simp]: "store_Get i (m\<lparr>fs_alerts := x\<rparr>) = store_Get i m"
  by (simp add: store_Get_def)

lemma store_Get_commands [simp]: "store_Get i (m\<lparr>fs_commands := x\<rparr>) = store_Get i m"
  by (simp add: store_Get_def)

lemma store_Get_Enroll:
  "store_Get i (snd (store_Enroll rnd now h v k fp m)) = (if i = NewID rnd then Some (fst (store_Enroll rnd now h v k fp m)) else store_Get i m)"
  by (simp add: store_Enroll_def Let_def)

lemma store_Get_SetPending:
  "store_Get i (snd (SetPendingCert j fp m)) =
     (if i = j then map_option (\<lambda>a. a\<lparr>ag_PendingCertFingerprint := fp\<rparr>) (store_Get i m) else store_Get i m)"
  by (auto simp: SetPendingCert_def store_Get_def split: option.splits)

lemma store_Get_Heartbeat:
  "map_option ag_CertFingerprint (store_Get i (snd (store_Heartbeat now j st m))) = map_option ag_CertFingerprint (store_Get i m)"
  "map_option ag_PendingCertFingerprint (store_Get i (snd (store_Heartbeat now j st m))) = map_option ag_PendingCertFingerprint (store_Get i m)"
  by (auto simp: store_Heartbeat_def store_Get_def Let_def split: option.splits)

lemma authorize_pending:
  assumes "store_Get i (sv_store s) = Some a" and "ag_CertFingerprint a \<noteq> []"
    and "ag_PendingCertFingerprint a = fp" and "fp \<noteq> []" and "fp \<noteq> ag_CertFingerprint a"
  shows "store_Get i (sv_store (snd (authorizeIdentity i fp s))) =
    Some (a\<lparr>ag_CertFingerprint := fp, ag_PendingCertFingerprint := []\<rparr>)"
  using assms by (simp add: authorizeIdentity_def PromoteCert_def store_Get_def)

text \<open>
  C25. Rotating a certificate never locks the agent out and completes at the first use of the new one: while a new
  certificate is staged both the current and the new one are accepted; using the current one changes nothing;
  once the new one has been used it is the agent's only certificate and the old one is refused.
\<close>

theorem rotation_completes:
  assumes "store_Get i (sv_store s) = Some a" and "ag_CertFingerprint a = old" and "old \<noteq> []"
    and "SetPendingCert i new_fp (sv_store s) = (staged, m)" and "new_fp \<noteq> []" and "new_fp \<noteq> old"
  shows "let s1 = s\<lparr>sv_store := m\<rparr>; s2 = snd (authorizeIdentity i new_fp s1) in
    staged \<and> (\<exists>b. authorizeIdentity i old s1 = (Inr b, s1)) \<and> (\<exists>b. fst (authorizeIdentity i new_fp s1) = Inr b) \<and>
    (\<exists>b. authorizeIdentity i new_fp s2 = (Inr b, s2)) \<and> (\<exists>err. authorizeIdentity i old s2 = (Inl err, s2))"
proof -
  have m: "staged" "store_Get i m = Some (a\<lparr>ag_PendingCertFingerprint := new_fp\<rparr>)"
    using assms(1,4) store_Get_SetPending [of i i new_fp "sv_store s"]
    by (auto simp: SetPendingCert_def store_Get_def split: option.splits)
  have "store_Get i (sv_store (snd (authorizeIdentity i new_fp (s\<lparr>sv_store := m\<rparr>)))) =
      Some (a\<lparr>ag_PendingCertFingerprint := new_fp, ag_CertFingerprint := new_fp, ag_PendingCertFingerprint := []\<rparr>)"
    using authorize_pending [of i "s\<lparr>sv_store := m\<rparr>" "a\<lparr>ag_PendingCertFingerprint := new_fp\<rparr>" new_fp] m assms by simp
  then show ?thesis
    using m assms by (auto simp: authorizeIdentity_def Let_def split: prod.splits)
qed

section \<open>Requests are tied to the agent's certificate\<close>

text \<open>
  The runs of the control plane: \<open>fleet_run s streams entitled\<close> says that the service can reach \<open>s\<close> with the
  alert streams \<open>streams\<close> open (the peer's fingerprint and the stream's variables), where \<open>entitled i\<close> are the
  fingerprints that agent \<open>i\<close> enrolled with or that an operator staged for it.
\<close>

inductive fleet_run :: "service \<Rightarrow> (nat \<rightharpoonup> string \<times> alert_stream) \<Rightarrow> (string \<Rightarrow> string set) \<Rightarrow> bool" where
  start: "sv_store s = new_fleet_store \<Longrightarrow> fleet_run s Map.empty (\<lambda>_. {})"
| enroll: "fleet_run s streams E \<Longrightarrow> api_Enroll rnd now fp req s = (Inr resp, s') \<Longrightarrow>
    fleet_run s' streams (E(ep_AgentId resp := insert fp (E (ep_AgentId resp))))"
| heartbeat: "fleet_run s streams E \<Longrightarrow> api_Heartbeat now fp req s = (res, s') \<Longrightarrow> fleet_run s' streams E"
| open_stream: "fleet_run s streams E \<Longrightarrow> fleet_run s (streams(n \<mapsto> (fp, new_stream))) E"
| report: "fleet_run s streams E \<Longrightarrow> streams n = Some (fp, st) \<Longrightarrow>
    report_round rnd clock fp rp st s = (Inr (st', r, signals), s') \<Longrightarrow> fleet_run s' (streams(n \<mapsto> (fp, st'))) E"
| refused: "fleet_run s streams E \<Longrightarrow> streams n = Some (fp, st) \<Longrightarrow>
    report_round rnd clock fp rp st s = (Inl err, s') \<Longrightarrow> fleet_run s' (streams(n := None)) E"
| close_stream: "fleet_run s streams E \<Longrightarrow> fleet_run s (streams(n := None)) E"
| rotate: "fleet_run s streams E \<Longrightarrow> fp \<noteq> [] \<Longrightarrow> SetPendingCert i fp (sv_store s) = (True, m) \<Longrightarrow>
    fleet_run (s\<lparr>sv_store := m\<rparr>) streams (E(i := insert fp (E i)))"
| queue: "fleet_run s streams E \<Longrightarrow> EnqueueCommand i c (sv_store s) = (ok, m) \<Longrightarrow> fleet_run (s\<lparr>sv_store := m\<rparr>) streams E"
| prune: "fleet_run s streams E \<Longrightarrow> PruneAlerts before (sv_store s) = (n, m) \<Longrightarrow> fleet_run (s\<lparr>sv_store := m\<rparr>) streams E"
| reload: "fleet_run s streams E \<Longrightarrow> Reload L sha decode readPolicy D D' (sv_rules s) = (err, p) \<Longrightarrow>
    fleet_run (s\<lparr>sv_rules := p\<rparr>) streams E"

text \<open>The certificates an agent has in the store are among those it is entitled to.\<close>

definition certs_entitled :: "fleet_store \<Rightarrow> (string \<Rightarrow> string set) \<Rightarrow> bool" where
  "certs_entitled m E \<longleftrightarrow>
     (\<forall>i a. store_Get i m = Some a \<longrightarrow>
        ag_CertFingerprint a \<in> E i \<and> (ag_PendingCertFingerprint a \<noteq> [] \<longrightarrow> ag_PendingCertFingerprint a \<in> E i))"

definition entitled :: "(string \<Rightarrow> string set) \<Rightarrow> string \<Rightarrow> string \<Rightarrow> bool" where
  "entitled E i fp \<longleftrightarrow> [] \<in> E i \<or> fp \<in> E i"

definition streams_entitled :: "(nat \<rightharpoonup> string \<times> alert_stream) \<Rightarrow> (string \<Rightarrow> string set) \<Rightarrow> bool" where
  "streams_entitled streams E \<longleftrightarrow>
     (\<forall>n fp st. streams n = Some (fp, st) \<longrightarrow> as_authorized st \<noteq> [] \<longrightarrow> entitled E (as_authorized st) fp)"

lemma authorize_certs:
  assumes "certs_entitled (sv_store s) E" and "authorizeIdentity i fp s = (res, s')"
  shows "certs_entitled (sv_store s') E \<and> sv_rules s' = sv_rules s \<and> (\<forall>a. res = Inr a \<longrightarrow> entitled E i fp)"
proof (cases "store_Get i (sv_store s)")
  case None
  then show ?thesis using assms by (auto simp: authorizeIdentity_def)
next
  case (Some a)
  have cert: "ag_CertFingerprint a \<in> E i" and pending: "ag_PendingCertFingerprint a \<noteq> [] \<longrightarrow> ag_PendingCertFingerprint a \<in> E i"
    using assms(1) Some by (simp_all add: certs_entitled_def)
  consider (current) "ag_CertFingerprint a = [] \<or> fp = ag_CertFingerprint a"
    | (staged) "\<not> (ag_CertFingerprint a = [] \<or> fp = ag_CertFingerprint a)" "ag_PendingCertFingerprint a \<noteq> [] \<and> fp = ag_PendingCertFingerprint a"
    | (neither) "\<not> (ag_CertFingerprint a = [] \<or> fp = ag_CertFingerprint a)" "\<not> (ag_PendingCertFingerprint a \<noteq> [] \<and> fp = ag_PendingCertFingerprint a)"
    by blast
  then show ?thesis
  proof cases
    case current
    then have "entitled E i fp" using cert by (auto simp: entitled_def)
    then show ?thesis using assms Some current by (simp add: authorizeIdentity_def)
  next
    case staged
    then show ?thesis
      using assms Some pending
      by (auto simp: authorizeIdentity_def PromoteCert_def store_Get_def certs_entitled_def entitled_def split: if_splits)
  next
    case neither
    then show ?thesis using assms Some by (auto simp: authorizeIdentity_def simp del: de_Morgan_conj)
  qed
qed

lemma Heartbeat_certs:
  assumes "certs_entitled (sv_store s) E" and "api_Heartbeat now fp req s = (res, s')"
  shows "certs_entitled (sv_store s') E \<and> (\<forall>cs. res = Inr cs \<longrightarrow> entitled E (hb_AgentId req) fp)"
proof -
  obtain r1 s1 where a: "authorizeIdentity (hb_AgentId req) fp s = (r1, s1)" by (cases "authorizeIdentity (hb_AgentId req) fp s")
  note auth = authorize_certs [OF assms(1) a]
  have beat: "certs_entitled (snd (store_Heartbeat now i st m)) E" if "certs_entitled m E" for i st m
    using that by (auto simp: certs_entitled_def store_Heartbeat_def store_Get_def Let_def split: option.splits if_splits)
  have drain: "certs_entitled (snd (DrainCommands i m)) E" if "certs_entitled m E" for i m
    using that by (simp add: certs_entitled_def DrainCommands_def)
  show ?thesis
  proof (cases r1)
    case (Inl err)
    then show ?thesis using assms(2) a auth by (auto simp: api_Heartbeat_def)
  next
    case (Inr ag)
    obtain b m1 where b: "store_Heartbeat now (hb_AgentId req) \<lparr>as_EventsProcessed = hb_EventsProcessed req,
        as_Alerts = hb_Alerts req, as_Incidents = hb_Incidents req, as_RulesVersion = hb_RulesVersion req\<rparr> (sv_store s1) = (b, m1)"
      by (metis surj_pair)
    then have "certs_entitled m1 E" using beat auth by (metis snd_conv)
    then show ?thesis
      using assms(2) a auth Inr b drain by (cases b) (auto simp: api_Heartbeat_def Let_def case_prod_beta)
  qed
qed

lemma report_certs:
  assumes "certs_entitled (sv_store s) E" and "report_round rnd clock fp rp st s = (res, s')"
    and "as_authorized st \<noteq> [] \<longrightarrow> entitled E (as_authorized st) fp"
  shows "certs_entitled (sv_store s') E \<and>
    (\<forall>st' r signals. res = Inr (st', r, signals) \<longrightarrow> as_authorized st' = rp_AgentId rp \<and> entitled E (rp_AgentId rp) fp)"
proof -
  obtain r1 s1 where a: "authorizeIdentity (rp_AgentId rp) fp s = (r1, s1)" by (cases "authorizeIdentity (rp_AgentId rp) fp s")
  note auth = authorize_certs [OF assms(1) a]
  have rec: "certs_entitled (RecordAlert rnd r m) E" if "certs_entitled m E" for r m
    using that by (simp add: certs_entitled_def RecordAlert_def Let_def)
  show ?thesis
  proof (cases "as_authorized st = []")
    case True
    then show ?thesis
      using assms(2) a auth rec
      by (cases r1; cases "sv_correlator s1") (auto simp: report_round_def Let_def case_prod_beta)
  next
    case False
    then show ?thesis
      using assms rec by (cases "sv_correlator s") (auto simp: report_round_def Let_def case_prod_beta split: if_splits)
  qed
qed

lemma streams_entitled_mono: "streams_entitled streams E \<Longrightarrow> (\<And>i. E i \<subseteq> E' i) \<Longrightarrow> streams_entitled streams E'"
  unfolding streams_entitled_def entitled_def by blast

lemma certs_entitled_mono: "certs_entitled m E \<Longrightarrow> (\<And>i. E i \<subseteq> E' i) \<Longrightarrow> certs_entitled m E'"
  unfolding certs_entitled_def by blast

lemma entitled_insert:
  "certs_entitled m E \<Longrightarrow> certs_entitled m (E(i := insert fp (E i)))"
  "streams_entitled streams E \<Longrightarrow> streams_entitled streams (E(i := insert fp (E i)))"
  by (erule certs_entitled_mono, force, erule streams_entitled_mono, force)

lemma fleet_run_entitled: "fleet_run s streams E \<Longrightarrow> certs_entitled (sv_store s) E \<and> streams_entitled streams E"
proof (induction rule: fleet_run.induct)
  case (start s)
  then show ?case by (simp add: certs_entitled_def streams_entitled_def new_fleet_store_def store_Get_def)
next
  case (enroll s streams E rnd now fp req resp s')
  have st: "sv_store s' = snd (store_Enroll rnd now (er_Hostname req) (er_AgentVersion req) (er_Kernel req) fp (sv_store s))"
    and i: "ep_AgentId resp = NewID rnd"
    using enroll.hyps(2) by (auto simp: api_Enroll_def case_prod_beta store_Enroll_def Let_def split: if_splits)
  let ?E = "E(NewID rnd := insert fp (E (NewID rnd)))"
  have "certs_entitled (sv_store s) ?E" and streams: "streams_entitled streams ?E"
    using enroll.IH by (auto intro: entitled_insert simp del: fun_upd_apply)
  then have "certs_entitled (sv_store s') ?E"
    unfolding st by (auto simp: certs_entitled_def store_Get_Enroll store_Enroll_def Let_def split: if_splits)
  then show ?case using streams unfolding i by blast
next
  case (heartbeat s streams E now fp req res s')
  then show ?case using Heartbeat_certs by blast
next
  case (open_stream s streams E n fp)
  then show ?case by (auto simp: streams_entitled_def new_stream_def)
next
  case (report s streams E n fp st rnd clock rp st' r signals s')
  then have "as_authorized st \<noteq> [] \<longrightarrow> entitled E (as_authorized st) fp" by (simp add: streams_entitled_def)
  then show ?case using report report_certs [OF _ report.hyps(3)] by (auto simp: streams_entitled_def)
next
  case (refused s streams E n fp st rnd clock rp err s')
  then have "as_authorized st \<noteq> [] \<longrightarrow> entitled E (as_authorized st) fp" by (simp add: streams_entitled_def)
  then show ?case using refused report_certs [OF _ refused.hyps(3)] by (auto simp: streams_entitled_def)
next
  case (close_stream s streams E n)
  then show ?case by (simp add: streams_entitled_def)
next
  case (rotate s streams E fp i m)
  have "store_Get j m = (if j = i then map_option (\<lambda>a. a\<lparr>ag_PendingCertFingerprint := fp\<rparr>) (store_Get j (sv_store s)) else store_Get j (sv_store s))" for j
    using store_Get_SetPending [of j i fp "sv_store s"] rotate.hyps(3) by simp
  moreover let ?E = "E(i := insert fp (E i))"
  have "certs_entitled (sv_store s) ?E" and streams: "streams_entitled streams ?E"
    using rotate.IH by (auto intro: entitled_insert simp del: fun_upd_apply)
  ultimately have "certs_entitled m ?E"
    by (auto simp: certs_entitled_def split: if_splits)
  then show ?case using streams by (simp add: fun_upd_def)
next
  case (queue s streams E i c ok m)
  then show ?case by (auto simp: certs_entitled_def EnqueueCommand_def split: option.splits)
next
  case (prune s streams E before n m)
  then show ?case by (auto simp: certs_entitled_def PruneAlerts_eq)
next
  case (reload s streams E L sha decode readPolicy D D' err p)
  then show ?case by simp
qed

text \<open>
  C6. Whatever requests agents and operators have made, in whatever interleaving, a heartbeat is accepted for an
  agent, and a report is accepted in an alert stream under an agent's identifier, only if the peer's
  certificate is one the agent enrolled with or one an operator staged for it, or the agent enrolled without
  a certificate. The record that is filed carries that agent's identifier.
\<close>

theorem requests_need_the_certificate:
  assumes "fleet_run s streams E"
  shows "(\<forall>now fp req cs s'. api_Heartbeat now fp req s = (Inr cs, s') \<longrightarrow> [] \<in> E (hb_AgentId req) \<or> fp \<in> E (hb_AgentId req)) \<and>
    (\<forall>n fp st rnd clock rp st' r signals s'. streams n = Some (fp, st) \<longrightarrow>
       report_round rnd clock fp rp st s = (Inr (st', r, signals), s') \<longrightarrow>
       ar_AgentID r = rp_AgentId rp \<and> ([] \<in> E (rp_AgentId rp) \<or> fp \<in> E (rp_AgentId rp)))"
proof -
  note inv = fleet_run_entitled [OF assms]
  have "ar_AgentID r = rp_AgentId rp" if "report_round rnd clock fp rp st s = (Inr (st', r, signals), s')"
    for rnd clock fp rp st st' r signals s'
    using that by (auto simp: report_round_def Let_def recordFromReport_def split: sum.splits prod.splits option.splits if_splits)
  moreover have "entitled E (rp_AgentId rp) fp"
    if "streams n = Some (fp, st)" and "report_round rnd clock fp rp st s = (Inr (st', r, signals), s')"
    for n fp st rnd clock rp st' r signals s'
    using report_certs [OF conjunct1 [OF inv] that(2)] inv that(1) by (auto simp: streams_entitled_def)
  moreover have "entitled E (hb_AgentId req) fp" if "api_Heartbeat now fp req s = (Inr cs, s')" for now fp req cs s'
    using Heartbeat_certs [OF conjunct1 [OF inv] that] by simp
  ultimately show ?thesis unfolding entitled_def by blast
qed

text \<open>A service with one agent, enrolled with certificate \<open>aa\<close>.\<close>

definition sample_service :: service where
  "sample_service = \<lparr>sv_store = new_fleet_store, sv_rules = rules_only, sv_correlator = Some (NewCrossHost 10 3), sv_token = []\<rparr>"

definition sample_enroll :: enroll_request where
  "sample_enroll = \<lparr>er_Hostname = ''web'', er_AgentVersion = ''1'', er_Kernel = ''6'', er_EnrollmentToken = []\<rparr>"

definition sample_enrolled :: service where
  "sample_enrolled = snd (api_Enroll 7 0 ''aa'' sample_enroll sample_service)"

definition sample_beat :: heartbeat_request where
  "sample_beat = \<lparr>hb_AgentId = NewID 7, hb_EventsProcessed = 0, hb_Alerts = 0, hb_Incidents = 0, hb_RulesVersion = []\<rparr>"

lemma sample_enrolled_agent:
  "\<exists>a. store_Get (NewID 7) (sv_store sample_enrolled) = Some a \<and> ag_CertFingerprint a = ''aa'' \<and> ag_ID a = NewID 7"
  by (simp add: sample_enrolled_def sample_service_def sample_enroll_def api_Enroll_def store_Enroll_def Let_def store_Get_def)

lemma sample_enrolled_run:
  "fleet_run sample_enrolled Map.empty ((\<lambda>_. {})(NewID 7 := {''aa''}))"
proof -
  have "fleet_run sample_service Map.empty (\<lambda>_. {})"
    by (rule fleet_run.start) (simp add: sample_service_def)
  moreover have "\<exists>resp. api_Enroll 7 0 ''aa'' sample_enroll sample_service = (Inr resp, sample_enrolled) \<and> ep_AgentId resp = NewID 7"
    by (simp add: sample_enrolled_def sample_service_def sample_enroll_def api_Enroll_def store_Enroll_def Let_def)
  ultimately show ?thesis using fleet_run.enroll by fastforce
qed

theorem requests_need_the_certificate_witness:
  "(\<exists>cs s'. api_Heartbeat 1 ''aa'' sample_beat sample_enrolled = (Inr cs, s')) \<and>
   (\<nexists>cs s'. api_Heartbeat 1 ''bb'' sample_beat sample_enrolled = (Inr cs, s'))"
proof -
  obtain a where "store_Get (NewID 7) (sv_store sample_enrolled) = Some a" "ag_CertFingerprint a = ''aa''"
    using sample_enrolled_agent by blast
  then have "\<exists>cs s'. api_Heartbeat 1 ''aa'' sample_beat sample_enrolled = (Inr cs, s')"
    by (simp add: api_Heartbeat_def authorizeIdentity_def sample_beat_def store_Heartbeat_def store_Get_def Let_def
        case_prod_beta)
  then show ?thesis
    using requests_need_the_certificate [OF sample_enrolled_run] by (fastforce simp: sample_beat_def)
qed

theorem rotation_completes_witness:
  "\<exists>err s2. fst (authorizeIdentity (NewID 7) ''bb'' (sample_enrolled\<lparr>sv_store := snd (SetPendingCert (NewID 7) ''bb'' (sv_store sample_enrolled))\<rparr>)) \<noteq> Inl err \<and>
     s2 = snd (authorizeIdentity (NewID 7) ''bb'' (sample_enrolled\<lparr>sv_store := snd (SetPendingCert (NewID 7) ''bb'' (sv_store sample_enrolled))\<rparr>)) \<and>
     authorizeIdentity (NewID 7) ''aa'' s2 = (Inl err, s2)"
proof -
  obtain a where a: "store_Get (NewID 7) (sv_store sample_enrolled) = Some a" "ag_CertFingerprint a = ''aa''"
    using sample_enrolled_agent by blast
  show ?thesis
    using rotation_completes [OF a _ surjective_pairing, of "''bb''"] by (auto simp: Let_def)
qed

section \<open>The host name of a report is not checked\<close>

text \<open>
  A report must carry the identifier of the authorised agent, but its host name is taken as it comes. A single
  enrolled agent can therefore report one destination from three host names of its choice and have the
  correlator announce a fan-in of three hosts.
\<close>

definition forged :: "string \<Rightarrow> string \<Rightarrow> go_time \<Rightarrow> alert_report" where
  "forged i host t = \<lparr>rp_AgentId = i, rp_Hostname = host, rp_Timestamp = Some t, rp_RuleId = [], rp_RuleName = [],
     rp_Severity = [], rp_TechniqueId = [], rp_TechniqueName = [], rp_Pid = 0, rp_ProcessName = [],
     rp_ProcessExecutable = [], rp_DestinationIp = ''9.9.9.9'', rp_RiskScore = 0, rp_IsIncident = False\<rparr>"

lemma recordFromReport_forged: "recordFromReport (forged i host t) = (snd (contact host t))\<lparr>ar_AgentID := i\<rparr>"
  by (simp add: recordFromReport_def forged_def contact_def)

lemma cross_Observe_cong:
  assumes "ar_Time r' = ar_Time r" and "ar_Hostname r' = ar_Hostname r" and "ar_TechniqueID r' = ar_TechniqueID r"
    and "ar_DestinationIP r' = ar_DestinationIP r"
  shows "cross_Observe clock r' c = cross_Observe clock r c"
  unfolding cross_Observe_def timeOf_def assms ..

lemma cross_Observe_agent [simp]: "cross_Observe clock (r\<lparr>ar_AgentID := i\<rparr>) c = cross_Observe clock r c"
  by (rule cross_Observe_cong) simp_all

lemma contact_again:
  assumes "0 < w" and "\<not> is_zero t" and "host' \<noteq> host"
  shows "cross_Observe t (snd (contact host t)) (tracking w t t [(host', t)]) = (tracking w t t [(host', t), (host, t)], [])"
  using assms by (simp add: cross_steps)

lemma contact_third:
  assumes "0 < w" and "\<not> is_zero t"
  shows "\<exists>c s. cross_Observe t (snd (contact ''c'' t)) (tracking w t t [(''a'', t), (''b'', t)]) = (c, [s]) \<and>
    sg_Kind s = KindC2FanIn \<and> sg_Hosts s = [''a'', ''b'', ''c'']"
  using assms by (simp add: cross_steps sortedKeys_def)

theorem one_agent_many_hosts:
  assumes "authorizeIdentity i fp s = (Inr a, s)" and "i \<noteq> []" and "sv_correlator s = Some (NewCrossHost w 3)"
    and "0 < w" and "\<not> is_zero t"
  shows "\<exists>signal s'. ReportAlerts fp None [(r1, t, forged i ''a'' t), (r2, t, forged i ''b'' t), (r3, t, forged i ''c'' t)] new_stream s =
      (Inr 3, map recordFromReport [forged i ''a'' t, forged i ''b'' t, forged i ''c'' t], [signal], s') \<and>
    sg_Kind signal = KindC2FanIn \<and> sg_Hosts signal = [''a'', ''b'', ''c'']"
proof -
  obtain c x where third: "cross_Observe t (snd (contact ''c'' t)) (tracking w t t [(''a'', t), (''b'', t)]) = (c, [x])"
      "sg_Kind x = KindC2FanIn" "sg_Hosts x = [''a'', ''b'', ''c'']"
    using contact_third [OF assms(4,5)] by blast
  have "rp_AgentId (forged i h t) = i" for h by (simp add: forged_def)
  then show ?thesis
    using assms third contact_first [of w t "''a''"] contact_again [of w t "''a''" "''b''"]
    by (simp add: report_round_def recordFromReport_forged new_stream_def Let_def)
qed

theorem one_agent_many_hosts_witness:
  "\<exists>signal s'. ReportAlerts ''aa'' None [(1, 5, forged (NewID 7) ''a'' 5), (2, 5, forged (NewID 7) ''b'' 5), (3, 5, forged (NewID 7) ''c'' 5)]
      new_stream sample_enrolled =
     (Inr 3, map recordFromReport [forged (NewID 7) ''a'' 5, forged (NewID 7) ''b'' 5, forged (NewID 7) ''c'' 5], [signal], s') \<and>
     sg_Hosts signal = [''a'', ''b'', ''c'']"
proof -
  obtain a where a: "store_Get (NewID 7) (sv_store sample_enrolled) = Some a" "ag_CertFingerprint a = ''aa''"
    using sample_enrolled_agent by blast
  then have "authorizeIdentity (NewID 7) ''aa'' sample_enrolled = (Inr a, sample_enrolled)"
    by (simp add: authorizeIdentity_def)
  moreover have "sv_correlator sample_enrolled = Some (NewCrossHost 10 3)"
    by (simp add: sample_enrolled_def sample_service_def sample_enroll_def api_Enroll_def case_prod_beta)
  ultimately show ?thesis
    using one_agent_many_hosts [of "NewID 7" "''aa''" sample_enrolled a 10 5 1 2 3] by (auto simp: is_zero_def zero_time_def)
qed

end
