(* ===== verification/Fleet_Agent.thy ===== *)
theory Fleet_Agent
  imports Fleet_Api
begin

text \<open>
  The agent's side of the fleet: turning alerts into reports (\<^verbatim>\<open>internal/fleet/report.go\<close>), the report queue
  (\<^verbatim>\<open>internal/fleet/reporter.go\<close>), the client's conversions (\<^verbatim>\<open>internal/fleet/client.go\<close>) and the runner that
  heartbeats, applies commands and keeps the rules in step (\<^verbatim>\<open>cmd/argus/fleet.go\<close>, \<open>loadEngine\<close> of
  \<^verbatim>\<open>cmd/argus/run.go\<close>). A remote call is its result, an error or the server's answer. The rules directory is a
  map from file names to contents; whether a write succeeds is an argument, and one that fails leaves the file as it
  was, where \<^verbatim>\<open>os.WriteFile\<close> may have truncated it.
\<close>

section \<open>Reports (report.go)\<close>

definition AlertReportFromAlert :: "string \<Rightarrow> string \<Rightarrow> alert \<Rightarrow> alert_report" where
  "AlertReportFromAlert agentID hostname al = \<lparr>rp_AgentId = agentID, rp_Hostname = hostname,
     rp_Timestamp = Some (a_Timestamp al), rp_RuleId = a_RuleID al, rp_RuleName = a_RuleName al,
     rp_Severity = severity_String (a_Severity al), rp_TechniqueId = t_ID (a_Technique al),
     rp_TechniqueName = t_Name (a_Technique al), rp_Pid = p_PID (e_Process (a_Event al)),
     rp_ProcessName = p_Name (e_Process (a_Event al)), rp_ProcessExecutable = p_Executable (e_Process (a_Event al)),
     rp_DestinationIp = n_DstIP (e_Network (a_Event al)), rp_RiskScore = word_of_int (a_RiskScore al),
     rp_IsIncident = False\<rparr>"

definition AlertReportFromIncident :: "string \<Rightarrow> string \<Rightarrow> incident \<Rightarrow> alert_report" where
  "AlertReportFromIncident agentID hostname inc = \<lparr>rp_AgentId = agentID, rp_Hostname = hostname,
     rp_Timestamp = Some (i_LastSeen inc), rp_RuleId = i_ID inc, rp_RuleName = i_Summary inc,
     rp_Severity = severity_String SeverityCritical,
     rp_TechniqueId = (case i_Techniques inc of t # _ \<Rightarrow> t | [] \<Rightarrow> []), rp_TechniqueName = [], rp_Pid = 0,
     rp_ProcessName = [], rp_ProcessExecutable = [], rp_DestinationIp = [],
     rp_RiskScore = word_of_int (i_RiskScore inc), rp_IsIncident = True\<rparr>"

section \<open>The report queue (reporter.go)\<close>

definition defaultReportQueue :: nat where
  "defaultReportQueue = 1024"

record reporter =
  rq_queue :: "alert_report list"
  rq_cap :: nat
  rq_dropped :: uint64

definition NewReporter :: "int \<Rightarrow> reporter" where
  "NewReporter queueDepth = \<lparr>rq_queue = [], rq_cap = (if queueDepth \<le> 0 then defaultReportQueue else nat queueDepth),
     rq_dropped = 0\<rparr>"

definition reporter_Enqueue :: "alert_report \<Rightarrow> reporter \<Rightarrow> reporter" where
  "reporter_Enqueue rp q =
     (if length (rq_queue q) < rq_cap q then q\<lparr>rq_queue := rq_queue q @ [rp]\<rparr>
      else q\<lparr>rq_dropped := rq_dropped q + 1\<rparr>)"

definition reporter_Dropped :: "reporter \<Rightarrow> uint64" where
  "reporter_Dropped q = rq_dropped q"

text \<open>
  \<open>pump\<close> takes reports off the queue and sends them until sending fails; the report whose sending fails has
  left the queue. \<open>sends\<close> are the outcomes of the calls of \<open>Send\<close> until the context ends.
\<close>

fun pump :: "bool list \<Rightarrow> reporter \<Rightarrow> alert_report list \<times> bool \<times> reporter" where
  "pump [] q = ([], True, q)"
| "pump (ok # sends) q =
     (case rq_queue q of
        [] \<Rightarrow> ([], True, q)
      | rp # rest \<Rightarrow>
          let q = q\<lparr>rq_queue := rest\<rparr> in
          if ok then (case pump sends q of (sent, fine, q) \<Rightarrow> (rp # sent, fine, q)) else ([], False, q))"

text \<open>\<open>flushRemaining\<close> opens a fresh stream and sends what is queued, until a send fails.\<close>

definition flushRemaining :: "bool \<Rightarrow> bool list \<Rightarrow> reporter \<Rightarrow> alert_report list \<times> reporter" where
  "flushRemaining opened sends q =
     (if rq_queue q = [] then ([], q)
      else if \<not> opened then ([], q)
      else case pump sends q of (sent, _, q) \<Rightarrow> (sent, q))"

section \<open>The client's conversions (client.go)\<close>

definition Command_Kind_name :: "(int, string) gomap" where
  "Command_Kind_name = [(0, ''KIND_UNSPECIFIED''), (1, ''UPDATE_RULES''), (2, ''SET_RESPONSE_MODE''),
     (3, ''KILL_PROCESS''), (4, ''QUARANTINE'')]"

text \<open>The generated \<open>String\<close> method of the enumeration: the name, or the number where it has none.\<close>

definition kind_String :: "int \<Rightarrow> string" where
  "kind_String k = (case map_of Command_Kind_name k of Some name \<Rightarrow> name | None \<Rightarrow> int_str k)"

definition client_commands :: "wire_command list \<Rightarrow> command list" where
  "client_commands cs = map (\<lambda>c. \<lparr>cmd_Kind = kind_String (wc_Kind c), cmd_Argument = wc_Argument c\<rparr>) cs"

record fetched_rules =
  fr_Version :: string
  fr_Unchanged :: bool
  fr_Files :: "rule_file list"

definition FetchRules :: "string + rules_response \<Rightarrow> string + fetched_rules" where
  "FetchRules answer =
     (case answer of
        Inl err \<Rightarrow> Inl (''get rules: '' @ err)
      | Inr (RulesUnchanged version) \<Rightarrow> Inr \<lparr>fr_Version = version, fr_Unchanged = True, fr_Files = []\<rparr>
      | Inr (RulesBundle version files) \<Rightarrow> Inr \<lparr>fr_Version = version, fr_Unchanged = False, fr_Files = files\<rparr>)"

section \<open>The rules directory\<close>

type_synonym disk = "(string, string) gomap"

text \<open>What \<open>LoadDir\<close> finds: the names that end in \<open>.yaml\<close>, in the order \<open>filepath.Glob\<close> lists them.\<close>

definition disk_dir :: "(string \<Rightarrow> ruleYAML list option) \<Rightarrow> disk \<Rightarrow> rule_dir" where
  "disk_dir decode d = \<lparr>rd_glob = Some (sort (filter (\<lambda>n. has_suffix n ''.yaml'') (map fst d))),
     rd_read = map_of d, rd_decode = decode\<rparr>"

fun write_files :: "(string \<Rightarrow> bool) \<Rightarrow> rule_file list \<Rightarrow> disk \<Rightarrow> bool \<times> disk" where
  "write_files wr [] d = (True, d)"
| "write_files wr (f # fs) d =
     (if wr (path_base (rf_Name f)) then write_files wr fs (AList.update (path_base (rf_Name f)) (rf_Content f) d)
      else (False, d))"

text \<open>\<open>made\<close> says whether the directory exists or can be created.\<close>

definition writeRuleFiles :: "bool \<Rightarrow> (string \<Rightarrow> bool) \<Rightarrow> rule_file list \<Rightarrow> disk \<Rightarrow> bool \<times> disk" where
  "writeRuleFiles made wr files d = (if \<not> made then (False, d) else write_files wr files d)"

section \<open>The runner (cmd/argus/fleet.go)\<close>

record fleet_agent =
  fa_id :: string
  fa_rulesVersion :: string
  fa_disk :: disk
  fa_engine :: engine
  fa_intel :: "(event \<Rightarrow> intel_hit list) option"
  fa_responder :: responder

text \<open>What the runner's operations take from their surroundings.\<close>

record agent_env =
  ae_lib :: go_lib
  ae_yaml :: "string \<Rightarrow> ruleYAML list option"
  ae_policy :: "string \<Rightarrow> policy_doc option"
  ae_made :: bool
  ae_writes :: "string \<Rightarrow> bool"
  ae_host :: response_env

definition loadEngine :: "agent_env \<Rightarrow> disk \<Rightarrow> correlator option \<Rightarrow> load_error + engine" where
  "loadEngine V d c =
     (case LoadDir (ae_lib V) (disk_dir (ae_yaml V) d) of
        Inl err \<Rightarrow> Inl err
      | Inr rules \<Rightarrow> Inr (NewEngine rules c))"

fun applyPolicy :: "agent_env \<Rightarrow> rule_file list \<Rightarrow> responder \<Rightarrow> responder" where
  "applyPolicy V [] r = r"
| "applyPolicy V (f # fs) r =
     (if path_base (rf_Name f) \<noteq> policy_FileName then applyPolicy V fs r
      else case policy_Parse (ae_policy V) (rf_Content f) of
             Inl err \<Rightarrow> r
           | Inr parsed \<Rightarrow> if po_Mode parsed \<noteq> [] then SetMode r (ParseMode (po_Mode parsed)) else r)"

text \<open>
  The correlator is shared by the old and the new engine, so the new engine starts from its present state. A
  failed write may leave some of the files written.
\<close>

definition syncRules :: "agent_env \<Rightarrow> string + rules_response \<Rightarrow> fleet_agent \<Rightarrow> fleet_agent" where
  "syncRules V answer a =
     (case FetchRules answer of
        Inl err \<Rightarrow> a
      | Inr rules \<Rightarrow>
          if fr_Unchanged rules then a
          else case writeRuleFiles (ae_made V) (ae_writes V) (fr_Files rules) (fa_disk a) of
            (False, d) \<Rightarrow> a\<lparr>fa_disk := d\<rparr>
          | (True, d) \<Rightarrow>
              (case loadEngine V d (en_correlator (fa_engine a)) of
                 Inl err \<Rightarrow> a\<lparr>fa_disk := d\<rparr>
               | Inr en \<Rightarrow>
                   let en = (case fa_intel a of None \<Rightarrow> en | Some m \<Rightarrow> SetIntel (Some m) en)
                   in a\<lparr>fa_disk := d, fa_engine := en, fa_responder := applyPolicy V (fr_Files rules) (fa_responder a),
                        fa_rulesVersion := fr_Version rules\<rparr>))"

text \<open>\<open>strconv.ParseUint(s, 10, 32)\<close>.\<close>

definition parse_uint32 :: "string \<Rightarrow> uint32 option" where
  "parse_uint32 s =
     (if s \<noteq> [] \<and> list_all is_digit s \<and> nat_of_digits s < 2 ^ 32 then Some (of_nat (nat_of_digits s)) else None)"

definition remoteKill :: "agent_env \<Rightarrow> string \<Rightarrow> fleet_agent \<Rightarrow> effect list" where
  "remoteKill V argument a =
     (case parse_uint32 (trim_space argument) of
        None \<Rightarrow> []
      | Some pid \<Rightarrow> snd (RequestKill (ae_host V) (fa_responder a) pid []))"

text \<open>\<open>fetch\<close> is the server's answer to the download a command may ask for, given the version the agent has.\<close>

definition applyCommand ::
  "agent_env \<Rightarrow> (string \<Rightarrow> string + rules_response) \<Rightarrow> command \<Rightarrow> fleet_agent \<Rightarrow> fleet_agent \<times> effect list" where
  "applyCommand V fetch c a =
     (if cmd_Kind c = ''UPDATE_RULES'' then (syncRules V (fetch (fa_rulesVersion a)) a, [])
      else if cmd_Kind c = ''SET_RESPONSE_MODE'' then
        (a\<lparr>fa_responder := SetMode (fa_responder a) (ParseMode (cmd_Argument c))\<rparr>, [])
      else if cmd_Kind c = ''KILL_PROCESS'' then (a, remoteKill V (cmd_Argument c) a)
      else if cmd_Kind c = ''QUARANTINE'' then
        (case RequestNetworkBlock (ae_host V) (fa_responder a) (trim_space (cmd_Argument c)) of (res, r, effs) \<Rightarrow>
           (a\<lparr>fa_responder := r\<rparr>, effs))
      else (a, []))"

fun apply_commands ::
  "agent_env \<Rightarrow> (string \<Rightarrow> string + rules_response) \<Rightarrow> command list \<Rightarrow> fleet_agent \<Rightarrow> fleet_agent \<times> effect list" where
  "apply_commands V fetch [] a = (a, [])"
| "apply_commands V fetch (c # cs) a =
     (case applyCommand V fetch c a of (a, effs) \<Rightarrow>
        case apply_commands V fetch cs a of (a, effs') \<Rightarrow> (a, effs @ effs'))"

text \<open>The request of a heartbeat (the pipeline's counters are arguments) and what follows the answer.\<close>

definition heartbeat_of :: "uint64 \<Rightarrow> uint64 \<Rightarrow> uint64 \<Rightarrow> fleet_agent \<Rightarrow> heartbeat_request" where
  "heartbeat_of events alerts incidents a = \<lparr>hb_AgentId = fa_id a, hb_EventsProcessed = events,
     hb_Alerts = alerts, hb_Incidents = incidents, hb_RulesVersion = fa_rulesVersion a\<rparr>"

definition agent_heartbeat ::
  "agent_env \<Rightarrow> (string \<Rightarrow> string + rules_response) \<Rightarrow> rpc_error + wire_command list \<Rightarrow> fleet_agent \<Rightarrow> fleet_agent \<times> effect list" where
  "agent_heartbeat V fetch answer a =
     (case answer of Inl err \<Rightarrow> (a, []) | Inr cs \<Rightarrow> apply_commands V fetch (client_commands cs) a)"

text \<open>\<open>connectFleet\<close>: the agent takes its identifier and its rules version from the enrolment.\<close>

definition connectFleet :: "rpc_error + enroll_response \<Rightarrow> fleet_agent \<Rightarrow> fleet_agent option" where
  "connectFleet answer a =
     (case answer of
        Inl err \<Rightarrow> None
      | Inr resp \<Rightarrow> Some (a\<lparr>fa_id := ep_AgentId resp, fa_rulesVersion := ep_RulesVersion resp\<rparr>))"

section \<open>What crosses the wire\<close>

lemma client_commands_kind:
  "map_of Command_Kind_value k \<noteq> None \<Longrightarrow> kind_String (case map_of Command_Kind_value k of Some v \<Rightarrow> v | None \<Rightarrow> 0) = k"
  by (auto simp: Command_Kind_value_def kind_String_def Command_Kind_name_def split: if_splits)

text \<open>Commands of the known kinds arrive at the agent as they were queued.\<close>

lemma commands_arrive:
  "\<forall>c \<in> set cs. map_of Command_Kind_value (cmd_Kind c) \<noteq> None \<Longrightarrow> client_commands (toProtoCommands cs) = cs"
  unfolding client_commands_def toProtoCommands_def
  by (induction cs) (simp_all add: client_commands_kind del: not_None_eq)

text \<open>
  What the server files of an alert is what the agent raised. The risk score travels as a 32-bit integer, so
  it arrives unchanged in that range.
\<close>

lemma report_arrives:
  assumes "- (2 ^ 31) \<le> a_RiskScore al" and "a_RiskScore al < 2 ^ 31"
  shows "let r = recordFromReport (AlertReportFromAlert i h al) in
    ar_AgentID r = i \<and> ar_Hostname r = h \<and> ar_Time r = a_Timestamp al \<and> ar_RuleID r = a_RuleID al \<and>
    ar_Severity r = severity_String (a_Severity al) \<and> ar_TechniqueID r = t_ID (a_Technique al) \<and>
    ar_PID r = p_PID (e_Process (a_Event al)) \<and> ar_DestinationIP r = n_DstIP (e_Network (a_Event al)) \<and>
    ar_RiskScore r = a_RiskScore al \<and> \<not> ar_IsIncident r"
  using assms by (simp add: recordFromReport_def AlertReportFromAlert_def sint_sbintrunc'
      signed_take_bit_int_eq_self_iff)

section \<open>The control plane cannot escalate\<close>

lemma SetMode_posture: "posture_ok mx r effs \<Longrightarrow> 0 \<le> mx \<Longrightarrow> posture_ok mx (SetMode r (ParseMode m)) effs"
  using ParseMode_range [of m] by (auto simp: posture_ok_def SetMode_def clampMode_def)

lemma applyPolicy_posture: "posture_ok mx r effs \<Longrightarrow> 0 \<le> mx \<Longrightarrow> posture_ok mx (applyPolicy V fs r) effs"
  by (induction fs) (auto simp: SetMode_posture split: sum.splits)

lemma syncRules_posture:
  "posture_ok mx (fa_responder a) effs \<Longrightarrow> 0 \<le> mx \<Longrightarrow> posture_ok mx (fa_responder (syncRules V answer a)) effs"
  by (simp add: syncRules_def Let_def applyPolicy_posture split: sum.split prod.split bool.split)

lemma applyCommand_posture:
  assumes "posture_ok mx (fa_responder a) effs" and "0 \<le> mx" and "applyCommand V fetch c a = (a', es)"
  shows "posture_ok mx (fa_responder a') (effs @ es)"
proof -
  have kill: "posture_ok mx (fa_responder a) (effs @ remoteKill V arg a)" for arg
  proof (cases "parse_uint32 (trim_space arg)")
    case (Some pid)
    then show ?thesis
      using posture_step [OF assms(1), of "remoteKill V arg a" "fa_responder a"]
        quiet_below_enforce(2) [of "fa_responder a" "ae_host V" pid "[]"]
      by (simp add: remoteKill_def prod_eq_iff)
  qed (use assms(1) in \<open>simp add: remoteKill_def\<close>)
  have block: "posture_ok mx r (effs @ bs)"
    if "RequestNetworkBlock (ae_host V) (fa_responder a) addr = (res, r, bs)" for addr res r bs
    using posture_step [OF assms(1), of bs r] quiet_below_enforce(3) [OF _ that] Block_posture [OF that] by simp
  show ?thesis
    using assms kill block syncRules_posture [of mx a effs V "fetch (fa_rulesVersion a)"]
    by (auto simp: applyCommand_def SetMode_posture split: if_splits prod.splits)
qed

lemma apply_commands_posture:
  "posture_ok mx (fa_responder a) effs \<Longrightarrow> 0 \<le> mx \<Longrightarrow> apply_commands V fetch cs a = (a', es) \<Longrightarrow>
   posture_ok mx (fa_responder a') (effs @ es)"
proof (induction cs arbitrary: a effs es)
  case (Cons c cs)
  obtain a1 e1 e2 where c: "applyCommand V fetch c a = (a1, e1)" "apply_commands V fetch cs a1 = (a', e2)" "es = e1 @ e2"
    using Cons.prems(3) by (auto split: prod.splits)
  then show ?case using Cons.IH [OF applyCommand_posture [OF Cons.prems(1,2) c(1)] Cons.prems(2) c(2)] by simp
qed simp

text \<open>The runs of an agent under a control plane that may answer anything at all.\<close>

inductive fleet_driven :: "fleet_agent \<Rightarrow> fleet_agent \<Rightarrow> effect list \<Rightarrow> bool" for a0 where
  begins: "fleet_driven a0 a0 []"
| beats: "fleet_driven a0 a effs \<Longrightarrow> agent_heartbeat V fetch answer a = (a', es) \<Longrightarrow> fleet_driven a0 a' (effs @ es)"
| syncs: "fleet_driven a0 a effs \<Longrightarrow> fleet_driven a0 (syncRules V answer a) effs"

lemma fleet_driven_posture:
  assumes "fleet_driven a0 a effs" and "posture_ok mx (fa_responder a0) []" and "0 \<le> mx"
  shows "posture_ok mx (fa_responder a) effs"
  using assms
proof (induction rule: fleet_driven.induct)
  case (beats a effs V fetch answer a' es)
  then show ?case
    using apply_commands_posture [of mx a effs V fetch _ a' es] by (auto simp: agent_heartbeat_def split: sum.splits)
qed (simp_all add: syncRules_posture)

text \<open>
  C5. A control plane that answers heartbeats and downloads with anything it likes (commands of any kind, any
  rule bundle and posture document) cannot raise the agent's posture above the ceiling pinned on the host;
  with a ceiling below enforcement it cannot make the agent signal a process or run a command.
\<close>

theorem fleet_cannot_escalate:
  assumes "fleet_driven a0 a effs" and "fa_responder a0 = respond_New (ParseMode m) (ParseMode mx) paths"
  shows "rs_mode (fa_responder a) \<le> ParseMode mx \<and> (mx \<noteq> ''enforce'' \<longrightarrow> effs = [])"
proof -
  have "posture_ok (ParseMode mx) (fa_responder a0) []"
    unfolding assms(2) by (rule posture_reach [OF respond_reach.start])
  moreover have "0 \<le> ParseMode mx" using ParseMode_range [of mx] by auto
  ultimately have "posture_ok (ParseMode mx) (fa_responder a) effs" by (rule fleet_driven_posture [OF assms(1)])
  then show ?thesis by (auto simp: posture_ok_def ParseMode_def split: if_splits)
qed

definition sample_agent :: fleet_agent where
  "sample_agent = \<lparr>fa_id = NewID 7, fa_rulesVersion = ''old'', fa_disk = [], fa_engine = NewEngine [] None,
     fa_intel = None, fa_responder = respond_New (ParseMode ''off'') (ParseMode ''dry-run'') []\<rparr>"

definition sample_agent_env :: agent_env where
  "sample_agent_env = \<lparr>ae_lib = literal_lib, ae_yaml = (\<lambda>_. Some sample_docs), ae_policy = (\<lambda>_. None), ae_made = True,
     ae_writes = (\<lambda>_. True), ae_host = calm_host\<rparr>"

theorem fleet_cannot_escalate_witness:
  "let (a, effs) = agent_heartbeat sample_agent_env (\<lambda>_. Inl ''down'')
       (Inr [\<lparr>wc_Kind = 2, wc_Argument = ''enforce''\<rparr>, \<lparr>wc_Kind = 3, wc_Argument = ''1''\<rparr>]) sample_agent
   in rs_mode (fa_responder a) \<le> ModeDryRun \<and> effs = []"
proof -
  let ?r = "agent_heartbeat sample_agent_env (\<lambda>_. Inl ''down'')
       (Inr [\<lparr>wc_Kind = 2, wc_Argument = ''enforce''\<rparr>, \<lparr>wc_Kind = 3, wc_Argument = ''1''\<rparr>]) sample_agent"
  have "fleet_driven sample_agent (fst ?r) ([] @ snd ?r)"
    by (rule fleet_driven.beats [OF fleet_driven.begins]) simp
  moreover have "fa_responder sample_agent = respond_New (ParseMode ''off'') (ParseMode ''dry-run'') []"
    by (simp add: sample_agent_def)
  ultimately show ?thesis
    using fleet_cannot_escalate [of sample_agent "fst ?r" "snd ?r" "''off''" "''dry-run''" "[]"]
    by (simp add: case_prod_beta ParseMode_def)
qed

section \<open>Keeping the rules in step\<close>

text \<open>The answer of the server to a heartbeat whose certificate is accepted.\<close>

lemma authorize_keeps:
  assumes "authorizeIdentity i fp s = (Inr ag, s1)" and "store_wf (sv_store s)"
  shows "store_wf (sv_store s1) \<and> sv_rules s1 = sv_rules s \<and> queue_of j (sv_store s1) = queue_of j (sv_store s) \<and>
    store_Get i (sv_store s1) \<noteq> None"
proof -
  have "sv_store s1 = sv_store s \<or> sv_store s1 = store_step (SPromote i fp) (sv_store s)"
    using assms(1) by (auto simp: authorizeIdentity_def case_prod_beta split: option.splits if_splits)
  moreover have "sv_rules s1 = sv_rules s" and "store_Get i (sv_store s) \<noteq> None"
    using assms(1) by (auto simp: authorizeIdentity_def case_prod_beta split: option.splits if_splits)
  ultimately show ?thesis
    using store_wf_step [OF assms(2), of "SPromote i fp"] assms(2) queue_of_step [of "SPromote i fp" j "sv_store s"]
    by (auto simp: PromoteCert_def store_Get_def split: option.splits if_splits)
qed

lemma Heartbeat_answer:
  assumes "authorizeIdentity (hb_AgentId req) fp s = (Inr ag, s1)" and "store_wf (sv_store s)"
  shows "\<exists>s'. api_Heartbeat now fp req s =
      (Inr (toProtoCommands ((if hb_RulesVersion req \<noteq> provider_Version (sv_rules s)
         then [\<lparr>cmd_Kind = cmdUpdateRules, cmd_Argument = provider_Version (sv_rules s)\<rparr>] else []) @
         queue_of (hb_AgentId req) (sv_store s))), s') \<and> sv_rules s' = sv_rules s"
proof -
  note keeps = authorize_keeps [OF assms, of "hb_AgentId req"]
  then obtain a where a: "map_of (fs_agents (sv_store s1)) (hb_AgentId req) = Some a" "ag_ID a = hb_AgentId req"
    by (auto simp: store_Get_def store_wf_def)
  then show ?thesis
    using keeps assms(1)
    by (simp add: api_Heartbeat_def store_Heartbeat_def DrainCommands_def Let_def)
qed

lemma syncRules_in_step: "syncRules V (Inr (RulesUnchanged v)) a = a"
  by (simp add: syncRules_def FetchRules_def)

lemma GetRules_in_step: "GetRules (provider_Version (sv_rules s)) s = RulesUnchanged (provider_Version (sv_rules s))"
  by (simp add: GetRules_def Bundle_def provider_Version_def)

lemma commands_in_step:
  assumes "fa_rulesVersion a = provider_Version (sv_rules s)"
    and "apply_commands V (\<lambda>v. Inr (GetRules v s)) cs a = (a', es)"
  shows "fa_rulesVersion a' = fa_rulesVersion a \<and> fa_engine a' = fa_engine a \<and> fa_disk a' = fa_disk a"
  using assms
proof (induction cs arbitrary: a es)
  case (Cons c cs)
  obtain a1 e1 e2 where c: "applyCommand V (\<lambda>v. Inr (GetRules v s)) c a = (a1, e1)"
      "apply_commands V (\<lambda>v. Inr (GetRules v s)) cs a1 = (a', e2)"
    using Cons.prems(2) by (auto split: prod.splits)
  then have "fa_rulesVersion a1 = fa_rulesVersion a \<and> fa_engine a1 = fa_engine a \<and> fa_disk a1 = fa_disk a"
    using Cons.prems(1) GetRules_in_step [of s] syncRules_in_step
    by (auto simp: applyCommand_def split: if_splits prod.splits)
  then show ?case using Cons.IH [OF _ c(2)] Cons.prems(1) by simp
qed simp

lemma client_commands_Cons_update:
  "client_commands (toProtoCommands (\<lparr>cmd_Kind = cmdUpdateRules, cmd_Argument = v\<rparr> # cs)) =
     \<lparr>cmd_Kind = cmdUpdateRules, cmd_Argument = v\<rparr> # client_commands (toProtoCommands cs)"
  by (simp add: client_commands_def toProtoCommands_def Command_Kind_value_def kind_String_def Command_Kind_name_def)

lemma syncRules_loads:
  assumes "fa_rulesVersion a \<noteq> provider_Version (sv_rules s)"
    and "writeRuleFiles (ae_made V) (ae_writes V) (pv_files (sv_rules s)) (fa_disk a) = (True, d)"
    and "LoadDir (ae_lib V) (disk_dir (ae_yaml V) d) = Inr rules"
  shows "fa_rulesVersion (syncRules V (Inr (GetRules (fa_rulesVersion a) s)) a) = provider_Version (sv_rules s) \<and>
    en_rules (fa_engine (syncRules V (Inr (GetRules (fa_rulesVersion a) s)) a)) = rules \<and>
    fa_disk (syncRules V (Inr (GetRules (fa_rulesVersion a) s)) a) = d \<and>
    en_correlator (fa_engine (syncRules V (Inr (GetRules (fa_rulesVersion a) s)) a)) = en_correlator (fa_engine a)"
  using assms
  by (cases "fa_intel a")
    (simp_all add: syncRules_def FetchRules_def GetRules_def Bundle_def provider_Version_def loadEngine_def NewEngine_def
      SetIntel_def Let_def)

text \<open>
  C7. An agent that lags behind converges in one heartbeat. If the server accepts the agent's certificate and
  serves another version than the agent has, then, provided the pushed files can be written and the directory
  loads with them in it, after the heartbeat the agent has the server's version, its directory is the old one with
  the pushed files written over it, its engine runs the rules of that whole directory, files left from earlier
  versions included, and the correlator's state is kept. Without the proviso on loading it need not converge: a
  leftover file can keep the directory from loading.
\<close>

theorem stale_agent_converges:
  assumes "authorizeIdentity (fa_id a) fp s = (Inr ag, s1)" and "store_wf (sv_store s)"
    and "fa_rulesVersion a \<noteq> provider_Version (sv_rules s)"
    and "writeRuleFiles (ae_made V) (ae_writes V) (pv_files (sv_rules s)) (fa_disk a) = (True, d)"
    and "LoadDir (ae_lib V) (disk_dir (ae_yaml V) d) = Inr rules"
    and "api_Heartbeat now fp (heartbeat_of n1 n2 n3 a) s = (answer, s')"
    and "agent_heartbeat V (\<lambda>v. Inr (GetRules v s')) answer a = (a', effs)"
  shows "fa_rulesVersion a' = provider_Version (sv_rules s') \<and> en_rules (fa_engine a') = rules \<and> fa_disk a' = d \<and>
    en_correlator (fa_engine a') = en_correlator (fa_engine a)"
proof -
  let ?v = "provider_Version (sv_rules s)" and ?q = "queue_of (fa_id a) (sv_store s)"
  have ans: "answer = Inr (toProtoCommands (\<lparr>cmd_Kind = cmdUpdateRules, cmd_Argument = ?v\<rparr> # ?q))"
    and rules: "sv_rules s' = sv_rules s"
    using Heartbeat_answer [of "heartbeat_of n1 n2 n3 a" fp s ag s1 now] assms(1-3,6) by (auto simp: heartbeat_of_def)
  let ?a1 = "syncRules V (Inr (GetRules (fa_rulesVersion a) s')) a"
  have a1: "fa_rulesVersion ?a1 = ?v \<and> en_rules (fa_engine ?a1) = rules \<and> fa_disk ?a1 = d \<and>
      en_correlator (fa_engine ?a1) = en_correlator (fa_engine a)"
    using syncRules_loads [of a s' V d rules] assms(3,4,5) rules by simp
  obtain effs' where "apply_commands V (\<lambda>v. Inr (GetRules v s')) (client_commands (toProtoCommands ?q)) ?a1 = (a', effs')"
    using assms(7) unfolding ans agent_heartbeat_def
    by (auto simp: client_commands_Cons_update applyCommand_def split: prod.splits)
  then show ?thesis using commands_in_step [of ?a1 s' V _ a' effs'] a1 rules by simp
qed

definition sample_served :: service where
  "sample_served = sample_enrolled\<lparr>sv_rules := \<lparr>pv_policyFile = [], pv_version = ''new'', pv_files = [\<lparr>rf_Name = ''r.yaml'', rf_Content = ''x''\<rparr>]\<rparr>\<rparr>"

lemma sample_served_agent:
  "\<exists>ag. authorizeIdentity (NewID 7) ''aa'' sample_served = (Inr ag, sample_served)" "store_wf (sv_store sample_served)"
proof -
  obtain ag where "store_Get (NewID 7) (sv_store sample_enrolled) = Some ag" "ag_CertFingerprint ag = ''aa''"
    using sample_enrolled_agent by blast
  then show "\<exists>ag. authorizeIdentity (NewID 7) ''aa'' sample_served = (Inr ag, sample_served)"
    by (simp add: authorizeIdentity_def sample_served_def)
  have "sv_store sample_enrolled = store_step (SEnroll 7 0 ''web'' ''1'' ''6'' ''aa'') new_fleet_store"
    by (simp add: sample_enrolled_def sample_service_def sample_enroll_def api_Enroll_def case_prod_beta)
  then show "store_wf (sv_store sample_served)"
    using store_wf_step [OF store_wf_new, of "SEnroll 7 0 ''web'' ''1'' ''6'' ''aa''"] by (simp add: sample_served_def)
qed

lemma one_file_loads: "\<exists>rules. LoadDir literal_lib (disk_dir (\<lambda>_. Some sample_docs) [(''r.yaml'', x)]) = Inr rules"
proof -
  have "dir_rules literal_lib (disk_dir (\<lambda>_. Some sample_docs) [(''r.yaml'', x)]) docs rules = dir_rules literal_lib sample_dir docs rules"
    for docs rules
    by (auto simp: dir_rules_def disk_dir_def sample_dir_def file_docs_def has_suffix_def list_all2_Cons1)
  then show ?thesis using sample_dir_loads unfolding LoadDir_Inr by metis
qed

theorem stale_agent_converges_witness:
  "let (answer, s') = api_Heartbeat 1 ''aa'' (heartbeat_of 0 0 0 sample_agent) sample_served;
       (a', effs) = agent_heartbeat sample_agent_env (\<lambda>v. Inr (GetRules v s')) answer sample_agent
   in fa_rulesVersion a' = provider_Version (sv_rules s') \<and> map fst (fa_disk a') = [''r.yaml'']"
proof -
  obtain ag where ag: "authorizeIdentity (fa_id sample_agent) ''aa'' sample_served = (Inr ag, sample_served)"
    using sample_served_agent(1) by (auto simp: sample_agent_def)
  obtain rules where rules: "LoadDir (ae_lib sample_agent_env) (disk_dir (ae_yaml sample_agent_env) [(''r.yaml'', ''x'')]) = Inr rules"
    using one_file_loads by (auto simp: sample_agent_env_def)
  have stale: "fa_rulesVersion sample_agent \<noteq> provider_Version (sv_rules sample_served)"
    by (simp add: sample_agent_def sample_served_def provider_Version_def)
  have w: "writeRuleFiles (ae_made sample_agent_env) (ae_writes sample_agent_env) (pv_files (sv_rules sample_served)) (fa_disk sample_agent)
      = (True, [(''r.yaml'', ''x'')])"
    by (simp add: writeRuleFiles_def sample_agent_env_def sample_served_def sample_agent_def path_base_def is_slash_def)
  show ?thesis
    using stale_agent_converges [OF ag sample_served_agent(2) stale w rules surjective_pairing surjective_pairing, of 1 0 0 0]
    by (simp add: case_prod_beta)
qed

text \<open>
  C36. The version an agent starts from is the one the server announces at enrolment, before the agent has any of
  the server's rules. So the first synchronisation, which is meant to bring the agent's rules up to date,
  is answered with \<open>unchanged\<close>, heartbeats bring no request to update either, and the agent goes on with whatever
  rules it has locally until the server's bundle changes.
\<close>

theorem enrolment_skips_the_rules:
  assumes "api_Enroll rnd now fp req s = (Inr resp, s')" and "connectFleet (Inr resp) a = Some a'"
    and "store_wf (sv_store s)" and "queue_of (fa_id a') (sv_store s) = []"
  shows "syncRules V (Inr (GetRules (fa_rulesVersion a') s')) a' = a' \<and> fa_engine a' = fa_engine a \<and> fa_disk a' = fa_disk a \<and>
    (\<exists>s''. api_Heartbeat now' fp (heartbeat_of n1 n2 n3 a') s' = (Inr [], s''))"
proof -
  have s': "s' = s\<lparr>sv_store := store_step (SEnroll rnd now (er_Hostname req) (er_AgentVersion req) (er_Kernel req) fp) (sv_store s)\<rparr>"
    and resp: "ep_AgentId resp = NewID rnd" "ep_RulesVersion resp = provider_Version (sv_rules s)"
    using assms(1) by (auto simp: api_Enroll_def store_Enroll_def Let_def split: if_splits)
  have a': "a' = a\<lparr>fa_id := NewID rnd, fa_rulesVersion := provider_Version (sv_rules s')\<rparr>"
    using assms(2) resp s' by (simp add: connectFleet_def)
  have auth: "\<exists>ag. authorizeIdentity (NewID rnd) fp s' = (Inr ag, s')"
    by (simp add: s' authorizeIdentity_def store_Get_Enroll store_Enroll_def Let_def)
  have wf: "store_wf (sv_store s')"
    using store_wf_step [OF assms(3), of "SEnroll rnd now (er_Hostname req) (er_AgentVersion req) (er_Kernel req) fp"] by (simp add: s')
  have q: "queue_of (NewID rnd) (sv_store s') = []"
    using assms(4) a' queue_of_step [of "SEnroll rnd now (er_Hostname req) (er_AgentVersion req) (er_Kernel req) fp" "NewID rnd" "sv_store s"]
    by (simp add: s')
  have "\<exists>s''. api_Heartbeat now' fp (heartbeat_of n1 n2 n3 a') s' = (Inr [], s'')"
    using Heartbeat_answer [of "heartbeat_of n1 n2 n3 a'" fp s'] auth wf q
    by (fastforce simp: heartbeat_of_def a' toProtoCommands_def)
  then show ?thesis using GetRules_in_step [of s'] syncRules_in_step by (simp add: a')
qed

theorem enrolment_skips_the_rules_witness:
  "\<exists>a'. connectFleet (fst (api_Enroll 7 0 ''aa'' sample_enroll sample_service)) sample_agent = Some a' \<and>
     syncRules sample_agent_env (Inr (GetRules (fa_rulesVersion a') sample_enrolled)) a' = a' \<and> fa_disk a' = []"
proof -
  obtain resp where e: "api_Enroll 7 0 ''aa'' sample_enroll sample_service = (Inr resp, sample_enrolled)" "ep_AgentId resp = NewID 7"
    by (simp add: sample_enrolled_def sample_service_def sample_enroll_def api_Enroll_def case_prod_beta store_Enroll_def Let_def)
  then obtain a' where a': "connectFleet (Inr resp) sample_agent = Some a'" "fa_id a' = NewID 7"
    by (simp add: connectFleet_def)
  have "store_wf (sv_store sample_service)" "queue_of (fa_id a') (sv_store sample_service) = []"
    using store_wf_new by (simp_all add: sample_service_def queue_of_def new_fleet_store_def)
  then show ?thesis
    using enrolment_skips_the_rules [OF e(1) a'(1), of sample_agent_env 1 0 0 0] a' e by (simp add: sample_agent_def)
qed

end
