(* ===== verification/Fleet_Sync.thy ===== *)
theory Fleet_Sync
  imports Fleet_Agent
begin

text \<open>
  What the rule synchronisation between the server (server/ruleset, server/api) and the agent (cmd/argus/fleet.go)
  achieves: an agent that downloads the bundle runs the rules the server validated, and what is left of a
  former bundle in its directory can keep it from doing so.
\<close>

section \<open>The agent runs what the server validated\<close>

lemma sort_key_perm:
  assumes "mset xs = mset ys" and "distinct (map f xs)"
  shows "sort_key f xs = sort_key f ys"
proof (rule properties_for_sort_key)
  show "mset (sort_key f ys) = mset xs" using assms(1) by simp
  show "sorted (map f (sort_key f ys))" by simp
  fix k assume "k \<in> set (sort_key f ys)"
  then have k: "k \<in> set xs" using assms(1) by (metis set_mset_mset set_sort)
  have "distinct (map f (sort_key f ys))"
    using assms by (metis distinct_map mset_eq_setD mset_eq_imp_distinct_iff mset_sort)
  moreover have "filter (\<lambda>x. f k = f x) zs = [k]" if "distinct (map f zs)" and "k \<in> set zs" for zs
    using that
  proof (induction zs)
    case (Cons z zs)
    have "f k \<noteq> f z" if "k \<in> set zs" using Cons.prems(1) that by (metis distinct.simps(2) image_eqI list.set_map list.simps(9))
    then show ?case using Cons by (cases "z = k") (auto simp: filter_empty_conv)
  qed simp
  ultimately show "filter (\<lambda>x. f k = f x) (sort_key f ys) = filter (\<lambda>x. f k = f x) xs"
    using assms(2) k \<open>k \<in> set (sort_key f ys)\<close> by simp
qed

lemma list_all2_map_fun: "list_all2 R xs ys \<Longrightarrow> (\<And>x y z. R x y \<Longrightarrow> R x z \<Longrightarrow> y = z) \<Longrightarrow> \<exists>g. ys = map g xs \<and> (\<forall>x \<in> set xs. R x (g x))"
proof (induction rule: list_all2_induct)
  case (Cons x xs y ys)
  then obtain g where g: "ys = map g xs" "\<forall>x \<in> set xs. R x (g x)" by blast
  have "ys = map (g(x := y)) xs" using g Cons.hyps(1) Cons.prems by (auto simp: list_eq_iff_nth_eq) (metis nth_mem)
  then show ?case using g Cons.hyps(1) by (intro exI [of _ "g(x := y)"]) auto
qed simp

lemma file_docs_fun: "file_docs D path docs \<Longrightarrow> file_docs D path docs' \<Longrightarrow> docs = docs'"
  by (auto simp: file_docs_def)

text \<open>Loading does not depend on where the files are and in which order they are listed.\<close>

lemma LoadDir_perm:
  assumes "LoadDir L D = Inr rules" and "rd_glob D = Some paths" and "rd_glob D' = Some (map b paths')"
    and "mset paths' = mset paths" and "\<And>path docs. path \<in> set paths \<Longrightarrow> file_docs D path docs \<Longrightarrow> file_docs D' (b path) docs"
  shows "LoadDir L D' = Inr rules"
proof -
  obtain docs rs docss where r: "list_all2 (file_docs D) paths docss" "docs = concat docss"
      "list_all2 (\<lambda>doc r. compileRule L doc = Inr r) docs rs" "rs \<noteq> []" "distinct (map r_ID rs)" "rules = sort_key r_ID rs"
    using assms(1,2) unfolding LoadDir_Inr dir_rules_def by auto
  have "\<exists>g. docss = map g paths \<and> (\<forall>path \<in> set paths. file_docs D path (g path))"
    by (rule list_all2_map_fun [OF r(1)]) (rule file_docs_fun)
  then obtain g where g: "docss = map g paths" "\<forall>path \<in> set paths. file_docs D path (g path)" by blast
  have "\<exists>h. rs = map h docs \<and> (\<forall>doc \<in> set docs. compileRule L doc = Inr (h doc))"
    by (rule list_all2_map_fun [OF r(3)]) simp
  then obtain h where h: "rs = map h docs" "\<forall>doc \<in> set docs. compileRule L doc = Inr (h doc)" by blast
  let ?docs = "concat (map g paths')"
  have set': "set paths' = set paths" using assms(4) by (rule mset_eq_setD)
  have "sum_list (map (mset \<circ> g) paths') = sum_list (map (mset \<circ> g) paths)"
    using arg_cong [OF assms(4), of "\<lambda>M. sum_mset (image_mset (mset \<circ> g) M)"] by (simp add: sum_mset_sum_list flip: mset_map)
  then have "mset ?docs = mset docs" unfolding r(2) g(1) mset_concat map_map .
  then have perm: "mset (map h ?docs) = mset rs" and docs: "set ?docs = set docs"
    unfolding h(1) mset_map by (rule arg_cong, rule mset_eq_setD)
  have "list_all2 (file_docs D') (map b paths') (map g paths')"
    unfolding list.rel_map by (rule list.rel_refl_strong) (use g(2) assms(5) set' in blast)
  moreover have "list_all2 (\<lambda>doc r. compileRule L doc = Inr r) ?docs (map h ?docs)"
    unfolding list.rel_map(2) by (rule list.rel_refl_strong) (use h(2) docs in blast)
  ultimately have "dir_rules L D' ?docs (map h ?docs)"
    using assms(3) unfolding dir_rules_def by blast
  moreover have "map h ?docs \<noteq> []" using perm r(4) by (metis mset_zero_iff)
  moreover have "distinct (map r_ID (map h ?docs))" using perm r(5) by (metis mset_eq_imp_distinct_iff mset_map)
  moreover have "rules = sort_key r_ID (map h ?docs)" using sort_key_perm [OF perm [symmetric] r(5)] r(6) by simp
  ultimately show ?thesis unfolding LoadDir_Inr by blast
qed

lemma takeWhile_dropWhile_not: "dropWhile P xs = [] \<or> takeWhile (\<lambda>c. \<not> P c) (dropWhile P xs) \<noteq> []"
  by (induction xs) simp_all

lemma path_base_cases:
  obtains "path_base path = ''.''" | "path_base path = ''/''"
    | "path_base path \<noteq> []" "\<forall>c \<in> set (path_base path). \<not> is_slash c"
proof -
  let ?t = "takeWhile (\<lambda>c. \<not> is_slash c) (dropWhile is_slash (rev path))"
  consider "path = []" | "path \<noteq> []" "dropWhile is_slash (rev path) = []" | "path \<noteq> []" "dropWhile is_slash (rev path) \<noteq> []" by blast
  then show thesis
  proof cases
    case 1
    then have "path_base path = ''.''" unfolding path_base_def by (rule if_P)
    then show thesis by (rule that(1))
  next
    case 2
    then have "path_base path = ''/''" unfolding path_base_def by simp
    then show thesis by (rule that(2))
  next
    case 3
    then have b: "path_base path = rev ?t" unfolding path_base_def Let_def rev_rev_ident rev_is_Nil_conv by (simp only: if_False)
    have "?t \<noteq> []" using takeWhile_dropWhile_not [of is_slash "rev path"] 3(2) by blast
    moreover have "\<forall>c \<in> set ?t. \<not> is_slash c" by (blast dest: set_takeWhileD)
    ultimately show thesis by (intro that(3)) (simp_all only: b rev_is_Nil_conv set_rev not_False_eq_True)
  qed
qed

lemma path_base_idem [simp]: "path_base (path_base path) = path_base path"
proof (cases path rule: path_base_cases)
  case 3
  have drop: "dropWhile is_slash (rev (path_base path)) = rev (path_base path)"
    using 3(2) last_in_set [OF 3(1)] by (simp add: dropWhile_eq_self_iff hd_rev)
  have "takeWhile (\<lambda>c. \<not> is_slash c) (rev (path_base path)) = rev (path_base path)"
    using 3(2) by (simp add: takeWhile_eq_all_conv)
  then show ?thesis
    using 3(1) unfolding path_base_def [of "path_base path"] drop Let_def rev_rev_ident by (simp only: if_False rev_rev_ident)
qed (simp_all add: path_base_def is_slash_def)

lemma write_files_updates:
  "write_files wr fs d = (True, d') \<Longrightarrow> d' = AList.updates (map (path_base \<circ> rf_Name) fs) (map rf_Content fs) d"
proof (induction fs arbitrary: d)
  case (Cons f fs)
  then show ?case by (cases "wr (path_base (rf_Name f))") simp_all
qed simp

lemma write_files_written:
  assumes "write_files wr files d = (True, d')" and "distinct (map (path_base \<circ> rf_Name) files)" and "f \<in> set files"
  shows "map_of d' (path_base (rf_Name f)) = Some (rf_Content f)"
proof -
  have "map_of (rev (zip (map (path_base \<circ> rf_Name) files) (map rf_Content files))) (path_base (rf_Name f)) = Some (rf_Content f)"
    using assms(3) unfolding zip_map_map zip_same_conv_map map_map
    by (intro map_of_is_SomeI) (use assms(2) in \<open>auto simp: comp_def rev_map [symmetric]\<close>)
  then show ?thesis
    unfolding write_files_updates [OF assms(1)] AList.updates_conv' map_upds_def
    by (simp add: map_add_Some_iff del: map_map)
qed

text \<open>The directory after the files of a bundle have been written over one that holds no other rule file.\<close>

lemma written_dir:
  assumes "write_files wr files d = (True, d')" and "distinct (map (path_base \<circ> rf_Name) files)" and "wf_map d"
    and "\<forall>n \<in> fst ` set d. has_suffix n ''.yaml'' \<longrightarrow> n \<in> (path_base \<circ> rf_Name) ` set files"
  shows "rd_glob (disk_dir decode d') = Some (sort (filter (\<lambda>n. has_suffix n ''.yaml'') (map (path_base \<circ> rf_Name) files)))"
    and "f \<in> set files \<Longrightarrow> rd_read (disk_dir decode d') (path_base (rf_Name f)) = Some (rf_Content f)"
proof -
  let ?ns = "map (path_base \<circ> rf_Name) files"
  have d': "d' = AList.updates ?ns (map rf_Content files) d" using write_files_updates [OF assms(1)] .
  have wf: "wf_map d'" unfolding d' using assms(3) by (rule AList.distinct_updates)
  have look: "map_of d' = (map_of d)(?ns [\<mapsto>] map rf_Content files)" unfolding d' by (rule AList.updates_conv')
  have keys: "set (map fst d') = set (map fst d) \<union> set ?ns"
    using arg_cong [OF look, of dom] by (simp add: dom_map_of_conv_image_fst Un_commute)
  let ?y = "\<lambda>n. has_suffix n ''.yaml''"
  have "set (filter ?y (map fst d')) = set (filter ?y ?ns)"
    using keys assms(4) by (auto simp del: map_map)
  moreover have "distinct (filter ?y (map fst d'))" "distinct (filter ?y ?ns)" using wf assms(2) by (simp_all del: map_map)
  ultimately have "mset (filter ?y (map fst d')) = mset (filter ?y ?ns)" using set_eq_iff_mset_eq_distinct by blast
  then show "rd_glob (disk_dir decode d') = Some (sort (filter ?y ?ns))"
    unfolding disk_dir_def rule_dir.simps by (intro arg_cong [of _ _ Some] properties_for_sort) simp_all
  assume "f \<in> set files"
  then show "rd_read (disk_dir decode d') (path_base (rf_Name f)) = Some (rf_Content f)"
    using write_files_written [OF assms(1,2)] by (simp add: disk_dir_def)
qed

lemma sort_map_key: "sort (map f xs) = map f (sort_key f xs)"
  by (rule properties_for_sort) simp_all

lemma posture_name: "path_base policy_FileName = policy_FileName" "\<not> has_suffix policy_FileName ''.yaml''"
  by (simp_all add: path_base_def is_slash_def policy_FileName_def has_suffix_def)

lemma bundle_names:
  assumes "map rf_Name rs = map path_base (sort paths)" and "\<forall>f. posture = Some f \<longrightarrow> rf_Name f = policy_FileName"
    and "distinct (map path_base paths)" and "list_all (\<lambda>path. has_suffix (path_base path) ''.yaml'') paths"
    and "fs = rs @ (case posture of None \<Rightarrow> [] | Some f \<Rightarrow> [f])"
  shows "filter (\<lambda>n. has_suffix n ''.yaml'') (map (path_base \<circ> rf_Name) fs) = map path_base (sort paths)"
    and "distinct (map (path_base \<circ> rf_Name) fs)"
proof -
  let ?tl = "case posture of None \<Rightarrow> [] | Some f \<Rightarrow> [policy_FileName]"
  have "map (path_base \<circ> rf_Name) rs = map path_base (map rf_Name rs)" by simp
  then have "map (path_base \<circ> rf_Name) rs = map path_base (sort paths)" by (simp add: assms(1))
  then have ns: "map (path_base \<circ> rf_Name) fs = map path_base (sort paths) @ ?tl"
    using assms(2) posture_name(1) unfolding assms(5) by (cases posture) simp_all
  have yaml: "\<forall>n \<in> set (map path_base (sort paths)). has_suffix n ''.yaml''"
    using assms(4) by (simp add: list_all_iff)
  show "filter (\<lambda>n. has_suffix n ''.yaml'') (map (path_base \<circ> rf_Name) fs) = map path_base (sort paths)"
    unfolding ns filter_append filter_True [OF yaml] using posture_name(2) by (cases posture) simp_all
  have "distinct (map path_base (sort paths))" using assms(3) by (simp add: distinct_map)
  moreover have "policy_FileName \<notin> set (map path_base (sort paths))"
    by (rule notI) (drule bspec [OF yaml], simp only: posture_name(2))
  ultimately show "distinct (map (path_base \<circ> rf_Name) fs)"
    unfolding ns by (cases posture) simp_all
qed

text \<open>
  C4. The agent runs the rules the server validated. If the rule files of the server's directory have different
  base names ending in \<open>.yaml\<close>, and the agent's rules directory holds no rule file under another name, then an
  agent of another version that downloads the bundle, and can write it, ends with exactly the rules the server
  loaded from its directory and with the server's version.
\<close>

theorem served_rules_arrive:
  assumes "Reload (ae_lib V) sha decode readPolicy D D p = (None, sv_rules s)"
    and "LoadDir (ae_lib V) D = Inr rules" and "rd_glob D = Some paths" and "rd_decode D = ae_yaml V"
    and "distinct (map path_base paths)" and "list_all (\<lambda>path. has_suffix (path_base path) ''.yaml'') paths"
    and "wf_map (fa_disk a)"
    and "\<And>n. n \<in> fst ` set (fa_disk a) \<Longrightarrow> has_suffix n ''.yaml'' \<Longrightarrow> n \<in> path_base ` set paths"
    and "writeRuleFiles (ae_made V) (ae_writes V) (pv_files (sv_rules s)) (fa_disk a) = (True, d)"
    and "fa_rulesVersion a \<noteq> provider_Version (sv_rules s)"
  shows "let a' = syncRules V (Inr (GetRules (fa_rulesVersion a) s)) a
    in en_rules (fa_engine a') = rules \<and> fa_rulesVersion a' = provider_Version (sv_rules s)"
proof -
  obtain posture rs where files: "pv_files (sv_rules s) = rs @ (case posture of None \<Rightarrow> [] | Some f \<Rightarrow> [f])"
      "map rf_Name rs = map path_base (sort paths)" "list_all2 (\<lambda>path f. rd_read D path = Some (rf_Content f)) (sort paths) rs"
      "\<forall>f. posture = Some f \<longrightarrow> rf_Name f = policy_FileName"
    using Reload_ok [OF assms(1)] assms(3) unfolding serves_def by auto
  let ?fs = "pv_files (sv_rules s)"
  note names = bundle_names [OF files(2,4) assms(5,6) files(1)]
  have w: "write_files (ae_writes V) ?fs (fa_disk a) = (True, d)"
    using assms(9) by (simp add: writeRuleFiles_def split: if_splits)
  have old: "\<forall>n \<in> fst ` set (fa_disk a). has_suffix n ''.yaml'' \<longrightarrow> n \<in> (path_base \<circ> rf_Name) ` set ?fs"
  proof (intro ballI impI)
    fix n assume "n \<in> fst ` set (fa_disk a)" and "has_suffix n ''.yaml''"
    then have "n \<in> set (map path_base (sort paths))" using assms(8) by simp
    then show "n \<in> (path_base \<circ> rf_Name) ` set ?fs" unfolding names(1) [symmetric] by (simp del: map_map)
  qed
  note dir = written_dir [OF w names(2) assms(7) old]
  have "rd_glob (disk_dir (ae_yaml V) d) = Some (map path_base (sort_key path_base (sort paths)))"
    using dir(1) unfolding names(1) sort_map_key .
  moreover have "mset (sort_key path_base (sort paths)) = mset paths" by simp
  moreover have "file_docs (disk_dir (ae_yaml V) d) (path_base path) docs"
    if mem: "path \<in> set paths" and "file_docs D path docs" for path docs
  proof -
    obtain i where i: "i < length (sort paths)" "sort paths ! i = path" using mem in_set_conv_nth [of path "sort paths"] by auto
    have len: "i < length rs" using i(1) files(2) by (metis length_map)
    then have f: "rs ! i \<in> set ?fs" "rf_Name (rs ! i) = path_base path" "rd_read D path = Some (rf_Content (rs ! i))"
      using i files(1) arg_cong [OF files(2), of "\<lambda>xs. xs ! i"] list_all2_nthD [OF files(3) i(1)] by simp_all
    then show ?thesis using dir(2) [OF f(1), of "ae_yaml V"] that(2) assms(4) by (auto simp: file_docs_def disk_dir_def)
  qed
  ultimately have "LoadDir (ae_lib V) (disk_dir (ae_yaml V) d) = Inr rules"
    by (rule LoadDir_perm [OF assms(2,3)])
  then show ?thesis using syncRules_loads [OF assms(10,9)] by (simp add: Let_def)
qed

theorem served_rules_arrive_witness:
  "\<exists>rules. LoadDir literal_lib (disk_dir (\<lambda>_. Some sample_docs) [(''r.yaml'', ''x'')]) = Inr rules \<and>
     en_rules (fa_engine (syncRules sample_agent_env (Inr (GetRules (fa_rulesVersion sample_agent) sample_served)) sample_agent)) = rules"
proof -
  let ?D = "disk_dir (\<lambda>_. Some sample_docs) [(''r.yaml'', ''x'')]"
  obtain rules where rules: "LoadDir (ae_lib sample_agent_env) ?D = Inr rules"
    using one_file_loads by (auto simp: sample_agent_env_def)
  have "Reload (ae_lib sample_agent_env) (\<lambda>_. ''new'') (\<lambda>_. None) (\<lambda>_. None) ?D ?D
      \<lparr>pv_policyFile = [], pv_version = [], pv_files = []\<rparr> = (None, sv_rules sample_served)"
    unfolding Reload_def rules
    by (simp add: disk_dir_def has_suffix_def loadPolicy_def sample_served_def path_base_def is_slash_def versionLen_def)
  moreover have "rd_glob ?D = Some [''r.yaml'']" "rd_decode ?D = ae_yaml sample_agent_env"
    by (simp_all add: disk_dir_def has_suffix_def sample_agent_env_def)
  moreover have "writeRuleFiles (ae_made sample_agent_env) (ae_writes sample_agent_env) (pv_files (sv_rules sample_served)) (fa_disk sample_agent)
      = (True, [(''r.yaml'', ''x'')])" "fa_rulesVersion sample_agent \<noteq> provider_Version (sv_rules sample_served)"
    by (simp_all add: writeRuleFiles_def sample_agent_env_def sample_served_def sample_agent_def path_base_def is_slash_def provider_Version_def)
  ultimately show ?thesis
    using served_rules_arrive [OF _ rules, of "\<lambda>_. ''new''" "\<lambda>_. None" "\<lambda>_. None" _ sample_served "[''r.yaml'']" sample_agent] rules
    by (simp add: sample_agent_def path_base_def is_slash_def has_suffix_def sample_agent_env_def Let_def)
qed

section \<open>What a former bundle leaves behind\<close>

lemma write_files_keeps:
  "write_files wr fs d = (ok, d') \<Longrightarrow> n \<notin> (path_base \<circ> rf_Name) ` set fs \<Longrightarrow> map_of d' n = map_of d n"
proof (induction fs arbitrary: d)
  case (Cons f fs)
  then show ?case by (cases "wr (path_base (rf_Name f))") (simp_all add: update_conv')
qed simp

lemma distinct_concat_disjoint:
  "distinct (concat (map g xs)) \<Longrightarrow> x \<in> set xs \<Longrightarrow> y \<in> set xs \<Longrightarrow> x \<noteq> y \<Longrightarrow> set (g x) \<inter> set (g y) = {}"
  by (induction xs) auto

text \<open>A directory with one identifier in two files does not load.\<close>

lemma LoadDir_duplicate:
  assumes "rd_glob D = Some paths" and "path \<in> set paths" and "path' \<in> set paths" and "path \<noteq> path'"
    and "file_docs D path docs" and "file_docs D path' docs'" and "i \<in> y_ID ` set docs" and "i \<in> y_ID ` set docs'"
  shows "LoadDir L D \<noteq> Inr rules"
proof
  assume "LoadDir L D = Inr rules"
  then obtain rs docss where r: "list_all2 (file_docs D) paths docss"
      "list_all2 (\<lambda>doc r. compileRule L doc = Inr r) (concat docss) rs" "distinct (map r_ID rs)"
    using assms(1) unfolding LoadDir_Inr dir_rules_def by auto
  have "\<exists>g. docss = map g paths \<and> (\<forall>path \<in> set paths. file_docs D path (g path))"
    by (rule list_all2_map_fun [OF r(1)]) (rule file_docs_fun)
  then obtain g where g: "docss = map g paths" "\<forall>path \<in> set paths. file_docs D path (g path)" by blast
  have "map r_ID rs = map y_ID (concat docss)"
    using r(2) by (induction rule: list_all2_induct) (simp_all add: compileRule_Matches)
  then have "distinct (concat (map (map y_ID \<circ> g) paths))" using r(3) by (simp add: g(1) map_concat)
  then have "set (map y_ID (g path)) \<inter> set (map y_ID (g path')) = {}"
    using distinct_concat_disjoint [OF _ assms(2-4), of "map y_ID \<circ> g"] by simp
  moreover have "g path = docs" "g path' = docs'" using g(2) assms(2,3,5,6) file_docs_fun by blast+
  ultimately show False using assms(7,8) by auto
qed

definition sync_round :: "agent_env \<Rightarrow> service \<Rightarrow> fleet_agent \<Rightarrow> fleet_agent" where
  "sync_round V s a = syncRules V (Inr (GetRules (fa_rulesVersion a) s)) a"

lemma sync_round_blocked:
  assumes "map_of (fa_disk a) old = Some c" and "has_suffix old ''.yaml''" and "ae_yaml V c = Some docs"
    and "old \<notin> (path_base \<circ> rf_Name) ` set (pv_files (sv_rules s))" and "f \<in> set (pv_files (sv_rules s))"
    and "distinct (map (path_base \<circ> rf_Name) (pv_files (sv_rules s)))"
    and "has_suffix (path_base (rf_Name f)) ''.yaml''" and "ae_yaml V (rf_Content f) = Some docs'"
    and "i \<in> y_ID ` set docs" and "i \<in> y_ID ` set docs'" and "fa_rulesVersion a \<noteq> provider_Version (sv_rules s)"
  shows "\<exists>d. sync_round V s a = a\<lparr>fa_disk := d\<rparr> \<and> map_of d old = Some c"
proof -
  let ?fs = "pv_files (sv_rules s)"
  obtain ok d where w: "writeRuleFiles (ae_made V) (ae_writes V) ?fs (fa_disk a) = (ok, d)" by fastforce
  have keeps: "map_of d old = Some c"
    using w write_files_keeps [OF _ assms(4), of "ae_writes V" "fa_disk a" ok d] assms(1)
    by (auto simp: writeRuleFiles_def split: if_splits)
  have answer: "FetchRules (Inr (GetRules (fa_rulesVersion a) s)) =
      Inr \<lparr>fr_Version = provider_Version (sv_rules s), fr_Unchanged = False, fr_Files = ?fs\<rparr>"
    using assms(11) by (simp add: FetchRules_def GetRules_def Bundle_def provider_Version_def)
  have "\<exists>err. LoadDir (ae_lib V) (disk_dir (ae_yaml V) d) = Inl err" if ok
  proof -
    have "write_files (ae_writes V) ?fs (fa_disk a) = (True, d)"
      using w that by (simp add: writeRuleFiles_def split: if_splits)
    then have new: "map_of d (path_base (rf_Name f)) = Some (rf_Content f)"
      using write_files_written assms(5,6) by blast
    let ?y = "\<lambda>n. has_suffix n ''.yaml''"
    have mem: "old \<in> set (sort (filter ?y (map fst d)))" "path_base (rf_Name f) \<in> set (sort (filter ?y (map fst d)))"
      using assms(2,7) map_of_SomeD [OF keeps] map_of_SomeD [OF new] by (simp_all add: image_iff) force+
    have "path_base (rf_Name f) \<noteq> old" using assms(4,5) by auto
    moreover have "file_docs (disk_dir (ae_yaml V) d) old docs" "file_docs (disk_dir (ae_yaml V) d) (path_base (rf_Name f)) docs'"
      using keeps new assms(3,8) by (simp_all add: file_docs_def disk_dir_def)
    ultimately have "LoadDir (ae_lib V) (disk_dir (ae_yaml V) d) \<noteq> Inr rules" for rules
      using LoadDir_duplicate [of "disk_dir (ae_yaml V) d" _ old "path_base (rf_Name f)" docs docs' i "ae_lib V" rules] mem assms(9,10)
      by (simp add: disk_dir_def)
    then show ?thesis by (cases "LoadDir (ae_lib V) (disk_dir (ae_yaml V) d)") blast+
  qed
  then show ?thesis
    using keeps unfolding sync_round_def syncRules_def answer
    by (cases ok) (auto simp: w loadEngine_def)
qed

text \<open>
  C35. Files of a former bundle are never removed. If a rule moves to another file on the server, the agent ends
  with its identifier in two files, and the directory no longer loads: however often the agent synchronises
  it stays on its old engine and its old version.
\<close>

theorem moved_rule_blocks_sync:
  assumes "map_of (fa_disk a) old = Some c" and "has_suffix old ''.yaml''" and "ae_yaml V c = Some docs"
    and "old \<notin> (path_base \<circ> rf_Name) ` set (pv_files (sv_rules s))" and "f \<in> set (pv_files (sv_rules s))"
    and "distinct (map (path_base \<circ> rf_Name) (pv_files (sv_rules s)))"
    and "has_suffix (path_base (rf_Name f)) ''.yaml''" and "ae_yaml V (rf_Content f) = Some docs'"
    and "i \<in> y_ID ` set docs" and "i \<in> y_ID ` set docs'" and "fa_rulesVersion a \<noteq> provider_Version (sv_rules s)"
  shows "fa_engine ((sync_round V s ^^ k) a) = fa_engine a \<and> fa_rulesVersion ((sync_round V s ^^ k) a) = fa_rulesVersion a"
proof -
  have "\<exists>d. (sync_round V s ^^ k) a = a\<lparr>fa_disk := d\<rparr> \<and> map_of d old = Some c"
  proof (induction k)
    case 0
    show ?case using assms(1) by (intro exI [of _ "fa_disk a"]) simp
  next
    case (Suc k)
    then obtain d where d: "(sync_round V s ^^ k) a = a\<lparr>fa_disk := d\<rparr>" "map_of d old = Some c" by blast
    then show ?case using sync_round_blocked [of "a\<lparr>fa_disk := d\<rparr>", OF _ assms(2-10)] assms(11) by auto
  qed
  then show ?thesis by auto
qed

theorem moved_rule_blocks_sync_witness:
  "let s = sample_served\<lparr>sv_rules := \<lparr>pv_policyFile = [], pv_version = ''new'', pv_files = [\<lparr>rf_Name = ''b.yaml'', rf_Content = ''x''\<rparr>]\<rparr>\<rparr>;
       a = sample_agent\<lparr>fa_disk := [(''a.yaml'', ''x'')]\<rparr>
   in fa_rulesVersion ((sync_round sample_agent_env s ^^ 5) a) \<noteq> provider_Version (sv_rules s)"
  using moved_rule_blocks_sync [of "sample_agent\<lparr>fa_disk := [(''a.yaml'', ''x'')]\<rparr>" "''a.yaml''" "''x''" sample_agent_env sample_docs
      "sample_served\<lparr>sv_rules := \<lparr>pv_policyFile = [], pv_version = ''new'', pv_files = [\<lparr>rf_Name = ''b.yaml'', rf_Content = ''x''\<rparr>]\<rparr>\<rparr>"
      "\<lparr>rf_Name = ''b.yaml'', rf_Content = ''x''\<rparr>" sample_docs "''R1''" 5]
  by (simp add: has_suffix_def sample_agent_env_def path_base_def is_slash_def sample_docs_def sample_doc_def
      provider_Version_def sample_agent_def Let_def)

end
