(* ===== verification/Case_Store.thy ===== *)
theory Case_Store
  imports Argus_Prelude
begin

text \<open>
  Investigation cases: \<^verbatim>\<open>server/cases/cases.go\<close> (cases, validation) and the in-memory store of
  \<^verbatim>\<open>server/cases/memory.go\<close>. Each operation runs under the store's lock, so a concurrent use is a sequence of
  operations; the clock reading is an argument. The Markdown report of \<^verbatim>\<open>server/cases/report.go\<close> is not modelled.
\<close>

section \<open>Cases and their validation (cases.go)\<close>

definition validStatus :: "string \<Rightarrow> bool" where
  "validStatus status \<longleftrightarrow> status = ''open'' \<or> status = ''triage'' \<or> status = ''closed''"

record case_comment =
  cc_Author :: string
  cc_Body :: string
  cc_Time :: go_time

record inv_case =
  c_ID :: string
  c_Title :: string
  c_Status :: string
  c_Assignee :: string
  c_Severity :: string
  c_Host :: string
  c_Tags :: "string list"
  c_Evidence :: "string list"
  c_Comments :: "case_comment list"
  c_Created :: go_time
  c_Updated :: go_time

record createInput =
  in_Title :: string
  in_Severity :: string
  in_Host :: string
  in_Tags :: "string list"
  in_Evidence :: "string list"

record case_filter =
  cf_Status :: string
  cf_Assignee :: string

datatype case_error = CaseNotFound | NeedsTitle | UnknownSeverity string | InvalidStatus string

definition severityOrder :: "(string, int) gomap" where
  "severityOrder = [(''info'', 1), (''low'', 2), (''medium'', 3), (''high'', 4), (''critical'', 5)]"

definition severityRank :: "string \<Rightarrow> int" where
  "severityRank severity = (case map_of severityOrder (to_lower severity) of Some n \<Rightarrow> n | None \<Rightarrow> 0)"

definition validateCreate :: "createInput \<Rightarrow> case_error option" where
  "validateCreate input =
     (if trim_space (in_Title input) = [] then Some NeedsTitle
      else if in_Severity input \<noteq> [] \<and> severityRank (in_Severity input) = 0 then Some (UnknownSeverity (in_Severity input))
      else None)"

section \<open>The in-memory store (memory.go)\<close>

record case_store =
  cs_seq :: int
  cs_byID :: "(string, inv_case) gomap"

definition new_case_store :: case_store where
  "new_case_store = \<lparr>cs_seq = 0, cs_byID = []\<rparr>"

text \<open>The verb \<open>%04d\<close>: zeros fill up to four places, the sign included.\<close>

definition pad4 :: "int \<Rightarrow> string" where
  "pad4 i = (let s = nat_str (nat \<bar>i\<bar>) in
     if i < 0 then CHR ''-'' # replicate (3 - length s) CHR ''0'' @ s else replicate (4 - length s) CHR ''0'' @ s)"

text \<open>\<open>dedupeAppend\<close>: the new, non-empty identifiers in order, each once.\<close>

fun dedupe_loop :: "string list \<Rightarrow> string list \<Rightarrow> string list" where
  "dedupe_loop existing [] = existing"
| "dedupe_loop existing (i # ids) =
     (if i \<noteq> [] \<and> i \<notin> set existing then dedupe_loop (existing @ [i]) ids else dedupe_loop existing ids)"

definition dedupeAppend :: "string list \<Rightarrow> string list \<Rightarrow> string list" where
  "dedupeAppend existing ids = dedupe_loop existing ids"

definition case_Create :: "go_time \<Rightarrow> createInput \<Rightarrow> case_store \<Rightarrow> (case_error + inv_case) \<times> case_store" where
  "case_Create now input m =
     (case validateCreate input of
        Some err \<Rightarrow> (Inl err, m)
      | None \<Rightarrow>
          let seq = add_int64 (cs_seq m) 1;
              c = \<lparr>c_ID = ''CASE-'' @ pad4 seq, c_Title = in_Title input, c_Status = ''open'', c_Assignee = [],
                   c_Severity = in_Severity input, c_Host = in_Host input, c_Tags = in_Tags input,
                   c_Evidence = dedupeAppend [] (in_Evidence input), c_Comments = [], c_Created = now, c_Updated = now\<rparr>
          in (Inr c, m\<lparr>cs_seq := seq, cs_byID := AList.update (c_ID c) c (cs_byID m)\<rparr>))"

definition case_Get :: "string \<Rightarrow> case_store \<Rightarrow> inv_case option" where
  "case_Get i m = map_of (cs_byID m) i"

text \<open>
  \<open>List\<close> ranges over the map in any order (the argument \<open>arrange\<close>) and sorts by creation, newest first. The sort
  need not be stable, which an arbitrary order of ranging covers.
\<close>

definition case_List :: "(inv_case list \<Rightarrow> inv_case list) \<Rightarrow> case_filter \<Rightarrow> case_store \<Rightarrow> inv_case list" where
  "case_List arrange f m =
     sort_key (\<lambda>c. - c_Created c)
       (filter (\<lambda>c. \<not> (cf_Status f \<noteq> [] \<and> c_Status c \<noteq> cf_Status f) \<and> \<not> (cf_Assignee f \<noteq> [] \<and> c_Assignee c \<noteq> cf_Assignee f))
         (arrange (map snd (cs_byID m))))"

definition mutate ::
  "go_time \<Rightarrow> string \<Rightarrow> (inv_case \<Rightarrow> case_error + inv_case) \<Rightarrow> case_store \<Rightarrow> (case_error + inv_case) \<times> case_store" where
  "mutate now i fn m =
     (case map_of (cs_byID m) i of
        None \<Rightarrow> (Inl CaseNotFound, m)
      | Some c \<Rightarrow>
          (case fn c of
             Inl err \<Rightarrow> (Inl err, m)
           | Inr c \<Rightarrow> let c = c\<lparr>c_Updated := now\<rparr> in (Inr c, m\<lparr>cs_byID := AList.update i c (cs_byID m)\<rparr>)))"

definition case_Assign :: "go_time \<Rightarrow> string \<Rightarrow> string \<Rightarrow> case_store \<Rightarrow> (case_error + inv_case) \<times> case_store" where
  "case_Assign now i assignee = mutate now i (\<lambda>c. Inr (c\<lparr>c_Assignee := assignee\<rparr>))"

definition SetStatus :: "go_time \<Rightarrow> string \<Rightarrow> string \<Rightarrow> case_store \<Rightarrow> (case_error + inv_case) \<times> case_store" where
  "SetStatus now i status =
     mutate now i (\<lambda>c. if \<not> validStatus status then Inl (InvalidStatus status) else Inr (c\<lparr>c_Status := status\<rparr>))"

definition AddComment :: "go_time \<Rightarrow> go_time \<Rightarrow> string \<Rightarrow> case_comment \<Rightarrow> case_store \<Rightarrow> (case_error + inv_case) \<times> case_store" where
  "AddComment now now' i comment =
     mutate now' i (\<lambda>c. let comment = (if is_zero (cc_Time comment) then comment\<lparr>cc_Time := now\<rparr> else comment)
                        in Inr (c\<lparr>c_Comments := c_Comments c @ [comment]\<rparr>))"

definition AddEvidence :: "go_time \<Rightarrow> string \<Rightarrow> string list \<Rightarrow> case_store \<Rightarrow> (case_error + inv_case) \<times> case_store" where
  "AddEvidence now i alertIDs = mutate now i (\<lambda>c. Inr (c\<lparr>c_Evidence := dedupeAppend (c_Evidence c) alertIDs\<rparr>))"

section \<open>Runs\<close>

datatype case_op =
    CCreate go_time createInput
  | CAssign go_time string string
  | CStatus go_time string string
  | CComment go_time go_time string case_comment
  | CEvidence go_time string "string list"

fun case_step :: "case_op \<Rightarrow> case_store \<Rightarrow> case_store" where
  "case_step (CCreate now input) m = snd (case_Create now input m)"
| "case_step (CAssign now i a) m = snd (case_Assign now i a m)"
| "case_step (CStatus now i s) m = snd (SetStatus now i s m)"
| "case_step (CComment now now' i c) m = snd (AddComment now now' i c m)"
| "case_step (CEvidence now i ids) m = snd (AddEvidence now i ids m)"

definition case_ok :: "string \<Rightarrow> inv_case \<Rightarrow> bool" where
  "case_ok i c \<longleftrightarrow> c_ID c = i \<and> validStatus (c_Status c) \<and> trim_space (c_Title c) \<noteq> [] \<and>
     (c_Severity c = [] \<or> severityRank (c_Severity c) \<noteq> 0) \<and> distinct (c_Evidence c) \<and> [] \<notin> set (c_Evidence c)"

definition case_wf :: "case_store \<Rightarrow> bool" where
  "case_wf m \<longleftrightarrow> 0 \<le> cs_seq m \<and> (\<forall>i c. map_of (cs_byID m) i = Some c \<longrightarrow>
     case_ok i c \<and> (\<exists>k. 1 \<le> k \<and> k \<le> cs_seq m \<and> i = ''CASE-'' @ pad4 k))"

text \<open>What later operations keep of a case.\<close>

definition case_grows :: "inv_case \<Rightarrow> inv_case \<Rightarrow> bool" where
  "case_grows c c' \<longleftrightarrow> c_ID c' = c_ID c \<and> c_Title c' = c_Title c \<and> c_Severity c' = c_Severity c \<and> c_Host c' = c_Host c \<and>
     c_Tags c' = c_Tags c \<and> c_Created c' = c_Created c \<and>
     prefix (c_Evidence c) (c_Evidence c') \<and> prefix (c_Comments c) (c_Comments c')"

section \<open>Identifiers do not repeat\<close>

lemma nat_of_digits_zeros: "nat_of_digits (replicate n CHR ''0'' @ s) = nat_of_digits s"
  by (induction n) (simp_all add: nat_of_digits_def digit_val_def)

lemma pad4_inj: "0 \<le> i \<Longrightarrow> 0 \<le> j \<Longrightarrow> pad4 i = pad4 j \<longleftrightarrow> i = j"
proof -
  assume ij: "0 \<le> i" "0 \<le> j"
  have num: "nat_of_digits (pad4 k) = nat k" if "0 \<le> k" for k
    using that by (simp add: pad4_def Let_def nat_of_digits_zeros)
  show "pad4 i = pad4 j \<longleftrightarrow> i = j" using num [OF ij(1)] num [OF ij(2)] ij by (metis eq_nat_nat_iff)
qed

lemma dedupe_loop_prefix: "prefix existing (dedupe_loop existing ids)"
proof (induction ids arbitrary: existing)
  case (Cons i ids)
  then show ?case using append_prefixD [of existing "[i]"] by simp
qed simp

lemma dedupe_loop_distinct:
  "distinct existing \<Longrightarrow> [] \<notin> set existing \<Longrightarrow> distinct (dedupe_loop existing ids) \<and> [] \<notin> set (dedupe_loop existing ids)"
proof (induction ids arbitrary: existing)
  case (Cons i ids)
  then show ?case
  proof (cases "i \<noteq> [] \<and> i \<notin> set existing")
    case True
    then have "[] \<notin> set (existing @ [i])" using Cons.prems(2) by (cases i) simp_all
    then show ?thesis using Cons.IH [of "existing @ [i]"] Cons.prems True by simp
  next
    case False
    then have "dedupe_loop existing (i # ids) = dedupe_loop existing ids" by (simp only: dedupe_loop.simps if_False)
    then show ?thesis using Cons.IH Cons.prems by simp
  qed
qed simp

lemma set_dedupe_loop: "set (dedupe_loop existing ids) = set existing \<union> (set ids - {[]})"
  by (induction ids arbitrary: existing) auto

section \<open>Cases stay valid and keep their history\<close>

lemma case_grows_refl [simp]: "case_grows c c"
  by (simp add: case_grows_def)

lemma case_grows_trans: "case_grows c c' \<Longrightarrow> case_grows c' c'' \<Longrightarrow> case_grows c c''"
  unfolding case_grows_def by (auto intro: prefix_order.trans)

text \<open>A change that keeps a case valid and its history is one the store can make to it.\<close>

lemma mutate_keeps:
  assumes "case_wf m" and "\<And>c c'. fn c = Inr c' \<Longrightarrow> case_ok i c \<Longrightarrow> case_ok i c' \<and> case_grows c c'"
  shows "case_wf (snd (mutate now i fn m)) \<and> cs_seq (snd (mutate now i fn m)) \<le> cs_seq m + 1 \<and>
    (\<forall>j c. case_Get j m = Some c \<longrightarrow> (\<exists>c'. case_Get j (snd (mutate now i fn m)) = Some c' \<and> case_grows c c'))"
proof (cases "\<exists>c c'. map_of (cs_byID m) i = Some c \<and> fn c = Inr c'")
  case True
  then obtain c c' where c: "map_of (cs_byID m) i = Some c" "fn c = Inr c'" by blast
  have m': "snd (mutate now i fn m) = m\<lparr>cs_byID := AList.update i (c'\<lparr>c_Updated := now\<rparr>) (cs_byID m)\<rparr>"
    by (simp add: mutate_def c Let_def)
  have "case_ok i c" using assms(1) c(1) by (auto simp: case_wf_def)
  then have ok: "case_ok i (c'\<lparr>c_Updated := now\<rparr>)" "case_grows c (c'\<lparr>c_Updated := now\<rparr>)"
    using assms(2) [OF c(2)] by (simp_all add: case_ok_def case_grows_def)
  then show ?thesis
    using assms(1) c(1) unfolding m' case_wf_def case_Get_def by (auto simp: update_conv')
next
  case False
  then have "snd (mutate now i fn m) = m"
    by (cases "map_of (cs_byID m) i"; cases "fn (the (map_of (cs_byID m) i))") (auto simp: mutate_def)
  then show ?thesis using assms(1) by auto
qed

lemma case_Create_keeps:
  assumes "case_wf m" and "cs_seq m < int64_max"
  shows "case_wf (snd (case_Create now input m)) \<and> cs_seq (snd (case_Create now input m)) \<le> cs_seq m + 1 \<and>
    (\<forall>j c. case_Get j m = Some c \<longrightarrow> (\<exists>c'. case_Get j (snd (case_Create now input m)) = Some c' \<and> case_grows c c'))"
proof (cases "validateCreate input")
  case None
  have "0 \<le> cs_seq m" using assms(1) by (simp add: case_wf_def)
  then have seq: "add_int64 (cs_seq m) 1 = cs_seq m + 1"
    using assms(2) by (simp add: add_int64_def to_int64_def int64_max_def)
  define i where "i = ''CASE-'' @ pad4 (cs_seq m + 1)"
  define c where "c = \<lparr>c_ID = i, c_Title = in_Title input, c_Status = ''open'', c_Assignee = [],
      c_Severity = in_Severity input, c_Host = in_Host input, c_Tags = in_Tags input,
      c_Evidence = dedupeAppend [] (in_Evidence input), c_Comments = [], c_Created = now, c_Updated = now\<rparr>"
  have m': "snd (case_Create now input m) = m\<lparr>cs_seq := cs_seq m + 1, cs_byID := AList.update i c (cs_byID m)\<rparr>"
    by (simp add: case_Create_def None seq Let_def c_def i_def)
  have ok: "case_ok i c"
    using None dedupe_loop_distinct [of "[]" "in_Evidence input"]
    by (auto simp: case_ok_def c_def validStatus_def dedupeAppend_def validateCreate_def split: if_splits)
  have new: "map_of (cs_byID m) i = None"
  proof (rule ccontr)
    assume "map_of (cs_byID m) i \<noteq> None"
    then obtain k where "1 \<le> k" "k \<le> cs_seq m" "i = ''CASE-'' @ pad4 k" using assms(1) unfolding case_wf_def by blast
    then show False using pad4_inj [of "cs_seq m + 1" k] \<open>0 \<le> cs_seq m\<close> by (simp add: i_def)
  qed
  have "case_ok j c' \<and> (\<exists>k. 1 \<le> k \<and> k \<le> cs_seq m + 1 \<and> j = ''CASE-'' @ pad4 k)"
    if "map_of (AList.update i c (cs_byID m)) j = Some c'" for j c'
  proof (cases "j = i")
    case True
    then have "c' = c" using that by (simp add: update_conv')
    then show ?thesis using ok True \<open>0 \<le> cs_seq m\<close> by (intro conjI exI [of _ "cs_seq m + 1"]) (simp_all add: i_def)
  next
    case False
    then have "map_of (cs_byID m) j = Some c'" using that by (simp add: update_conv')
    then obtain k where "case_ok j c'" "1 \<le> k" "k \<le> cs_seq m" "j = ''CASE-'' @ pad4 k" using assms(1) unfolding case_wf_def by blast
    then show ?thesis by (intro conjI exI [of _ k]) simp_all
  qed
  then have "case_wf (snd (case_Create now input m))"
    unfolding m' case_wf_def using \<open>0 \<le> cs_seq m\<close> by simp
  moreover have "case_Get j (snd (case_Create now input m)) = Some c'" if "case_Get j m = Some c'" for j c'
    using that new unfolding m' case_Get_def by (cases "j = i") (simp_all add: update_conv')
  ultimately show ?thesis unfolding m' by auto
qed (use assms in \<open>simp add: case_Create_def\<close>)

lemma case_step_keeps:
  assumes "case_wf m" and "cs_seq m < int64_max"
  shows "case_wf (case_step x m) \<and> cs_seq (case_step x m) \<le> cs_seq m + 1 \<and>
    (\<forall>j c. case_Get j m = Some c \<longrightarrow> (\<exists>c'. case_Get j (case_step x m) = Some c' \<and> case_grows c c'))"
proof (cases x)
  case (CCreate now input)
  then show ?thesis using case_Create_keeps [OF assms] by simp
next
  case (CAssign now i a)
  show ?thesis
    unfolding CAssign case_step.simps case_Assign_def
    by (rule mutate_keeps [OF assms(1)]) (auto simp: case_ok_def case_grows_def)
next
  case (CStatus now i s)
  show ?thesis
    unfolding CStatus case_step.simps SetStatus_def
    by (rule mutate_keeps [OF assms(1)]) (auto simp: case_ok_def case_grows_def split: if_splits)
next
  case (CComment now now' i comment)
  show ?thesis
    unfolding CComment case_step.simps AddComment_def Let_def
    by (rule mutate_keeps [OF assms(1)]) (auto simp: case_ok_def case_grows_def)
next
  case (CEvidence now i ids)
  show ?thesis
    unfolding CEvidence case_step.simps AddEvidence_def
    by (rule mutate_keeps [OF assms(1)])
      (auto simp: case_ok_def case_grows_def dedupeAppend_def dedupe_loop_prefix dedupe_loop_distinct)
qed

lemma case_run_keeps:
  "case_wf m \<Longrightarrow> cs_seq m + int (length ops) \<le> int64_max \<Longrightarrow>
   case_wf (fold case_step ops m) \<and>
   (\<forall>j c. case_Get j m = Some c \<longrightarrow> (\<exists>c'. case_Get j (fold case_step ops m) = Some c' \<and> case_grows c c'))"
proof (induction ops arbitrary: m)
  case (Cons x ops)
  have step: "case_wf (case_step x m)" "cs_seq (case_step x m) \<le> cs_seq m + 1"
    "\<forall>j c. case_Get j m = Some c \<longrightarrow> (\<exists>c'. case_Get j (case_step x m) = Some c' \<and> case_grows c c')"
    using case_step_keeps [OF Cons.prems(1), of x] Cons.prems(2) by auto
  then show ?case using Cons.IH [OF step(1)] Cons.prems(2) case_grows_trans by fastforce
qed simp

lemma case_wf_new: "case_wf new_case_store"
  by (simp add: case_wf_def new_case_store_def)

text \<open>
  C23. As long as its counter does not run out, a case store keeps every case. Whatever operations follow, valid or
  not, a case stays under its identifier with its title, severity, host, tags and time of creation; its
  evidence and its comments only grow at the end. Every case of the store is valid: a known status, a title
  that is not blank, a known severity or none, and evidence without duplicates or empty identifiers.
\<close>

theorem case_history_kept:
  assumes "int (length (ops @ ops')) \<le> int64_max" and "case_Get i (fold case_step ops new_case_store) = Some c"
  shows "\<exists>c'. case_Get i (fold case_step (ops @ ops') new_case_store) = Some c' \<and> case_grows c c' \<and> case_ok i c'"
proof -
  let ?m = "fold case_step ops new_case_store"
  have seq: "cs_seq (fold case_step xs m) \<le> cs_seq m + int (length xs)" if "case_wf m" "cs_seq m + int (length xs) \<le> int64_max" for xs m
    using that
  proof (induction xs arbitrary: m)
    case (Cons x xs)
    have "case_wf (case_step x m)" "cs_seq (case_step x m) \<le> cs_seq m + 1"
      using case_step_keeps [OF Cons.prems(1), of x] Cons.prems(2) by auto
    then show ?case using Cons.IH [of "case_step x m"] Cons.prems(2) by simp
  qed simp
  have len: "cs_seq new_case_store + int (length ops) \<le> int64_max" using assms(1) by (simp add: new_case_store_def)
  have "case_wf ?m" using case_run_keeps [OF case_wf_new len] by blast
  moreover have "cs_seq ?m + int (length ops') \<le> int64_max"
    using seq [OF case_wf_new len] assms(1) by (simp add: new_case_store_def)
  ultimately have "case_wf (fold case_step ops' ?m)"
    "\<exists>c'. case_Get i (fold case_step ops' ?m) = Some c' \<and> case_grows c c'"
    using case_run_keeps [of ?m ops'] assms(2) by blast+
  then show ?thesis by (auto simp: case_wf_def case_Get_def)
qed

theorem case_history_kept_witness:
  "let ops = [CCreate 5 \<lparr>in_Title = ''ssh'', in_Severity = ''High'', in_Host = ''web'', in_Tags = [], in_Evidence = [''a'', '''', ''a'']\<rparr>];
       ops' = [CStatus 6 ''CASE-0001'' ''done'', CEvidence 7 ''CASE-0001'' [''a'', ''b'']]
   in c_Evidence (the (case_Get ''CASE-0001'' (fold case_step ops new_case_store))) = [''a''] \<and>
      (\<exists>c'. case_Get ''CASE-0001'' (fold case_step (ops @ ops') new_case_store) = Some c' \<and> case_ok ''CASE-0001'' c')"
proof -
  let ?op = "CCreate 5 \<lparr>in_Title = ''ssh'', in_Severity = ''High'', in_Host = ''web'', in_Tags = [], in_Evidence = [''a'', '''', ''a'']\<rparr>"
  have "map_option c_Evidence (case_Get ''CASE-0001'' (fold case_step [?op] new_case_store)) = Some [''a'']"
    by code_simp
  then obtain c where "case_Get ''CASE-0001'' (fold case_step [?op] new_case_store) = Some c" "c_Evidence c = [''a'']"
    by (cases "case_Get ''CASE-0001'' (fold case_step [?op] new_case_store)") (simp_all del: fold.simps)
  then show ?thesis
    using case_history_kept [of "[?op]" "[CStatus 6 ''CASE-0001'' ''done'', CEvidence 7 ''CASE-0001'' [''a'', ''b'']]" "''CASE-0001''" c]
    unfolding Let_def by (simp add: int64_max_def del: fold.simps fold_append append.simps) blast
qed

end
