(* ===== verification/Soar.thy ===== *)
theory Soar
  imports Case_Store Fleet_Store
begin

text \<open>
  Response playbooks: \<^verbatim>\<open>server/soar/soar.go\<close> (triggers, playbooks, validation), \<^verbatim>\<open>server/soar/store.go\<close> (the playbook
  store) and \<^verbatim>\<open>server/soar/engine.go\<close> (the engine). The engine's collaborators are values of a record of
  functions over the state \<open>'w\<close> of the rest of the platform; a nil collaborator is \<open>None\<close>. What the engine
  relies on them for is the locale \<open>playbook_platform\<close>. An observation runs in its own goroutine; here it runs
  without other operations in between.
\<close>

section \<open>Playbooks (soar.go)\<close>

definition validMode :: "string \<Rightarrow> bool" where
  "validMode mode \<longleftrightarrow> mode = ''off'' \<or> mode = ''dry-run'' \<or> mode = ''enforce''"

definition validStepType :: "string \<Rightarrow> bool" where
  "validStepType t \<longleftrightarrow> t \<in> set [''notify'', ''open_case'', ''run_hunt'', ''kill_process'', ''quarantine'']"

definition readOnly :: "string \<Rightarrow> bool" where
  "readOnly t \<longleftrightarrow> t = ''run_hunt''"

record trigger =
  tr_RuleIDs :: "string list"
  tr_Severities :: "string list"
  tr_Techniques :: "string list"
  tr_MinRisk :: int
  tr_IncidentsOnly :: bool

record soar_step =
  st_Type :: string
  st_Query :: string

record playbook =
  pb_ID :: string
  pb_Name :: string
  pb_Mode :: string
  pb_Trigger :: trigger
  pb_Steps :: "soar_step list"
  pb_Created :: go_time
  pb_Updated :: go_time

record alertInfo =
  ai_AlertID :: string
  ai_AgentID :: string
  ai_Hostname :: string
  ai_RuleID :: string
  ai_RuleName :: string
  ai_Severity :: string
  ai_TechniqueID :: string
  ai_PID :: uint32
  ai_DestinationIP :: string
  ai_RiskScore :: int
  ai_IsIncident :: bool

record stepOutcome =
  so_Type :: string
  so_Detail :: string
  so_Executed :: bool
  so_Error :: string

record runRecord =
  rr_Time :: go_time
  rr_PlaybookID :: string
  rr_Playbook :: string
  rr_AlertID :: string
  rr_Mode :: string
  rr_Outcomes :: "stepOutcome list"

definition contains_fold :: "string list \<Rightarrow> string \<Rightarrow> bool" where
  "contains_fold items want \<longleftrightarrow> list_ex (\<lambda>item. equal_fold item want) items"

definition trigger_matches :: "trigger \<Rightarrow> alertInfo \<Rightarrow> bool" where
  "trigger_matches t al =
     (if tr_IncidentsOnly t \<and> \<not> ai_IsIncident al then False
      else if ai_RiskScore al < tr_MinRisk t then False
      else if tr_RuleIDs t \<noteq> [] \<and> ai_RuleID al \<notin> set (tr_RuleIDs t) then False
      else if tr_Severities t \<noteq> [] \<and> \<not> contains_fold (tr_Severities t) (ai_Severity al) then False
      else if tr_Techniques t \<noteq> [] \<and> ai_TechniqueID al \<notin> set (tr_Techniques t) then False
      else True)"

datatype playbook_error =
    PlaybookNeedsName | InvalidMode string | NoSteps | UnknownStep nat string | HuntNeedsQuery nat | PlaybookNotFound string

fun validate_steps :: "nat \<Rightarrow> soar_step list \<Rightarrow> playbook_error option" where
  "validate_steps i [] = None"
| "validate_steps i (s # ss) =
     (if \<not> validStepType (st_Type s) then Some (UnknownStep i (st_Type s))
      else if st_Type s = ''run_hunt'' \<and> trim_space (st_Query s) = [] then Some (HuntNeedsQuery i)
      else validate_steps (i + 1) ss)"

definition playbook_validate :: "playbook \<Rightarrow> playbook_error option" where
  "playbook_validate p =
     (if trim_space (pb_Name p) = [] then Some PlaybookNeedsName
      else if \<not> validMode (pb_Mode p) then Some (InvalidMode (pb_Mode p))
      else if pb_Steps p = [] then Some NoSteps
      else validate_steps 0 (pb_Steps p))"

section \<open>The playbook store (store.go)\<close>

record playbookStore =
  ps_seq :: int
  ps_byID :: "(string, playbook) gomap"

definition NewPlaybookStore :: playbookStore where
  "NewPlaybookStore = \<lparr>ps_seq = 0, ps_byID = []\<rparr>"

definition safe_mode :: "playbook \<Rightarrow> playbook" where
  "safe_mode p = (if pb_Mode p = [] then p\<lparr>pb_Mode := ''dry-run''\<rparr> else p)"

definition playbook_Create :: "go_time \<Rightarrow> playbook \<Rightarrow> playbookStore \<Rightarrow> (playbook_error + playbook) \<times> playbookStore" where
  "playbook_Create now p s =
     (let p = safe_mode p in
      case playbook_validate p of
        Some err \<Rightarrow> (Inl err, s)
      | None \<Rightarrow>
          let seq = add_int64 (ps_seq s) 1;
              p = p\<lparr>pb_ID := ''PB-'' @ pad4 seq, pb_Created := now, pb_Updated := now\<rparr>
          in (Inr p, s\<lparr>ps_seq := seq, ps_byID := AList.update (pb_ID p) p (ps_byID s)\<rparr>))"

definition playbook_Get :: "string \<Rightarrow> playbookStore \<Rightarrow> playbook option" where
  "playbook_Get i s = map_of (ps_byID s) i"

text \<open>The playbooks of the map have different identifiers, so the sorted list does not depend on the order of ranging.\<close>

definition playbook_List :: "playbookStore \<Rightarrow> playbook list" where
  "playbook_List s = sort_key pb_ID (map snd (ps_byID s))"

definition playbook_Update :: "go_time \<Rightarrow> string \<Rightarrow> playbook \<Rightarrow> playbookStore \<Rightarrow> (playbook_error + playbook) \<times> playbookStore" where
  "playbook_Update now i update s =
     (let update = safe_mode update in
      case playbook_validate update of
        Some err \<Rightarrow> (Inl err, s)
      | None \<Rightarrow>
          (case map_of (ps_byID s) i of
             None \<Rightarrow> (Inl (PlaybookNotFound i), s)
           | Some p \<Rightarrow>
               let p = p\<lparr>pb_Name := pb_Name update, pb_Mode := pb_Mode update, pb_Trigger := pb_Trigger update,
                         pb_Steps := pb_Steps update, pb_Updated := now\<rparr>
               in (Inr p, s\<lparr>ps_byID := AList.update i p (ps_byID s)\<rparr>)))"

definition playbook_Delete :: "string \<Rightarrow> playbookStore \<Rightarrow> bool \<times> playbookStore" where
  "playbook_Delete i s =
     (case map_of (ps_byID s) i of
        None \<Rightarrow> (False, s)
      | Some _ \<Rightarrow> (True, s\<lparr>ps_byID := AList.delete i (ps_byID s)\<rparr>))"

section \<open>The engine (engine.go)\<close>

definition maxRuns :: nat where "maxRuns = 200"

record notification =
  no_Title :: string
  no_Severity :: string
  no_Host :: string
  no_RuleID :: string
  no_Technique :: string
  no_Summary :: string

record 'w soar_deps =
  dp_Notifier :: "(string \<times> (notification \<Rightarrow> 'w \<Rightarrow> string option \<times> 'w)) option"
  dp_Cases :: "(string \<Rightarrow> string \<Rightarrow> string \<Rightarrow> string list \<Rightarrow> 'w \<Rightarrow> (string + string) \<times> 'w) option"
  dp_Commander :: "(string \<Rightarrow> string \<Rightarrow> string \<Rightarrow> 'w \<Rightarrow> bool \<times> 'w) option"
  dp_Hunter :: "(string \<Rightarrow> 'w \<Rightarrow> string + int) option"

record soar_engine =
  se_store :: playbookStore
  se_enabled :: bool
  se_runs :: "runRecord list"

definition new_soar_engine :: soar_engine where
  "new_soar_engine = \<lparr>se_store = NewPlaybookStore, se_enabled = False, se_runs = []\<rparr>"

definition SetEnabled :: "bool \<Rightarrow> soar_engine \<Rightarrow> soar_engine" where
  "SetEnabled on e = e\<lparr>se_enabled := on\<rparr>"

definition effectiveMode :: "string \<Rightarrow> bool \<Rightarrow> string" where
  "effectiveMode mode forceDryRun = (if forceDryRun then ''dry-run'' else mode)"

definition step_describe :: "soar_step \<Rightarrow> alertInfo \<Rightarrow> string" where
  "step_describe s al =
     (if st_Type s = ''notify'' then ''notify on '' @ ai_RuleID al
      else if st_Type s = ''open_case'' then ''open a case for '' @ ai_Hostname al
      else if st_Type s = ''kill_process'' then ''ask '' @ ai_Hostname al @ '' to kill pid '' @ word_str (ai_PID al)
      else if st_Type s = ''quarantine'' then ''quarantine '' @ ai_DestinationIP al @ '' on '' @ ai_Hostname al
      else st_Type s)"

definition outcome_of :: "string \<Rightarrow> stepOutcome" where
  "outcome_of t = \<lparr>so_Type = t, so_Detail = [], so_Executed = True, so_Error = []\<rparr>"

definition doNotify :: "'w soar_deps \<Rightarrow> alertInfo \<Rightarrow> 'w \<Rightarrow> stepOutcome \<times> 'w" where
  "doNotify D al w =
     (let outcome = outcome_of ''notify'' in
      case dp_Notifier D of
        None \<Rightarrow> (outcome\<lparr>so_Executed := False, so_Detail := ''no notifier configured''\<rparr>, w)
      | Some (name, notify) \<Rightarrow>
          (case notify \<lparr>no_Title = ai_RuleName al, no_Severity = ai_Severity al, no_Host = ai_Hostname al,
                 no_RuleID = ai_RuleID al, no_Technique = ai_TechniqueID al,
                 no_Summary = ''risk '' @ int_str (ai_RiskScore al) @ '' on '' @ ai_Hostname al\<rparr> w of
             (err, w) \<Rightarrow>
               let outcome = outcome\<lparr>so_Detail := ''notified '' @ name\<rparr>
               in (case err of None \<Rightarrow> outcome | Some msg \<Rightarrow> outcome\<lparr>so_Executed := False, so_Error := msg\<rparr>, w)))"

definition doOpenCase :: "'w soar_deps \<Rightarrow> alertInfo \<Rightarrow> 'w \<Rightarrow> stepOutcome \<times> 'w" where
  "doOpenCase D al w =
     (let outcome = outcome_of ''open_case'' in
      case dp_Cases D of
        None \<Rightarrow> (outcome\<lparr>so_Executed := False, so_Detail := ''no case store configured''\<rparr>, w)
      | Some opener \<Rightarrow>
          let title = (if ai_RuleName al = [] then ''Incident on '' @ ai_Hostname al else ai_RuleName al);
              evidence = (if ai_AlertID al \<noteq> [] then [ai_AlertID al] else [])
          in case opener title (ai_Severity al) (ai_Hostname al) evidence w of
               (Inl msg, w) \<Rightarrow> (outcome\<lparr>so_Executed := False, so_Error := msg\<rparr>, w)
             | (Inr i, w) \<Rightarrow> (outcome\<lparr>so_Detail := ''opened case '' @ i\<rparr>, w))"

definition doRunHunt :: "'w soar_deps \<Rightarrow> string \<Rightarrow> 'w \<Rightarrow> stepOutcome" where
  "doRunHunt D query w =
     (let outcome = outcome_of ''run_hunt'' in
      case dp_Hunter D of
        None \<Rightarrow> outcome\<lparr>so_Executed := False, so_Detail := ''no hunt backend configured''\<rparr>
      | Some hunter \<Rightarrow>
          (case hunter query w of
             Inl msg \<Rightarrow> outcome\<lparr>so_Executed := False, so_Error := msg\<rparr>
           | Inr hits \<Rightarrow> outcome\<lparr>so_Detail := ''hunt '' @ quote query @ '' matched '' @ int_str hits @ '' event(s)''\<rparr>))"

definition stepForKind :: "string \<Rightarrow> string" where
  "stepForKind kind = (if kind = ''QUARANTINE'' then ''quarantine'' else ''kill_process'')"

definition doCommand :: "'w soar_deps \<Rightarrow> string \<Rightarrow> string \<Rightarrow> string \<Rightarrow> string \<Rightarrow> 'w \<Rightarrow> stepOutcome \<times> 'w" where
  "doCommand D agentID kind argument detail w =
     (let outcome = (outcome_of (stepForKind kind))\<lparr>so_Detail := detail\<rparr> in
      case dp_Commander D of
        None \<Rightarrow> (outcome\<lparr>so_Executed := False, so_Detail := ''no commander configured''\<rparr>, w)
      | Some enqueue \<Rightarrow>
          if argument = [] then
            (outcome\<lparr>so_Executed := False, so_Error := ''missing target (no pid or destination on the alert)''\<rparr>, w)
          else case enqueue agentID kind argument w of
                 (False, w) \<Rightarrow> (outcome\<lparr>so_Executed := False, so_Error := ''unknown agent '' @ agentID\<rparr>, w)
               | (True, w) \<Rightarrow> (outcome, w))"

definition executeStep :: "'w soar_deps \<Rightarrow> soar_step \<Rightarrow> alertInfo \<Rightarrow> bool \<Rightarrow> 'w \<Rightarrow> stepOutcome \<times> 'w" where
  "executeStep D s al dryRun w =
     (if dryRun \<and> \<not> readOnly (st_Type s) then
        (\<lparr>so_Type = st_Type s, so_Detail = ''would '' @ step_describe s al, so_Executed = False, so_Error = []\<rparr>, w)
      else if st_Type s = ''notify'' then doNotify D al w
      else if st_Type s = ''open_case'' then doOpenCase D al w
      else if st_Type s = ''run_hunt'' then (doRunHunt D (st_Query s) w, w)
      else if st_Type s = ''kill_process'' then
        doCommand D (ai_AgentID al) ''KILL_PROCESS'' (word_str (ai_PID al)) (''kill pid '' @ word_str (ai_PID al)) w
      else if st_Type s = ''quarantine'' then
        doCommand D (ai_AgentID al) ''QUARANTINE'' (ai_DestinationIP al) (''quarantine '' @ ai_DestinationIP al) w
      else (\<lparr>so_Type = st_Type s, so_Detail = ''unknown step'', so_Executed = False, so_Error = ''unknown step type''\<rparr>, w))"

fun execute_steps :: "'w soar_deps \<Rightarrow> soar_step list \<Rightarrow> alertInfo \<Rightarrow> bool \<Rightarrow> 'w \<Rightarrow> stepOutcome list \<times> 'w" where
  "execute_steps D [] al dryRun w = ([], w)"
| "execute_steps D (s # ss) al dryRun w =
     (case executeStep D s al dryRun w of (outcome, w) \<Rightarrow>
        case execute_steps D ss al dryRun w of (outcomes, w) \<Rightarrow> (outcome # outcomes, w))"

definition runPlaybook :: "'w soar_deps \<Rightarrow> go_time \<Rightarrow> playbook \<Rightarrow> alertInfo \<Rightarrow> bool \<Rightarrow> 'w \<Rightarrow> runRecord \<times> 'w" where
  "runPlaybook D now p al forceDryRun w =
     (let dryRun = forceDryRun \<or> pb_Mode p \<noteq> ''enforce'' in
      case execute_steps D (pb_Steps p) al dryRun w of (outcomes, w) \<Rightarrow>
        (\<lparr>rr_Time = now, rr_PlaybookID = pb_ID p, rr_Playbook = pb_Name p, rr_AlertID = ai_AlertID al,
          rr_Mode = effectiveMode (pb_Mode p) forceDryRun, rr_Outcomes = outcomes\<rparr>, w))"

definition record_run :: "runRecord \<Rightarrow> soar_engine \<Rightarrow> soar_engine" where
  "record_run r e = e\<lparr>se_runs := keep_last maxRuns (se_runs e @ [r])\<rparr>"

text \<open>The loop of \<open>Observe\<close> over the listed playbooks; \<open>clock\<close> gives the time at which each of them starts.\<close>

fun observe_loop :: "'w soar_deps \<Rightarrow> (string \<Rightarrow> go_time) \<Rightarrow> alertInfo \<Rightarrow> playbook list \<Rightarrow> soar_engine \<Rightarrow> 'w \<Rightarrow> soar_engine \<times> 'w" where
  "observe_loop D clock al [] e w = (e, w)"
| "observe_loop D clock al (p # ps) e w =
     (if pb_Mode p = ''off'' \<or> \<not> trigger_matches (pb_Trigger p) al then observe_loop D clock al ps e w
      else case runPlaybook D (clock (pb_ID p)) p al False w of (r, w) \<Rightarrow> observe_loop D clock al ps (record_run r e) w)"

definition soar_Observe :: "'w soar_deps \<Rightarrow> (string \<Rightarrow> go_time) \<Rightarrow> alertInfo \<Rightarrow> soar_engine \<Rightarrow> 'w \<Rightarrow> soar_engine \<times> 'w" where
  "soar_Observe D clock al e w =
     (if \<not> se_enabled e then (e, w) else observe_loop D clock al (playbook_List (se_store e)) e w)"

definition soar_Test ::
  "'w soar_deps \<Rightarrow> go_time \<Rightarrow> string \<Rightarrow> alertInfo \<Rightarrow> soar_engine \<Rightarrow> 'w \<Rightarrow> (playbook_error + runRecord) \<times> soar_engine \<times> 'w" where
  "soar_Test D now i al e w =
     (case playbook_Get i (se_store e) of
        None \<Rightarrow> (Inl (PlaybookNotFound i), e, w)
      | Some p \<Rightarrow> (case runPlaybook D now p al True w of (r, w) \<Rightarrow> (Inr r, record_run r e, w)))"

definition soar_Runs :: "soar_engine \<Rightarrow> runRecord list" where
  "soar_Runs e = rev (se_runs e)"

section \<open>Nothing acts in a rehearsal\<close>

lemma dry_step_keeps_world: "snd (executeStep D s al True w) = w"
  by (simp add: executeStep_def readOnly_def)

lemma dry_steps_keep_world: "snd (execute_steps D ss al True w) = w"
  by (induction ss arbitrary: w) (simp_all add: case_prod_beta dry_step_keeps_world)

lemma dry_playbook_keeps_world: "pb_Mode p \<noteq> ''enforce'' \<or> force \<Longrightarrow> snd (runPlaybook D now p al force w) = w"
  using dry_steps_keep_world [of D "pb_Steps p" al w] by (auto simp: runPlaybook_def Let_def case_prod_beta)

definition enforced :: "alertInfo \<Rightarrow> playbook \<Rightarrow> bool" where
  "enforced al p \<longleftrightarrow> pb_Mode p = ''enforce'' \<and> trigger_matches (pb_Trigger p) al"

lemma observe_loop_quiet: "\<not> list_ex (enforced al) ps \<Longrightarrow> snd (observe_loop D clock al ps e w) = w"
proof (induction ps arbitrary: e w)
  case (Cons p ps)
  then have p: "\<not> enforced al p" "\<not> list_ex (enforced al) ps" by simp_all
  show ?case
  proof (cases "pb_Mode p = ''off'' \<or> \<not> trigger_matches (pb_Trigger p) al")
    case True
    then show ?thesis using Cons.IH [OF p(2)] by simp
  next
    case False
    then have "snd (runPlaybook D (clock (pb_ID p)) p al False w) = w"
      using p(1) by (intro dry_playbook_keeps_world) (simp add: enforced_def)
    then show ?thesis using False Cons.IH [OF p(2)] by (simp add: case_prod_beta)
  qed
qed simp

lemma observe_loop_runs: "length (se_runs e) \<le> maxRuns \<Longrightarrow> length (se_runs (fst (observe_loop D clock al ps e w))) \<le> maxRuns"
  by (induction ps arbitrary: e w) (simp_all add: record_run_def case_prod_beta)

text \<open>
  C20. Playbooks act only when told to. An observation that changes anything outside the engine has found the
  engine enabled and a playbook in enforce mode whose trigger the alert meets; testing a playbook, whatever
  its mode, changes nothing outside the engine.
\<close>

theorem playbooks_act_only_when_enforced:
  "(snd (soar_Observe D clock al e w) \<noteq> w \<longrightarrow> se_enabled e \<and> list_ex (enforced al) (playbook_List (se_store e))) \<and>
   snd (snd (soar_Test D now i al e w)) = w"
proof
  show "snd (soar_Observe D clock al e w) \<noteq> w \<longrightarrow> se_enabled e \<and> list_ex (enforced al) (playbook_List (se_store e))"
    using observe_loop_quiet [of al "playbook_List (se_store e)" D clock e w] by (auto simp: soar_Observe_def)
  show "snd (snd (soar_Test D now i al e w)) = w"
    using dry_playbook_keeps_world [of _ True D now al w] by (simp add: soar_Test_def case_prod_beta split: option.split)
qed

definition any_trigger :: trigger where
  "any_trigger = \<lparr>tr_RuleIDs = [], tr_Severities = [], tr_Techniques = [], tr_MinRisk = 0, tr_IncidentsOnly = False\<rparr>"

definition kill_playbook :: "string \<Rightarrow> playbook" where
  "kill_playbook mode = \<lparr>pb_ID = [], pb_Name = ''contain'', pb_Mode = mode, pb_Trigger = any_trigger,
     pb_Steps = [\<lparr>st_Type = ''kill_process'', st_Query = []\<rparr>], pb_Created = zero_time, pb_Updated = zero_time\<rparr>"

definition sample_alert :: alertInfo where
  "sample_alert = \<lparr>ai_AlertID = ''x'', ai_AgentID = ''a'', ai_Hostname = ''web'', ai_RuleID = ''R1'', ai_RuleName = ''shell'',
     ai_Severity = ''high'', ai_TechniqueID = ''T1059'', ai_PID = 42, ai_DestinationIP = [], ai_RiskScore = 10, ai_IsIncident = False\<rparr>"

definition counting_deps :: "nat soar_deps" where
  "counting_deps = \<lparr>dp_Notifier = None, dp_Cases = None, dp_Commander = Some (\<lambda>i k a n. (True, n + 1)), dp_Hunter = None\<rparr>"

theorem playbooks_act_only_when_enforced_witness:
  "let e = (SetEnabled True new_soar_engine)\<lparr>se_store := snd (playbook_Create 0 (kill_playbook ''enforce'') NewPlaybookStore)\<rparr>
   in snd (soar_Observe counting_deps (\<lambda>_. 0) sample_alert e 0) = 1 \<and> list_ex (enforced sample_alert) (playbook_List (se_store e)) \<and>
      snd (snd (soar_Test counting_deps 0 ''PB-0001'' sample_alert e 0)) = 0"
proof -
  let ?e = "(SetEnabled True new_soar_engine)\<lparr>se_store := snd (playbook_Create 0 (kill_playbook ''enforce'') NewPlaybookStore)\<rparr>"
  have "snd (soar_Observe counting_deps (\<lambda>_. 0) sample_alert ?e 0) = 1" by code_simp
  then show ?thesis
    using playbooks_act_only_when_enforced [of counting_deps "\<lambda>_. 0" sample_alert ?e 0 0 "''PB-0001''"]
    by (simp only: Let_def one_neq_zero simp_thms)
qed

section \<open>What the engine relies on\<close>

text \<open>The commands the steps of a playbook ask for, given the alert.\<close>

definition step_command :: "alertInfo \<Rightarrow> soar_step \<Rightarrow> command list" where
  "step_command al s =
     (if st_Type s = ''kill_process'' then [\<lparr>cmd_Kind = ''KILL_PROCESS'', cmd_Argument = word_str (ai_PID al)\<rparr>]
      else if st_Type s = ''quarantine'' \<and> ai_DestinationIP al \<noteq> [] then
        [\<lparr>cmd_Kind = ''QUARANTINE'', cmd_Argument = ai_DestinationIP al\<rparr>]
      else [])"

definition playbook_commands :: "alertInfo \<Rightarrow> playbook list \<Rightarrow> command list" where
  "playbook_commands al ps = concat (map (\<lambda>p. concat (map (step_command al) (pb_Steps p))) (filter (enforced al) ps))"

text \<open>
  A platform in which \<open>known\<close> says which agents exist and \<open>queued\<close> what waits for each: notifying and opening a
  case leave both alone, and the commander queues at the end, for agents that exist.
\<close>

locale playbook_platform =
  fixes D :: "'w soar_deps"
    and known :: "'w \<Rightarrow> string \<Rightarrow> bool"
    and queued :: "'w \<Rightarrow> string \<Rightarrow> command list"
    and enqueue :: "string \<Rightarrow> string \<Rightarrow> string \<Rightarrow> 'w \<Rightarrow> bool \<times> 'w"
  assumes commander: "dp_Commander D = Some enqueue"
    and enqueue_answer: "fst (enqueue i k a w) = known w i"
    and enqueue_queued: "queued (snd (enqueue i k a w)) =
      (queued w)(i := queued w i @ (if known w i then [\<lparr>cmd_Kind = k, cmd_Argument = a\<rparr>] else []))"
    and enqueue_agents: "known (snd (enqueue i k a w)) = known w"
    and notify_frame: "dp_Notifier D = Some (name, notify) \<Longrightarrow> queued (snd (notify n w)) = queued w \<and> known (snd (notify n w)) = known w"
    and case_frame: "dp_Cases D = Some opener \<Longrightarrow> queued (snd (opener t sv h ev w)) = queued w \<and> known (snd (opener t sv h ev w)) = known w"
begin

definition extends :: "string \<Rightarrow> command list \<Rightarrow> 'w \<Rightarrow> 'w \<Rightarrow> bool" where
  "extends i cs w w' \<longleftrightarrow> known w' = known w \<and> queued w' = (queued w)(i := queued w i @ (if known w i then cs else []))"

lemma extends_refl: "extends i [] w w"
  by (simp add: extends_def)

lemma extends_trans: "extends i cs w w' \<Longrightarrow> extends i cs' w' w'' \<Longrightarrow> extends i (cs @ cs') w w''"
  by (simp add: extends_def)

lemma doCommand_extends: "a \<noteq> [] \<Longrightarrow> extends i [\<lparr>cmd_Kind = k, cmd_Argument = a\<rparr>] w (snd (doCommand D i k a d w))"
  using enqueue_answer [of i k a w] enqueue_queued [of i k a w] enqueue_agents [of i k a w]
  by (cases "enqueue i k a w"; cases "fst (enqueue i k a w)") (simp_all add: doCommand_def commander extends_def Let_def)

lemma doCommand_no_target: "snd (doCommand D i k [] d w) = w"
  by (simp add: doCommand_def commander Let_def)

lemma doNotify_extends: "extends i [] w (snd (doNotify D al w))"
  using notify_frame
  by (auto simp: doNotify_def extends_def Let_def case_prod_beta split: option.split)

lemma doOpenCase_extends: "extends i [] w (snd (doOpenCase D al w))"
proof (cases "dp_Cases D")
  case (Some opener)
  let ?o = "opener (if ai_RuleName al = [] then ''Incident on '' @ ai_Hostname al else ai_RuleName al) (ai_Severity al) (ai_Hostname al)
      (if ai_AlertID al \<noteq> [] then [ai_AlertID al] else []) w"
  have "snd (doOpenCase D al w) = snd ?o"
    by (cases ?o; cases "fst ?o") (simp_all add: doOpenCase_def Some Let_def)
  then show ?thesis using case_frame [OF Some] by (simp add: extends_def)
qed (simp add: doOpenCase_def extends_def Let_def)

lemma executeStep_extends: "extends (ai_AgentID al) (step_command al s) w (snd (executeStep D s al False w))"
proof -
  consider "st_Type s = ''notify''" | "st_Type s = ''open_case''" | "st_Type s = ''run_hunt''" | "st_Type s = ''kill_process''"
    | "st_Type s = ''quarantine''" | "st_Type s \<notin> set [''notify'', ''open_case'', ''run_hunt'', ''kill_process'', ''quarantine'']"
    by auto
  then show ?thesis
  proof cases
    case 5
    then show ?thesis
      using doCommand_extends [of "ai_DestinationIP al" "ai_AgentID al" "''QUARANTINE''"] doCommand_no_target extends_refl
      by (cases "ai_DestinationIP al = []") (simp_all add: executeStep_def step_command_def)
  qed (use doNotify_extends doOpenCase_extends doCommand_extends extends_refl in \<open>simp_all add: executeStep_def step_command_def\<close>)
qed

lemma execute_steps_extends:
  "extends (ai_AgentID al) (concat (map (step_command al) ss)) w (snd (execute_steps D ss al False w))"
proof (induction ss arbitrary: w)
  case (Cons s ss)
  show ?case
    using extends_trans [OF executeStep_extends [of al s w] Cons.IH [of "snd (executeStep D s al False w)"]]
    by (simp add: case_prod_beta)
qed (simp add: extends_refl)

lemma observe_loop_extends:
  "extends (ai_AgentID al) (playbook_commands al ps) w (snd (observe_loop D clock al ps e w))"
proof (induction ps arbitrary: e w)
  case (Cons p ps)
  let ?w = "snd (runPlaybook D (clock (pb_ID p)) p al False w)"
  have off: "\<not> enforced al p" if "pb_Mode p = ''off'' \<or> \<not> trigger_matches (pb_Trigger p) al"
    using that by (auto simp: enforced_def)
  have run: "extends (ai_AgentID al) (if enforced al p then concat (map (step_command al) (pb_Steps p)) else []) w ?w"
    if "trigger_matches (pb_Trigger p) al"
  proof (cases "pb_Mode p = ''enforce''")
    case True
    then show ?thesis using that execute_steps_extends [of al "pb_Steps p" w]
      by (simp add: enforced_def runPlaybook_def Let_def case_prod_beta)
  next
    case False
    then show ?thesis
      using dry_playbook_keeps_world [of p False D "clock (pb_ID p)" al w] extends_refl by (simp add: enforced_def)
  qed
  show ?case
  proof (cases "pb_Mode p = ''off'' \<or> \<not> trigger_matches (pb_Trigger p) al")
    case True
    then show ?thesis using Cons.IH [of w e] off by (simp add: playbook_commands_def)
  next
    case False
    then show ?thesis
      using extends_trans [OF run Cons.IH [of ?w "record_run (fst (runPlaybook D (clock (pb_ID p)) p al False w)) e"]]
      by (simp add: playbook_commands_def case_prod_beta split: if_splits)
  qed
qed (simp add: extends_refl playbook_commands_def)

lemma Observe_queues:
  assumes "soar_Observe D clock al e w = (e', w')"
  shows "known w' = known w" and "queued w' = (queued w)(ai_AgentID al := queued w (ai_AgentID al) @
    (if se_enabled e \<and> known w (ai_AgentID al) then playbook_commands al (playbook_List (se_store e)) else []))"
  using assms observe_loop_extends [of al "playbook_List (se_store e)" w clock e]
  by (auto simp: soar_Observe_def extends_def split: if_splits)

end

end
