(* ===== verification/Audit_Log.thy ===== *)
theory Audit_Log
  imports Argus_Prelude
begin

text \<open>
  The audit log of admin actions (\<^verbatim>\<open>cmd/argus-server/audit.go\<close>): a chain in which the hash of an entry covers
  its fields and the hash of the entry before, with an HMAC of each hash when a key is configured. SHA-256 and
  HMAC are the arguments \<open>sha\<close> and \<open>mac\<close>, functions into 256-bit words. The sink holds the entries of the
  JSON lines written to it; the encoding of a line is not modelled.
\<close>

section \<open>The time of an entry\<close>

text \<open>
  \<open>Time.Format(time.RFC3339Nano)\<close> of a time in UTC: the proleptic Gregorian date of the day since the epoch,
  the time of day, and the nanoseconds without trailing zeros.
\<close>

definition civil_date :: "int \<Rightarrow> int \<times> int \<times> int" where
  "civil_date day =
     (let z = day + 719468; era = z div 146097; doe = z mod 146097;
          yoe = (doe - doe div 1460 + doe div 36524 - doe div 146096) div 365;
          doy = doe - (365 * yoe + yoe div 4 - yoe div 100);
          mp = (5 * doy + 2) div 153;
          m = (if mp < 10 then mp + 3 else mp - 9)
      in (yoe + era * 400 + (if m \<le> 2 then 1 else 0), m, doy - (153 * mp + 2) div 5 + 1))"

definition pad_to :: "nat \<Rightarrow> int \<Rightarrow> string" where
  "pad_to n i = (let s = nat_str (nat \<bar>i\<bar>) in (if i < 0 then ''-'' else []) @ replicate (n - length s) CHR ''0'' @ s)"

definition nano_fraction :: "int \<Rightarrow> string" where
  "nano_fraction n = (if n = 0 then [] else CHR ''.'' # rev (dropWhile (\<lambda>c. c = CHR ''0'') (rev (pad_to 9 n))))"

definition format_rfc3339nano :: "go_time \<Rightarrow> string" where
  "format_rfc3339nano t =
     (let s = t div 1000000000; d = s mod 86400 in
      case civil_date (s div 86400) of (y, m, dd) \<Rightarrow>
        pad_to 4 y @ ''-'' @ pad_to 2 m @ ''-'' @ pad_to 2 dd @ ''T'' @
        pad_to 2 (d div 3600) @ '':'' @ pad_to 2 (d div 60 mod 60) @ '':'' @ pad_to 2 (d mod 60) @
        nano_fraction (t mod 1000000000) @ ''Z'')"

section \<open>Entries and the log (audit.go)\<close>

record auditEntry =
  au_Seq :: uint64
  au_Time :: go_time
  au_Actor :: string
  au_Action :: string
  au_Target :: string
  au_Detail :: string
  au_PrevHash :: string
  au_Hash :: string
  au_Sig :: string

record auditLog =
  al_seq :: uint64
  al_prev :: string
  al_key :: string
  al_sink :: "auditEntry list option"

type_synonym hash_fn = "string \<Rightarrow> 256 word"
type_synonym mac_fn = "string \<Rightarrow> string \<Rightarrow> 256 word"

definition newAuditLog :: "auditEntry list option \<Rightarrow> string \<Rightarrow> auditLog" where
  "newAuditLog sink key = \<lparr>al_seq = 0, al_prev = [], al_key = key, al_sink = sink\<rparr>"

definition unit_sep :: char where "unit_sep = CHR 0x1F"

definition canonical :: "auditEntry \<Rightarrow> string" where
  "canonical e = word_str (au_Seq e) @ [unit_sep] @ format_rfc3339nano (au_Time e) @ [unit_sep] @ au_Actor e @ [unit_sep] @
     au_Action e @ [unit_sep] @ au_Target e @ [unit_sep] @ au_Detail e @ [unit_sep] @ au_PrevHash e"

definition sum_bytes :: "256 word \<Rightarrow> uint8 list" where
  "sum_bytes w = map (\<lambda>i. ucast (drop_bit (8 * i) w)) (rev [0..<32])"

definition computeHash :: "hash_fn \<Rightarrow> auditEntry \<Rightarrow> string" where
  "computeHash sha e = hex_encode (sum_bytes (sha (canonical e)))"

definition audit_sign :: "mac_fn \<Rightarrow> string \<Rightarrow> auditEntry \<Rightarrow> string" where
  "audit_sign mac key e = hex_encode (sum_bytes (mac key (au_Hash e)))"

definition audit_record ::
  "hash_fn \<Rightarrow> mac_fn \<Rightarrow> go_time \<Rightarrow> string \<Rightarrow> string \<Rightarrow> string \<Rightarrow> string \<Rightarrow> auditLog \<Rightarrow> auditEntry \<times> auditLog" where
  "audit_record sha mac now actor action target detail l =
     (let seq = al_seq l + 1;
          entry = \<lparr>au_Seq = seq, au_Time = now, au_Actor = actor, au_Action = action, au_Target = target,
                   au_Detail = detail, au_PrevHash = al_prev l, au_Hash = [], au_Sig = []\<rparr>;
          entry = entry\<lparr>au_Hash := computeHash sha entry\<rparr>;
          entry = (if al_key l \<noteq> [] then entry\<lparr>au_Sig := audit_sign mac (al_key l) entry\<rparr> else entry)
      in (entry, l\<lparr>al_seq := seq, al_prev := au_Hash entry,
            al_sink := (case al_sink l of None \<Rightarrow> None | Some es \<Rightarrow> Some (es @ [entry]))\<rparr>))"

datatype audit_error = ChainBroken uint64 | HashMismatch uint64 | SigMismatch uint64

fun verify_loop :: "hash_fn \<Rightarrow> mac_fn \<Rightarrow> string \<Rightarrow> string \<Rightarrow> auditEntry list \<Rightarrow> audit_error option" where
  "verify_loop sha mac key prev [] = None"
| "verify_loop sha mac key prev (e # es) =
     (if au_PrevHash e \<noteq> prev then Some (ChainBroken (au_Seq e))
      else if computeHash sha e \<noteq> au_Hash e then Some (HashMismatch (au_Seq e))
      else if key \<noteq> [] \<and> audit_sign mac key e \<noteq> au_Sig e then Some (SigMismatch (au_Seq e))
      else verify_loop sha mac key (au_Hash e) es)"

definition verifyAuditChain :: "hash_fn \<Rightarrow> mac_fn \<Rightarrow> string \<Rightarrow> auditEntry list \<Rightarrow> audit_error option" where
  "verifyAuditChain sha mac key entries = verify_loop sha mac key [] entries"

section \<open>What is recorded verifies\<close>

text \<open>An action is its time, actor, name, target and detail.\<close>

type_synonym audit_act = "go_time \<times> string \<times> string \<times> string \<times> string"

fun record_all :: "hash_fn \<Rightarrow> mac_fn \<Rightarrow> audit_act list \<Rightarrow> auditLog \<Rightarrow> auditEntry list \<times> auditLog" where
  "record_all sha mac [] l = ([], l)"
| "record_all sha mac ((now, actor, action, target, detail) # acts) l =
     (case audit_record sha mac now actor action target detail l of (e, l) \<Rightarrow>
        case record_all sha mac acts l of (es, l) \<Rightarrow> (e # es, l))"

definition act_of :: "auditEntry \<Rightarrow> audit_act" where
  "act_of e = (au_Time e, au_Actor e, au_Action e, au_Target e, au_Detail e)"



lemma audit_record_sealed:
  assumes "audit_record sha mac now actor action target detail l = (e, l')"
  shows "au_PrevHash e = al_prev l \<and> computeHash sha e = au_Hash e \<and> (al_key l = [] \<or> audit_sign mac (al_key l) e = au_Sig e) \<and>
    au_Seq e = al_seq l + 1 \<and> act_of e = (now, actor, action, target, detail) \<and>
    l' = l\<lparr>al_seq := al_seq l + 1, al_prev := au_Hash e, al_sink := map_option (\<lambda>es. es @ [e]) (al_sink l)\<rparr>"
  using assms
  by (cases "al_sink l"; cases "al_key l = []")
    (auto simp: audit_record_def Let_def computeHash_def canonical_def audit_sign_def act_of_def)

lemma record_all_sealed:
  assumes "record_all sha mac acts l = (es, l')"
  shows "verify_loop sha mac (al_key l) (al_prev l) es = None \<and> verify_loop sha mac [] (al_prev l) es = None \<and>
    map act_of es = acts \<and> map au_Seq es = map (\<lambda>k. al_seq l + of_nat k) [1..<Suc (length acts)] \<and>
    al_key l' = al_key l \<and> al_sink l' = map_option (\<lambda>xs. xs @ es) (al_sink l)"
  using assms
proof (induction acts arbitrary: l es)
  case Nil
  then show ?case by (cases "al_sink l") auto
next
  case (Cons a acts)
  obtain now actor action target detail where a: "a = (now, actor, action, target, detail)" by (cases a) auto
  obtain e l1 es1 where r: "audit_record sha mac now actor action target detail l = (e, l1)" "record_all sha mac acts l1 = (es1, l')"
      "es = e # es1"
    using Cons.prems unfolding a by (auto split: prod.splits)
  note e = audit_record_sealed [OF r(1)] and rest = Cons.IH [OF r(2)]
  have seq: "map (\<lambda>k. al_seq l1 + of_nat k) [1..<Suc (length acts)] = map (\<lambda>k. al_seq l + of_nat k) [2..<Suc (Suc (length acts))]"
    using e by (auto simp: map_Suc_upt [symmetric] numeral_2_eq_2 simp del: upt_Suc)
  have "[1..<Suc (length (a # acts))] = 1 # [2..<Suc (Suc (length acts))]"
    by (simp add: upt_conv_Cons numeral_2_eq_2 del: upt_Suc)
  then show ?case using e rest seq a r(3) by (cases "al_sink l") (auto simp del: upt_Suc)
qed

text \<open>
  C21. Whatever actions are recorded, in whatever order, the entries hold exactly these actions, numbered from one,
  and verify, with the log's key and without one; a file that was empty holds exactly them.
\<close>

theorem recorded_chain_verifies:
  "case record_all sha mac acts (newAuditLog (Some []) key) of (es, l) \<Rightarrow>
     verifyAuditChain sha mac key es = None \<and> verifyAuditChain sha mac [] es = None \<and>
     map act_of es = acts \<and> map au_Seq es = map of_nat [1..<Suc (length acts)] \<and> al_sink l = Some es"
  using record_all_sealed [of sha mac acts "newAuditLog (Some []) key"]
  by (cases "record_all sha mac acts (newAuditLog (Some []) key)") (simp add: verifyAuditChain_def newAuditLog_def del: upt_Suc)

section \<open>The last hash binds the history\<close>

lemma sep_split: "c \<notin> set w \<Longrightarrow> c \<notin> set w' \<Longrightarrow> w @ c # r = w' @ c # r' \<longleftrightarrow> w = w' \<and> r = r'"
proof (induction w arbitrary: w')
  case Nil
  then show ?case by (cases w') auto
next
  case (Cons a w)
  then show ?case by (cases w') auto
qed

lemma unit_sep_pad: "unit_sep \<notin> set (pad_to n i)"
  using nat_str_no_char [of unit_sep] by (auto simp: pad_to_def Let_def unit_sep_def is_digit_def)

lemma unit_sep_fraction: "unit_sep \<notin> set (nano_fraction n)"
  using unit_sep_pad [of 9 n] by (auto simp: nano_fraction_def unit_sep_def dest: set_dropWhileD)

lemma unit_sep_time: "unit_sep \<notin> set (format_rfc3339nano t)"
  using unit_sep_pad unit_sep_fraction
  by (simp add: format_rfc3339nano_def Let_def case_prod_beta) (simp add: unit_sep_def)

lemma unit_sep_word: "unit_sep \<notin> set (word_str w)"
  using nat_str_no_char [of unit_sep] by (simp add: word_str_def unit_sep_def is_digit_def)

definition plain_entry :: "auditEntry \<Rightarrow> bool" where
  "plain_entry e \<longleftrightarrow> unit_sep \<notin> set (au_Actor e) \<union> set (au_Action e) \<union> set (au_Target e) \<union> set (au_Detail e)"

definition same_content :: "auditEntry \<Rightarrow> auditEntry \<Rightarrow> bool" where
  "same_content e e' \<longleftrightarrow> au_Seq e = au_Seq e' \<and> format_rfc3339nano (au_Time e) = format_rfc3339nano (au_Time e') \<and>
     au_Actor e = au_Actor e' \<and> au_Action e = au_Action e' \<and> au_Target e = au_Target e' \<and> au_Detail e = au_Detail e' \<and>
     au_PrevHash e = au_PrevHash e'"

lemma canonical_same: "plain_entry e \<Longrightarrow> plain_entry e' \<Longrightarrow> canonical e = canonical e' \<longleftrightarrow> same_content e e'"
  by (simp add: canonical_def same_content_def plain_entry_def sep_split unit_sep_time unit_sep_word)

definition end_hash :: "string \<Rightarrow> auditEntry list \<Rightarrow> string" where
  "end_hash prev es = (if es = [] then prev else au_Hash (last es))"

lemma end_hash_simps [simp]: "end_hash prev [] = prev" "end_hash prev (e # es) = end_hash (au_Hash e) es"
  by (simp_all add: end_hash_def)

lemma verify_append:
  "verify_loop sha mac key prev (es @ es') =
     (case verify_loop sha mac key prev es of Some err \<Rightarrow> Some err | None \<Rightarrow> verify_loop sha mac key (end_hash prev es) es')"
  by (induction es arbitrary: prev) (simp_all cong: option.case_cong if_cong)

lemma verify_snoc:
  "verify_loop sha mac key prev (es @ [e]) = None \<longleftrightarrow>
     verify_loop sha mac key prev es = None \<and> au_PrevHash e = end_hash prev es \<and> computeHash sha e = au_Hash e \<and>
     (key = [] \<or> audit_sign mac key e = au_Sig e)"
  by (auto simp: verify_append split: option.split)

text \<open>
  C22. Two logs that verify, are equally long and end in the same hash have the same content, entry by entry
  (numbers, times, actors, actions, targets, details and links), unless the digest collides on two entries
  at the same place. The textual fields must not hold the unit separator.
\<close>

theorem chain_binds_history:
  assumes "verifyAuditChain sha mac key es = None" and "verifyAuditChain sha mac' key' es' = None"
    and "length es = length es'" and "end_hash [] es = end_hash [] es'"
    and "list_all plain_entry es" and "list_all plain_entry es'"
  shows "list_all2 same_content es es' \<or>
    (\<exists>i < length es. canonical (es ! i) \<noteq> canonical (es' ! i) \<and> computeHash sha (es ! i) = computeHash sha (es' ! i))"
  using assms unfolding verifyAuditChain_def
proof (induction es arbitrary: es' rule: rev_induct)
  case (snoc e es)
  obtain e' xs where es': "es' = xs @ [e']" using snoc.prems(3) by (cases es' rule: rev_cases) auto
  have h: "computeHash sha e = computeHash sha e'" "au_PrevHash e = end_hash [] es" "au_PrevHash e' = end_hash [] xs"
    using snoc.prems(1,2,4) by (simp_all add: es' verify_snoc end_hash_def)
  have len: "length es = length xs" using snoc.prems(3) by (simp add: es')
  show ?case
  proof (cases "canonical e = canonical e'")
    case True
    then have same: "same_content e e'" using canonical_same snoc.prems(5,6) by (simp add: es')
    then have "end_hash [] es = end_hash [] xs" using h(2,3) by (simp add: same_content_def)
    then have "list_all2 same_content es xs \<or>
        (\<exists>i < length es. canonical (es ! i) \<noteq> canonical (xs ! i) \<and> computeHash sha (es ! i) = computeHash sha (xs ! i))"
      using snoc.IH [of xs] snoc.prems by (simp add: es' verify_snoc)
    then show ?thesis
    proof (elim disjE exE conjE)
      fix i assume "i < length es" "canonical (es ! i) \<noteq> canonical (xs ! i)" "computeHash sha (es ! i) = computeHash sha (xs ! i)"
      then show ?thesis using len unfolding es' by (intro disjI2 exI [of _ i]) (simp add: nth_append)
    qed (simp add: es' same list_all2_appendI)
  next
    case False
    then show ?thesis using h(1) len unfolding es' by (intro disjI2 exI [of _ "length es"]) (simp add: nth_append)
  qed
qed simp

definition sample_log :: "auditEntry list" where
  "sample_log = fst (record_all (\<lambda>s. of_nat (length s)) (\<lambda>k s. 0)
     [(0, ''admin'', ''rules_reload'', ''v1'', ''local''), (1, ''operator'', ''enqueue_command'', ''a1'', ''KILL_PROCESS 7'')]
     (newAuditLog None []))"

theorem chain_binds_history_witness:
  "length sample_log = 2 \<and> list_all2 same_content sample_log sample_log"
proof -
  let ?sha = "\<lambda>s :: string. of_nat (length s) :: 256 word" and ?mac = "\<lambda>k s :: string. 0 :: 256 word"
  obtain es l where es: "record_all ?sha ?mac [(0, ''admin'', ''rules_reload'', ''v1'', ''local''),
      (1, ''operator'', ''enqueue_command'', ''a1'', ''KILL_PROCESS 7'')] (newAuditLog None []) = (es, l)" "es = sample_log"
    by (simp add: sample_log_def prod_eq_iff)
  have acts: "map act_of sample_log = [(0, ''admin'', ''rules_reload'', ''v1'', ''local''),
      (1, ''operator'', ''enqueue_command'', ''a1'', ''KILL_PROCESS 7'')]"
    using record_all_sealed [OF es(1)] es(2) by simp
  then have len: "length sample_log = 2" by (metis length_map list.size(3,4) numeral_2_eq_2 One_nat_def add.commute plus_1_eq_Suc)
  have "list_all (\<lambda>(t, a, b, c, d). unit_sep \<notin> set a \<union> set b \<union> set c \<union> set d) (map act_of sample_log)"
    unfolding acts by (simp add: unit_sep_def)
  then have plain: "list_all plain_entry sample_log"
    by (simp add: list_all_iff plain_entry_def act_of_def)
  have ok: "verifyAuditChain ?sha ?mac [] sample_log = None"
    using record_all_sealed [OF es(1)] es(2) by (simp add: verifyAuditChain_def newAuditLog_def)
  show ?thesis using chain_binds_history [OF ok ok refl refl plain plain] len by simp
qed

section \<open>What does not hold\<close>

text \<open>
  C40. The unit separator can be part of a field, since fields hold what a request sent. Then the end of the target
  can be moved into the detail, or back, without any change of hash and signature: the altered log verifies
  exactly if the recorded one does, whatever the key.
\<close>

theorem separator_moves_fields:
  "verifyAuditChain sha mac key (es @ e\<lparr>au_Target := target, au_Detail := part @ [unit_sep] @ detail\<rparr> # es') =
   verifyAuditChain sha mac key (es @ e\<lparr>au_Target := target @ [unit_sep] @ part, au_Detail := detail\<rparr> # es')"
proof -
  have "verify_loop sha mac key prev (es @ e\<lparr>au_Target := target, au_Detail := part @ [unit_sep] @ detail\<rparr> # es') =
      verify_loop sha mac key prev (es @ e\<lparr>au_Target := target @ [unit_sep] @ part, au_Detail := detail\<rparr> # es')" for prev
    by (induction es arbitrary: prev) (simp_all add: computeHash_def canonical_def audit_sign_def cong: if_cong)
  then show ?thesis by (simp add: verifyAuditChain_def)
qed

lemma hash_nonempty: "computeHash sha e \<noteq> []"
  by (auto simp: computeHash_def sum_bytes_def hex_encode_def hex_byte_def intro!: exI [of _ 0])

text \<open>
  C39. The server opens its audit file for appending and starts a new log each time it starts. The file of a server
  that recorded something before and after a restart does not verify: the chain is broken at the first entry
  after the restart, which has number one again.
\<close>

theorem restart_breaks_chain:
  "verifyAuditChain sha mac key (fst (record_all sha mac (a # acts) (newAuditLog sink key)) @
     fst (record_all sha mac (b # acts') (newAuditLog sink' key))) = Some (ChainBroken 1)"
proof -
  obtain es l where es: "record_all sha mac (a # acts) (newAuditLog sink key) = (es, l)" by fastforce
  obtain es' l' where es': "record_all sha mac (b # acts') (newAuditLog sink' key) = (es', l')" by fastforce
  have ok: "verify_loop sha mac key [] es = None" "es \<noteq> []"
    using record_all_sealed [OF es] by (auto simp: newAuditLog_def)
  then have "\<exists>xs e. es = xs @ [e]" by (metis rev_exhaust)
  then have "au_Hash (last es) \<noteq> []" using ok(1) hash_nonempty by (metis last_snoc verify_snoc)
  moreover obtain e xs where e: "es' = e # xs" "au_PrevHash e = []" "au_Seq e = 1"
    using record_all_sealed [OF es'] by (cases es') (auto simp: newAuditLog_def split: if_splits simp del: upt_Suc simp add: upt_conv_Cons)
  ultimately show ?thesis using ok by (simp add: verifyAuditChain_def es es' verify_append end_hash_def)
qed

end
