(* ===== verification/Authz.thy ===== *)
theory Authz
  imports Argus_Prelude
begin

text \<open>
  Roles of the admin API (\<^verbatim>\<open>cmd/argus-server/authz.go\<close>): the grant table built from the admin token and the RBAC
  file, and the role of a presented token. Reading the file and decoding its YAML are arguments.
\<close>

type_synonym role = int

definition RoleNone :: role where "RoleNone = 0"
definition RoleViewer :: role where "RoleViewer = 1"
definition RoleOperator :: role where "RoleOperator = 2"
definition RoleAdmin :: role where "RoleAdmin = 3"

definition roleByName :: "(string, role) gomap" where
  "roleByName = [(''viewer'', RoleViewer), (''operator'', RoleOperator), (''admin'', RoleAdmin)]"

text \<open>No two names have the same role, so the order of ranging over the map does not matter.\<close>

fun role_name_loop :: "(string, role) gomap \<Rightarrow> role \<Rightarrow> string" where
  "role_name_loop [] r = ''none''"
| "role_name_loop ((name, role) # m) r = (if role = r then name else role_name_loop m r)"

definition role_String :: "role \<Rightarrow> string" where
  "role_String r = role_name_loop roleByName r"

record grant =
  gr_token :: string
  gr_role :: role

type_synonym authz = "grant list"

datatype rbac_error = RBACRead string | RBACParse string | RBACUnknownRole nat string | RBACEmptyToken nat

fun rbac_grants :: "nat \<Rightarrow> (string \<times> string) list \<Rightarrow> rbac_error + grant list" where
  "rbac_grants i [] = Inr []"
| "rbac_grants i ((token, role) # entries) =
     (case map_of roleByName role of
        None \<Rightarrow> Inl (RBACUnknownRole i role)
      | Some r \<Rightarrow>
          if token = [] then Inl (RBACEmptyToken i)
          else sum_bind (rbac_grants (i + 1) entries) (\<lambda>gs. Inr (\<lparr>gr_token = token, gr_role = r\<rparr> # gs)))"

definition loadRBACFile ::
  "(string \<Rightarrow> string option) \<Rightarrow> (string \<Rightarrow> (string \<times> string) list option) \<Rightarrow> string \<Rightarrow> rbac_error + grant list" where
  "loadRBACFile read decode path =
     (case read path of
        None \<Rightarrow> Inl (RBACRead path)
      | Some data \<Rightarrow> (case decode data of None \<Rightarrow> Inl (RBACParse path) | Some entries \<Rightarrow> rbac_grants 0 entries))"

definition newAuthz ::
  "(string \<Rightarrow> string option) \<Rightarrow> (string \<Rightarrow> (string \<times> string) list option) \<Rightarrow> string \<Rightarrow> string \<Rightarrow> rbac_error + authz" where
  "newAuthz read decode adminToken rbacFile =
     (let grants = (if adminToken \<noteq> [] then [\<lparr>gr_token = adminToken, gr_role = RoleAdmin\<rparr>] else []) in
      if rbacFile \<noteq> [] then
        (case loadRBACFile read decode rbacFile of Inl err \<Rightarrow> Inl err | Inr loaded \<Rightarrow> Inr (grants @ loaded))
      else Inr grants)"

definition authz_configured :: "authz \<Rightarrow> bool" where
  "authz_configured a \<longleftrightarrow> length a > 0"

text \<open>\<open>subtle.ConstantTimeCompare\<close> returns one exactly if both byte strings are equal.\<close>

fun role_loop :: "string \<Rightarrow> authz \<Rightarrow> role \<Rightarrow> role" where
  "role_loop presented [] best = best"
| "role_loop presented (g # gs) best =
     role_loop presented gs (if presented = gr_token g \<and> gr_role g > best then gr_role g else best)"

definition authz_role :: "authz \<Rightarrow> string \<Rightarrow> role" where
  "authz_role a presented = role_loop presented a RoleNone"

section \<open>The role of a token\<close>

lemma role_loop_ge: "r \<le> role_loop t gs best \<longleftrightarrow> r \<le> best \<or> (\<exists>g \<in> set gs. gr_token g = t \<and> r \<le> gr_role g)"
  by (induction gs arbitrary: best) auto

text \<open>A token has a role if it was granted that role or a higher one.\<close>

lemma authz_role_ge: "RoleNone < r \<Longrightarrow> r \<le> authz_role a t \<longleftrightarrow> (\<exists>g \<in> set a. gr_token g = t \<and> r \<le> gr_role g)"
  by (auto simp: authz_role_def role_loop_ge)

lemma authz_role_nonneg: "RoleNone \<le> authz_role a t"
  by (simp add: authz_role_def role_loop_ge)

lemma roleByName_pos: "map_of roleByName name = Some r \<Longrightarrow> RoleNone < r"
  by (auto simp: roleByName_def RoleNone_def RoleViewer_def RoleOperator_def RoleAdmin_def split: if_splits)

lemma rbac_grants_ok: "rbac_grants i entries = Inr gs \<Longrightarrow> \<forall>g \<in> set gs. gr_token g \<noteq> [] \<and> RoleNone < gr_role g"
proof (induction entries arbitrary: i gs)
  case (Cons x entries)
  obtain token name where x: "x = (token, name)" by (cases x)
  obtain r gs' where "map_of roleByName name = Some r" "token \<noteq> []" "rbac_grants (i + 1) entries = Inr gs'"
      "gs = \<lparr>gr_token = token, gr_role = r\<rparr> # gs'"
    using Cons.prems unfolding x by (auto simp: sum_bind_Inr split: option.splits if_splits)
  then show ?case using Cons.IH roleByName_pos by auto
qed simp

lemma newAuthz_ok: "newAuthz read decode adminToken rbacFile = Inr a \<Longrightarrow> \<forall>g \<in> set a. gr_token g \<noteq> [] \<and> RoleNone < gr_role g"
  using rbac_grants_ok
  by (auto simp: newAuthz_def loadRBACFile_def Let_def RoleNone_def RoleAdmin_def split: if_splits sum.splits option.splits)

lemma role_String_inj: "role_String r = role_String r' \<Longrightarrow> r \<in> {0..3} \<Longrightarrow> r' \<in> {0..3} \<Longrightarrow> r = r'"
proof -
  have "{0..3 :: int} = {0, 1, 2, 3}" by auto
  then show "role_String r = role_String r' \<Longrightarrow> r \<in> {0..3} \<Longrightarrow> r' \<in> {0..3} \<Longrightarrow> r = r'"
    by (auto simp: role_String_def roleByName_def RoleViewer_def RoleOperator_def RoleAdmin_def)
qed

end
