(* ===== verification/Admin.thy ===== *)
theory Admin
  imports Fleet_Api Hunt Soar Audit_Log Authz
begin

text \<open>
  The admin API of the control plane: \<^verbatim>\<open>cmd/argus-server/admin.go\<close> (routes, authorisation, commands, certificate
  rotation, rule reload, read-only views), \<^verbatim>\<open>cmd/argus-server/soar.go\<close> (playbook endpoints and the adapters between
  the playbook engine and the stores), \<^verbatim>\<open>cmd/argus-server/investigate.go\<close> (case endpoints) and
  \<^verbatim>\<open>cmd/argus-server/hunt.go\<close>. A request is answered by one function of the server's state. JSON decoding, the
  clock, the certificate authority, the notification destinations and the parser of RFC 3339 times are fields
  of \<open>admin_env\<close>; a response is its status code and a value that the handler encodes. The endpoints that only
  compute a view of the state (version, triage, the Navigator layer, the live stream, query fields, rule drafts,
  attack graphs, case reports, metrics) are not modelled: \<open>av_view\<close> is their answer, which changes nothing. The
  text of a rule loader's error is left out of the answers that quote it.
\<close>

section \<open>Requests, responses and the server's state\<close>

record http_request =
  hq_Method :: string
  hq_Path :: "string list"
  hq_Query :: "(string, string) gomap"
  hq_Authorization :: string
  hq_Body :: string
  hq_RemoteAddr :: string

record agentView =
  vw_ID :: string
  vw_Hostname :: string
  vw_Version :: string
  vw_Kernel :: string
  vw_Online :: bool
  vw_FirstSeen :: go_time
  vw_LastSeen :: go_time
  vw_EventsProcessed :: uint64
  vw_Alerts :: uint64
  vw_Incidents :: uint64
  vw_RulesVersion :: string

record rotatedCert =
  rc_Agent :: string
  rc_Fingerprint :: string
  rc_Cert :: string
  rc_Key :: string

record huntEventRow =
  hw_Time :: go_time
  hw_Host :: string
  hw_Action :: string
  hw_PID :: uint32
  hw_Process :: string
  hw_Executable :: string
  hw_CommandLine :: string
  hw_Parent :: string
  hw_User :: string
  hw_Destination :: string
  hw_Domain :: string
  hw_File :: string

record huntResponse =
  hp_Query :: string
  hp_Count :: nat
  hp_ElapsedMS :: int
  hp_Events :: "huntEventRow list"
  hp_Sequences :: "huntEventRow list list"

datatype reply =
    ErrorReply string
  | TextReply string
  | FieldsReply "(string \<times> string) list"
  | AgentsReply "agentView list"
  | AlertsReply "alertRecord list"
  | SignalsReply "fleet_signal list"
  | RulesReply string "ruleInfo list"
  | CertReply rotatedCert
  | CaseReply inv_case
  | CasesReply "inv_case list"
  | SoarReply bool nat
  | RunsReply "runRecord list"
  | PlaybookReply playbook
  | PlaybooksReply "playbook list"
  | HuntReply huntResponse

type_synonym http_response = "int \<times> reply"

record server =
  sr_service :: service
  sr_ttl :: duration
  sr_authz :: authz
  sr_cases :: case_store
  sr_soar :: soar_engine
  sr_sent :: "notification list"
  sr_audit :: auditLog
  sr_signals :: "fleet_signal list"

record admin_env =
  av_clock :: "nat \<Rightarrow> go_time"
  av_sha :: hash_fn
  av_mac :: mac_fn
  av_lib :: go_lib
  av_digest :: "string \<Rightarrow> string"
  av_dir :: rule_dir
  av_dir' :: rule_dir
  av_policy :: "string \<Rightarrow> policy_doc option"
  av_readPolicy :: "string \<Rightarrow> string option"
  av_issuer :: "(string \<Rightarrow> string + (string \<times> string \<times> string)) option"
  av_notifier :: "string \<times> (notification \<Rightarrow> string option)"
  av_lake :: "(lake_query \<Rightarrow> string + event list) option"
  av_ranged :: "(string, event list) gomap \<Rightarrow> (string, event list) gomap"
  av_duration :: "string \<Rightarrow> string + duration"
  av_arrange :: "inv_case list \<Rightarrow> inv_case list"
  av_time :: "string \<Rightarrow> go_time option"
  js_command :: "string \<Rightarrow> command option"
  js_enabled :: "string \<Rightarrow> bool option"
  js_playbook :: "string \<Rightarrow> playbook option"
  js_alert :: "string \<Rightarrow> string"
  js_case :: "string \<Rightarrow> createInput option"
  js_assignee :: "string \<Rightarrow> string option"
  js_status :: "string \<Rightarrow> string option"
  js_comment :: "string \<Rightarrow> (string \<times> string) option"
  js_evidence :: "string \<Rightarrow> string list option"
  js_hunt :: "string \<Rightarrow> (string \<times> int) option"
  av_view :: "http_request \<Rightarrow> server \<Rightarrow> http_response"

type_synonym handler = "admin_env \<Rightarrow> http_request \<Rightarrow> server \<Rightarrow> http_response \<times> server"

definition query_Get :: "http_request \<Rightarrow> string \<Rightarrow> string" where
  "query_Get rq k = (case map_of (hq_Query rq) k of None \<Rightarrow> [] | Some v \<Rightarrow> v)"

text \<open>\<open>PathValue("id")\<close>: every pattern with a wildcard has it as its third segment.\<close>

definition path_id :: "http_request \<Rightarrow> string" where
  "path_id rq = (if length (hq_Path rq) > 2 then hq_Path rq ! 2 else [])"

definition invalid_json :: http_response where
  "invalid_json = (400, ErrorReply ''invalid JSON body'')"

definition server_audit :: "admin_env \<Rightarrow> nat \<Rightarrow> string \<Rightarrow> string \<Rightarrow> string \<Rightarrow> string \<Rightarrow> server \<Rightarrow> server" where
  "server_audit E n actor action target detail s =
     s\<lparr>sr_audit := snd (audit_record (av_sha E) (av_mac E) (av_clock E n) actor action target detail (sr_audit s))\<rparr>"

section \<open>Read-only views (admin.go)\<close>

definition handleHealth :: handler where
  "handleHealth E rq s = ((200, TextReply ''ok''), s)"

definition handleAgents :: handler where
  "handleAgents E rq s =
     ((200, AgentsReply (map (\<lambda>a. \<lparr>vw_ID = ag_ID a, vw_Hostname = ag_Hostname a, vw_Version = ag_Version a,
        vw_Kernel = ag_Kernel a, vw_Online = Online a (av_clock E 0) (sr_ttl s), vw_FirstSeen = ag_FirstSeen a,
        vw_LastSeen = ag_LastSeen a, vw_EventsProcessed = ag_EventsProcessed a, vw_Alerts = ag_Alerts a,
        vw_Incidents = ag_Incidents a, vw_RulesVersion = ag_RulesVersion a\<rparr>) (store_List (sv_store (sr_service s))))), s)"

definition defaultAlertLimit :: int where "defaultAlertLimit = 100"

definition alertFilterFromQuery :: "admin_env \<Rightarrow> http_request \<Rightarrow> alertFilter" where
  "alertFilterFromQuery E rq =
     \<lparr>af_Hostname = query_Get rq ''host'', af_Severity = query_Get rq ''severity'',
      af_TechniqueID = query_Get rq ''technique'',
      af_Since = (case av_time E (query_Get rq ''since'') of Some t \<Rightarrow> t | None \<Rightarrow> zero_time),
      af_Until = (case av_time E (query_Get rq ''until'') of Some t \<Rightarrow> t | None \<Rightarrow> zero_time),
      af_IncidentsOnly = (query_Get rq ''incidents'' = ''true''),
      af_Limit = (case parse_int (query_Get rq ''limit'') of
          Some n \<Rightarrow> if n > 0 then n else defaultAlertLimit | None \<Rightarrow> defaultAlertLimit)\<rparr>"

definition handleAlerts :: handler where
  "handleAlerts E rq s = ((200, AlertsReply (QueryAlerts (alertFilterFromQuery E rq) (sv_store (sr_service s)))), s)"

definition handleAlertByID :: handler where
  "handleAlertByID E rq s =
     (case AlertByID (path_id rq) (sv_store (sr_service s)) of
        None \<Rightarrow> ((404, ErrorReply ''unknown alert''), s)
      | Some r \<Rightarrow> ((200, AlertsReply [r]), s))"

definition handleSignals :: handler where
  "handleSignals E rq s = ((200, SignalsReply (rev (sr_signals s))), s)"

definition handleRules :: handler where
  "handleRules E rq s =
     (case Catalogue (av_lib E) (av_dir E) of
        Inl err \<Rightarrow> ((500, ErrorReply ''rule catalogue''), s)
      | Inr infos \<Rightarrow> ((200, RulesReply (provider_Version (sv_rules (sr_service s))) infos), s))"

section \<open>Hunting (hunt.go)\<close>

definition defaultHuntLimit :: int where "defaultHuntLimit = 200"

definition huntRow :: "event \<Rightarrow> huntEventRow" where
  "huntRow e =
     \<lparr>hw_Time = e_Timestamp e, hw_Host = e_Host e, hw_Action = e_Action e, hw_PID = p_PID (e_Process e),
      hw_Process = p_Name (e_Process e), hw_Executable = p_Executable (e_Process e),
      hw_CommandLine = p_CommandLine (e_Process e), hw_Parent = p_ParentName (e_Process e), hw_User = u_Name (e_User e),
      hw_Destination = (if n_DstIP (e_Network e) \<noteq> []
        then n_DstIP (e_Network e) @ (if n_DstPort (e_Network e) \<noteq> 0 then '':'' @ word_str (n_DstPort (e_Network e)) else [])
        else []),
      hw_Domain = n_Domain (e_Network e), hw_File = f_Path (e_File e)\<rparr>"

definition buildHuntResponse :: "string \<Rightarrow> int \<Rightarrow> hunt_result \<Rightarrow> duration \<Rightarrow> huntResponse" where
  "buildHuntResponse query limit result elapsed =
     (let limit = nat (if limit \<le> 0 then defaultHuntLimit else limit);
          resp = \<lparr>hp_Query = query, hp_Count = result_Count result, hp_ElapsedMS = elapsed div 1000000, hp_Events = [], hp_Sequences = []\<rparr>
      in case hr_Sequences result of
           Some seqs \<Rightarrow> resp\<lparr>hp_Sequences := map (map huntRow) (take limit seqs)\<rparr>
         | None \<Rightarrow> resp\<lparr>hp_Events := map huntRow (take limit (hr_Events result))\<rparr>)"

text \<open>The parser of hunts neither panics nor runs out of fuel, so the last two texts are never used.\<close>

definition hunt_error_text :: "hunt_error \<Rightarrow> string" where
  "hunt_error_text err = (case err of HErr msg \<Rightarrow> msg | HPanic \<Rightarrow> ''panic'' | HFuel \<Rightarrow> ''fuel'')"

definition handleHunt :: handler where
  "handleHunt E rq s =
     (case av_lake E of
        None \<Rightarrow> ((503, ErrorReply ''event lake not configured (start argus-server with --event-store)''), s)
      | Some Q \<Rightarrow>
          (case js_hunt E (hq_Body rq) of
             None \<Rightarrow> (invalid_json, s)
           | Some (query, limit) \<Rightarrow>
               (case hunt_parse (av_lib E) (av_duration E) query of
                  Inl err \<Rightarrow> ((400, ErrorReply (''query error: '' @ hunt_error_text err)), s)
                | Inr q \<Rightarrow>
                    (case hunt_Run (av_lib E) (av_ranged E) Q q of
                       Inl err \<Rightarrow> ((500, ErrorReply (''hunt failed: '' @ err)), s)
                     | Inr result \<Rightarrow>
                         ((200, HuntReply (buildHuntResponse query limit result (time_sub (av_clock E 1) (av_clock E 0)))), s)))))"

section \<open>The adapters of the playbook engine (soar.go)\<close>

record platform =
  pf_store :: fleet_store
  pf_cases :: case_store
  pf_sent :: "notification list"

definition case_error_text :: "case_error \<Rightarrow> string" where
  "case_error_text err =
     (case err of CaseNotFound \<Rightarrow> ''case not found'' | NeedsTitle \<Rightarrow> ''a case needs a title''
      | UnknownSeverity s \<Rightarrow> ''unknown severity '' @ quote s
      | InvalidStatus s \<Rightarrow> ''invalid status '' @ quote s @ '' (want open|triage|closed)'')"

definition OpenCase ::
  "go_time \<Rightarrow> string \<Rightarrow> string \<Rightarrow> string \<Rightarrow> string list \<Rightarrow> platform \<Rightarrow> (string + string) \<times> platform" where
  "OpenCase now title severity host evidence w =
     (case case_Create now \<lparr>in_Title = title, in_Severity = severity, in_Host = host, in_Tags = [], in_Evidence = evidence\<rparr> (pf_cases w) of
        (Inl err, _) \<Rightarrow> (Inl (case_error_text err), w)
      | (Inr c, cs) \<Rightarrow> (Inr (c_ID c), w\<lparr>pf_cases := cs\<rparr>))"

definition commander_Enqueue :: "string \<Rightarrow> string \<Rightarrow> string \<Rightarrow> platform \<Rightarrow> bool \<times> platform" where
  "commander_Enqueue agentID kind argument w =
     (case EnqueueCommand agentID \<lparr>cmd_Kind = kind, cmd_Argument = argument\<rparr> (pf_store w) of (ok, m) \<Rightarrow> (ok, w\<lparr>pf_store := m\<rparr>))"

definition lakeHunter_Hunt :: "admin_env \<Rightarrow> string \<Rightarrow> platform \<Rightarrow> string + int" where
  "lakeHunter_Hunt E query w =
     (case av_lake E of
        None \<Rightarrow> Inl ''event lake not configured''
      | Some Q \<Rightarrow>
          (case hunt_parse (av_lib E) (av_duration E) query of
             Inl err \<Rightarrow> Inl (hunt_error_text err)
           | Inr q \<Rightarrow> (case hunt_Run (av_lib E) (av_ranged E) Q q of
               Inl err \<Rightarrow> Inl err | Inr result \<Rightarrow> Inr (int (result_Count result)))))"

definition platform_deps :: "admin_env \<Rightarrow> platform soar_deps" where
  "platform_deps E =
     \<lparr>dp_Notifier = Some (fst (av_notifier E), \<lambda>n w. (snd (av_notifier E) n, w\<lparr>pf_sent := pf_sent w @ [n]\<rparr>)),
      dp_Cases = Some (OpenCase (av_clock E 0)),
      dp_Commander = Some commander_Enqueue,
      dp_Hunter = Some (lakeHunter_Hunt E)\<rparr>"

definition platform_of :: "server \<Rightarrow> platform" where
  "platform_of s = \<lparr>pf_store = sv_store (sr_service s), pf_cases = sr_cases s, pf_sent = sr_sent s\<rparr>"

definition put_platform :: "platform \<Rightarrow> server \<Rightarrow> server" where
  "put_platform w s = s\<lparr>sr_service := (sr_service s)\<lparr>sv_store := pf_store w\<rparr>, sr_cases := pf_cases w, sr_sent := pf_sent w\<rparr>"

definition toSoarAlert :: "alertRecord \<Rightarrow> alertInfo" where
  "toSoarAlert r = \<lparr>ai_AlertID = ar_ID r, ai_AgentID = ar_AgentID r, ai_Hostname = ar_Hostname r, ai_RuleID = ar_RuleID r,
     ai_RuleName = ar_RuleName r, ai_Severity = ar_Severity r, ai_TechniqueID = ar_TechniqueID r, ai_PID = ar_PID r,
     ai_DestinationIP = ar_DestinationIP r, ai_RiskScore = ar_RiskScore r, ai_IsIncident = ar_IsIncident r\<rparr>"

lemma platform_simps [simp]:
  "ai_AgentID (toSoarAlert r) = ar_AgentID r" "ai_PID (toSoarAlert r) = ar_PID r" "ai_AlertID (toSoarAlert r) = ar_ID r"
  "pf_store (platform_of s) = sv_store (sr_service s)" "pf_cases (platform_of s) = sr_cases s"
  by (simp_all add: toSoarAlert_def platform_of_def)

section \<open>Playbook endpoints (soar.go)\<close>

definition playbook_error_text :: "playbook_error \<Rightarrow> string" where
  "playbook_error_text err =
     (case err of PlaybookNeedsName \<Rightarrow> ''a playbook needs a name''
      | InvalidMode m \<Rightarrow> ''invalid mode '' @ quote m @ '' (want off|dry-run|enforce)''
      | NoSteps \<Rightarrow> ''a playbook needs at least one step''
      | UnknownStep i t \<Rightarrow> ''step '' @ nat_str i @ '': unknown type '' @ quote t
      | HuntNeedsQuery i \<Rightarrow> ''step '' @ nat_str i @ '': run_hunt needs a query''
      | PlaybookNotFound i \<Rightarrow> ''playbook '' @ quote i @ '' not found'')"

definition handleSOARStatus :: handler where
  "handleSOARStatus E rq s = ((200, SoarReply (se_enabled (sr_soar s)) (length (playbook_List (se_store (sr_soar s))))), s)"

definition handleSOAREnable :: handler where
  "handleSOAREnable E rq s =
     (case js_enabled E (hq_Body rq) of
        None \<Rightarrow> (invalid_json, s)
      | Some on \<Rightarrow>
          ((200, FieldsReply [(''enabled'', bool_str on)]),
           server_audit E 0 (hq_RemoteAddr rq) ''soar_enable'' ''engine'' (''enabled='' @ bool_str on)
             (s\<lparr>sr_soar := SetEnabled on (sr_soar s)\<rparr>)))"

definition handleSOARRuns :: handler where
  "handleSOARRuns E rq s = ((200, RunsReply (soar_Runs (sr_soar s))), s)"

definition handlePlaybooks :: handler where
  "handlePlaybooks E rq s = ((200, PlaybooksReply (playbook_List (se_store (sr_soar s)))), s)"

definition handlePlaybookByID :: handler where
  "handlePlaybookByID E rq s =
     (case playbook_Get (path_id rq) (se_store (sr_soar s)) of
        None \<Rightarrow> ((404, ErrorReply ''unknown playbook''), s)
      | Some p \<Rightarrow> ((200, PlaybookReply p), s))"

definition set_playbooks :: "playbookStore \<Rightarrow> server \<Rightarrow> server" where
  "set_playbooks ps s = s\<lparr>sr_soar := (sr_soar s)\<lparr>se_store := ps\<rparr>\<rparr>"

definition handleCreatePlaybook :: handler where
  "handleCreatePlaybook E rq s =
     (case js_playbook E (hq_Body rq) of
        None \<Rightarrow> (invalid_json, s)
      | Some p \<Rightarrow>
          (case playbook_Create (av_clock E 0) p (se_store (sr_soar s)) of
             (Inl err, _) \<Rightarrow> ((400, ErrorReply (playbook_error_text err)), s)
           | (Inr created, ps) \<Rightarrow>
               ((201, PlaybookReply created),
                server_audit E 1 (hq_RemoteAddr rq) ''playbook_create'' (pb_ID created) (pb_Name created @ '' mode='' @ pb_Mode created)
                  (set_playbooks ps s))))"

definition handleUpdatePlaybook :: handler where
  "handleUpdatePlaybook E rq s =
     (case js_playbook E (hq_Body rq) of
        None \<Rightarrow> (invalid_json, s)
      | Some p \<Rightarrow>
          (case playbook_Update (av_clock E 0) (path_id rq) p (se_store (sr_soar s)) of
             (Inl err, _) \<Rightarrow> ((400, ErrorReply (playbook_error_text err)), s)
           | (Inr updated, ps) \<Rightarrow>
               ((200, PlaybookReply updated),
                server_audit E 1 (hq_RemoteAddr rq) ''playbook_update'' (path_id rq) (pb_Name updated @ '' mode='' @ pb_Mode updated)
                  (set_playbooks ps s))))"

definition handleDeletePlaybook :: handler where
  "handleDeletePlaybook E rq s =
     (case playbook_Delete (path_id rq) (se_store (sr_soar s)) of
        (False, _) \<Rightarrow> ((404, ErrorReply ''unknown playbook''), s)
      | (True, ps) \<Rightarrow>
          ((200, FieldsReply [(''status'', ''deleted''), (''id'', path_id rq)]),
           server_audit E 0 (hq_RemoteAddr rq) ''playbook_delete'' (path_id rq) [] (set_playbooks ps s)))"

definition resolveTestAlert :: "string \<Rightarrow> server \<Rightarrow> alertRecord option" where
  "resolveTestAlert alertID s =
     (if alertID \<noteq> [] then AlertByID alertID (sv_store (sr_service s))
      else case RecentAlerts 1 (sv_store (sr_service s)) of r # _ \<Rightarrow> Some r | [] \<Rightarrow> None)"

definition handleTestPlaybook :: handler where
  "handleTestPlaybook E rq s =
     (case resolveTestAlert (js_alert E (hq_Body rq)) s of
        None \<Rightarrow> ((400, ErrorReply ''no alert to test against (record an alert first or pass alert_id)''), s)
      | Some r \<Rightarrow>
          (case soar_Test (platform_deps E) (av_clock E 1) (path_id rq) (toSoarAlert r) (sr_soar s) (platform_of s) of
             (res, e, w) \<Rightarrow>
               ((case res of Inl err \<Rightarrow> (404, ErrorReply (playbook_error_text err)) | Inr run \<Rightarrow> (200, RunsReply [run])),
                put_platform w (s\<lparr>sr_soar := e\<rparr>))))"

section \<open>Case endpoints (investigate.go)\<close>

definition handleCases :: handler where
  "handleCases E rq s =
     ((200, CasesReply (case_List (av_arrange E) \<lparr>cf_Status = query_Get rq ''status'', cf_Assignee = query_Get rq ''assignee''\<rparr> (sr_cases s))), s)"

definition handleCaseByID :: handler where
  "handleCaseByID E rq s =
     (case case_Get (path_id rq) (sr_cases s) of
        None \<Rightarrow> ((404, ErrorReply ''unknown case''), s)
      | Some c \<Rightarrow> ((200, CaseReply c), s))"

definition handleCreateCase :: handler where
  "handleCreateCase E rq s =
     (case js_case E (hq_Body rq) of
        None \<Rightarrow> (invalid_json, s)
      | Some input \<Rightarrow>
          (case case_Create (av_clock E 0) input (sr_cases s) of
             (Inl err, _) \<Rightarrow> ((400, ErrorReply (case_error_text err)), s)
           | (Inr c, cs) \<Rightarrow>
               ((201, CaseReply c),
                server_audit E 1 (hq_RemoteAddr rq) ''case_create'' (c_ID c) (c_Title c) (s\<lparr>sr_cases := cs\<rparr>))))"

definition mutateCase ::
  "admin_env \<Rightarrow> http_request \<Rightarrow> string \<Rightarrow> string \<Rightarrow> (string \<Rightarrow> case_store \<Rightarrow> (case_error + inv_case) \<times> case_store) \<Rightarrow> server \<Rightarrow> http_response \<times> server" where
  "mutateCase E rq action detail change s =
     (case change (path_id rq) (sr_cases s) of
        (Inl err, cs) \<Rightarrow>
          ((if err = CaseNotFound then (404, ErrorReply ''unknown case'') else (400, ErrorReply (case_error_text err))), s\<lparr>sr_cases := cs\<rparr>)
      | (Inr c, cs) \<Rightarrow>
          ((200, CaseReply c), server_audit E 2 (hq_RemoteAddr rq) action (path_id rq) detail (s\<lparr>sr_cases := cs\<rparr>)))"

definition handleAssignCase :: handler where
  "handleAssignCase E rq s =
     (case js_assignee E (hq_Body rq) of
        None \<Rightarrow> (invalid_json, s)
      | Some a \<Rightarrow> mutateCase E rq ''case_assign'' a (\<lambda>i. case_Assign (av_clock E 0) i a) s)"

definition handleCaseStatus :: handler where
  "handleCaseStatus E rq s =
     (case js_status E (hq_Body rq) of
        None \<Rightarrow> (invalid_json, s)
      | Some st \<Rightarrow> mutateCase E rq ''case_status'' st (\<lambda>i. SetStatus (av_clock E 0) i st) s)"

definition handleCaseComment :: handler where
  "handleCaseComment E rq s =
     (case js_comment E (hq_Body rq) of
        None \<Rightarrow> (invalid_json, s)
      | Some (author, body) \<Rightarrow>
          mutateCase E rq ''case_comment'' author
            (\<lambda>i. AddComment (av_clock E 0) (av_clock E 1) i \<lparr>cc_Author = author, cc_Body = body, cc_Time = zero_time\<rparr>) s)"

definition handleCaseEvidence :: handler where
  "handleCaseEvidence E rq s =
     (case js_evidence E (hq_Body rq) of
        None \<Rightarrow> (invalid_json, s)
      | Some ids \<Rightarrow>
          mutateCase E rq ''case_evidence'' (nat_str (length ids) @ '' alert(s)'') (\<lambda>i. AddEvidence (av_clock E 0) i ids) s)"

section \<open>Guarded endpoints (admin.go)\<close>

definition cut_prefix :: "string \<Rightarrow> string \<Rightarrow> string option" where
  "cut_prefix p s = (if has_prefix s p then Some (drop (length p) s) else None)"

definition bearerToken :: "http_request \<Rightarrow> string option" where
  "bearerToken rq = cut_prefix ''Bearer '' (hq_Authorization rq)"

definition requireRole :: "role \<Rightarrow> (role \<Rightarrow> handler) \<Rightarrow> handler" where
  "requireRole minRole handle E rq s =
     (if \<not> authz_configured (sr_authz s) then
        ((503, ErrorReply ''no admin tokens configured (set --admin-token or --rbac-file)''), s)
      else let role = (case bearerToken rq of None \<Rightarrow> RoleNone | Some t \<Rightarrow> authz_role (sr_authz s) t) in
           if role = RoleNone then ((401, ErrorReply ''missing or invalid bearer token''), s)
           else if role < minRole then ((403, ErrorReply ''token lacks the required role''), s)
           else handle role E rq s)"

definition handleReloadRules :: "role \<Rightarrow> handler" where
  "handleReloadRules role E rq s =
     (case Reload (av_lib E) (av_digest E) (av_policy E) (av_readPolicy E) (av_dir E) (av_dir' E) (sv_rules (sr_service s)) of
        (Some err, p) \<Rightarrow> ((500, ErrorReply ''reload failed''), s\<lparr>sr_service := (sr_service s)\<lparr>sv_rules := p\<rparr>\<rparr>)
      | (None, p) \<Rightarrow>
          ((200, FieldsReply [(''status'', ''reloaded''), (''version'', provider_Version p)]),
           server_audit E 0 (role_String role) ''rules_reload'' (provider_Version p) (hq_RemoteAddr rq)
             (s\<lparr>sr_service := (sr_service s)\<lparr>sv_rules := p\<rparr>\<rparr>)))"

definition handleEnqueueCommand :: "role \<Rightarrow> handler" where
  "handleEnqueueCommand role E rq s =
     (case js_command E (hq_Body rq) of
        None \<Rightarrow> (invalid_json, s)
      | Some c \<Rightarrow>
          if (case map_of Command_Kind_value (cmd_Kind c) of None \<Rightarrow> True | Some v \<Rightarrow> v = 0) then
            ((400, ErrorReply ''unknown command kind (want UPDATE_RULES|SET_RESPONSE_MODE|KILL_PROCESS|QUARANTINE)''), s)
          else case EnqueueCommand (path_id rq) c (sv_store (sr_service s)) of
                 (False, m) \<Rightarrow> ((404, ErrorReply ''unknown agent''), s\<lparr>sr_service := (sr_service s)\<lparr>sv_store := m\<rparr>\<rparr>)
               | (True, m) \<Rightarrow>
                   ((202, FieldsReply [(''status'', ''queued''), (''agent'', path_id rq), (''kind'', cmd_Kind c)]),
                    server_audit E 0 (role_String role) ''enqueue_command'' (path_id rq)
                      (cmd_Kind c @ '' '' @ cmd_Argument c @ '' from '' @ hq_RemoteAddr rq)
                      (s\<lparr>sr_service := (sr_service s)\<lparr>sv_store := m\<rparr>\<rparr>)))"

definition handleRotateCert :: "role \<Rightarrow> handler" where
  "handleRotateCert role E rq s =
     (case av_issuer E of
        None \<Rightarrow> ((501, ErrorReply ''certificate rotation disabled: start the server with --ca-key (or --dev)''), s)
      | Some issue \<Rightarrow>
          (case store_Get (path_id rq) (sv_store (sr_service s)) of
             None \<Rightarrow> ((404, ErrorReply ''unknown agent''), s)
           | Some agent \<Rightarrow>
               (case issue (if ag_Hostname agent = [] then path_id rq else ag_Hostname agent) of
                  Inl err \<Rightarrow> ((500, ErrorReply (''issue certificate: '' @ err)), s)
                | Inr (cert, key, fp) \<Rightarrow>
                    (case SetPendingCert (path_id rq) fp (sv_store (sr_service s)) of
                       (False, m) \<Rightarrow> ((404, ErrorReply ''unknown agent''), s\<lparr>sr_service := (sr_service s)\<lparr>sv_store := m\<rparr>\<rparr>)
                     | (True, m) \<Rightarrow>
                         ((200, CertReply \<lparr>rc_Agent = path_id rq, rc_Fingerprint = fp, rc_Cert = cert, rc_Key = key\<rparr>),
                          server_audit E 0 (role_String role) ''rotate_cert'' (path_id rq)
                            (''fingerprint '' @ fp @ '' from '' @ hq_RemoteAddr rq)
                            (s\<lparr>sr_service := (sr_service s)\<lparr>sv_store := m\<rparr>\<rparr>))))))"

section \<open>Routes\<close>

definition view_endpoint :: handler where
  "view_endpoint E rq s = (av_view E rq s, s)"

definition mux_routes :: "(string \<times> string list \<times> handler) list" where
  "mux_routes =
     [(''GET'', [''healthz''], handleHealth),
      (''GET'', [''version''], view_endpoint),
      (''GET'', [''api'', ''agents''], handleAgents),
      (''GET'', [''api'', ''alerts''], handleAlerts),
      (''GET'', [''api'', ''alerts'', ''{id}''], handleAlertByID),
      (''GET'', [''api'', ''alerts'', ''{id}'', ''triage''], view_endpoint),
      (''GET'', [''api'', ''signals''], handleSignals),
      (''GET'', [''api'', ''rules''], handleRules),
      (''GET'', [''api'', ''detections'', ''navigator''], view_endpoint),
      (''GET'', [''api'', ''stream''], view_endpoint),
      (''GET'', [''api'', ''hunt'', ''fields''], view_endpoint),
      (''POST'', [''api'', ''hunt''], handleHunt),
      (''POST'', [''api'', ''hunt'', ''to-rule''], view_endpoint),
      (''GET'', [''api'', ''investigate'', ''graph''], view_endpoint),
      (''GET'', [''api'', ''cases''], handleCases),
      (''POST'', [''api'', ''cases''], handleCreateCase),
      (''GET'', [''api'', ''cases'', ''{id}''], handleCaseByID),
      (''POST'', [''api'', ''cases'', ''{id}'', ''assign''], handleAssignCase),
      (''POST'', [''api'', ''cases'', ''{id}'', ''status''], handleCaseStatus),
      (''POST'', [''api'', ''cases'', ''{id}'', ''comments''], handleCaseComment),
      (''POST'', [''api'', ''cases'', ''{id}'', ''evidence''], handleCaseEvidence),
      (''GET'', [''api'', ''cases'', ''{id}'', ''report''], view_endpoint),
      (''GET'', [''api'', ''soar'', ''status''], handleSOARStatus),
      (''POST'', [''api'', ''soar'', ''enable''], handleSOAREnable),
      (''GET'', [''api'', ''soar'', ''runs''], handleSOARRuns),
      (''GET'', [''api'', ''playbooks''], handlePlaybooks),
      (''POST'', [''api'', ''playbooks''], handleCreatePlaybook),
      (''GET'', [''api'', ''playbooks'', ''{id}''], handlePlaybookByID),
      (''PUT'', [''api'', ''playbooks'', ''{id}''], handleUpdatePlaybook),
      (''DELETE'', [''api'', ''playbooks'', ''{id}''], handleDeletePlaybook),
      (''POST'', [''api'', ''playbooks'', ''{id}'', ''test''], handleTestPlaybook),
      (''GET'', [''metrics''], view_endpoint),
      (''POST'', [''api'', ''agents'', ''{id}'', ''commands''], requireRole RoleOperator handleEnqueueCommand),
      (''POST'', [''api'', ''agents'', ''{id}'', ''rotate-cert''], requireRole RoleAdmin handleRotateCert),
      (''POST'', [''api'', ''rules'', ''reload''], requireRole RoleAdmin handleReloadRules)]"

text \<open>
  \<open>ServeMux\<close>: a pattern of method GET also serves HEAD, a wildcard stands for one segment that is not empty, a
  path that only other methods serve is answered with 405. No two of the patterns above match the same request.
\<close>

definition method_serves :: "string \<Rightarrow> string \<Rightarrow> bool" where
  "method_serves pattern method \<longleftrightarrow> method = pattern \<or> pattern = ''GET'' \<and> method = ''HEAD''"

definition path_serves :: "string list \<Rightarrow> string list \<Rightarrow> bool" where
  "path_serves pattern path \<longleftrightarrow> list_all2 (\<lambda>p seg. if p = ''{id}'' then seg \<noteq> [] else seg = p) pattern path"

definition admin_serve :: handler where
  "admin_serve E rq s =
     (case List.find (\<lambda>(m, p, h). method_serves m (hq_Method rq) \<and> path_serves p (hq_Path rq)) mux_routes of
        Some (m, p, h) \<Rightarrow> h E rq s
      | None \<Rightarrow>
          ((if list_ex (\<lambda>(m, p, h). path_serves p (hq_Path rq)) mux_routes then 405 else 404, TextReply []), s))"

section \<open>What the fleet service hands to the admin API\<close>

definition maxRetainedSignals :: nat where "maxRetainedSignals = 200"

definition recordSignal :: "fleet_signal \<Rightarrow> server \<Rightarrow> server" where
  "recordSignal sig s = s\<lparr>sr_signals := keep_last maxRetainedSignals (sr_signals s @ [sig])\<rparr>"

text \<open>\<open>recordAlert\<close> lets the playbook engine observe the record; \<open>clock\<close> is as for \<open>soar_Observe\<close>.\<close>

definition recordAlert :: "admin_env \<Rightarrow> (string \<Rightarrow> go_time) \<Rightarrow> alertRecord \<Rightarrow> server \<Rightarrow> server" where
  "recordAlert E clock r s =
     (case soar_Observe (platform_deps E) clock (toSoarAlert r) (sr_soar s) (platform_of s) of
        (e, w) \<Rightarrow> put_platform w (s\<lparr>sr_soar := e\<rparr>))"

text \<open>A report that arrives on a stream: the service's round, then the hooks, as the server wires them.\<close>

definition server_report ::
  "admin_env \<Rightarrow> (string \<Rightarrow> go_time) \<Rightarrow> random_id \<Rightarrow> go_time \<Rightarrow> string \<Rightarrow> alert_report \<Rightarrow> alert_stream \<Rightarrow> server \<Rightarrow>
   (rpc_error + alert_stream) \<times> server" where
  "server_report E clock rnd now fp rp st s =
     (case report_round rnd now fp rp st (sr_service s) of
        (Inl err, sv) \<Rightarrow> (Inl err, s\<lparr>sr_service := sv\<rparr>)
      | (Inr (st, r, signals), sv) \<Rightarrow> (Inr st, fold recordSignal signals (recordAlert E clock r (s\<lparr>sr_service := sv\<rparr>))))"

section \<open>The platform meets the engine's contract\<close>

interpretation server_platform: playbook_platform "platform_deps E" "\<lambda>w i. store_Get i (pf_store w) \<noteq> None"
  "\<lambda>w i. queue_of i (pf_store w)" commander_Enqueue
proof unfold_locales
  fix i k a and w :: platform
  show "dp_Commander (platform_deps E) = Some commander_Enqueue" by (simp add: platform_deps_def)
  show "fst (commander_Enqueue i k a w) = (store_Get i (pf_store w) \<noteq> None)"
    using fleet_queue.enqueue_known [of i "\<lparr>cmd_Kind = k, cmd_Argument = a\<rparr>" "pf_store w"]
    by (simp add: commander_Enqueue_def case_prod_beta)
  show "(\<lambda>j. queue_of j (pf_store (snd (commander_Enqueue i k a w)))) = (\<lambda>j. queue_of j (pf_store w))
      (i := queue_of i (pf_store w) @ (if store_Get i (pf_store w) \<noteq> None then [\<lparr>cmd_Kind = k, cmd_Argument = a\<rparr>] else []))"
    using fleet_queue.enqueue_queue [of i "\<lparr>cmd_Kind = k, cmd_Argument = a\<rparr>" "pf_store w"]
    by (simp add: commander_Enqueue_def case_prod_beta)
  show "(\<lambda>j. store_Get j (pf_store (snd (commander_Enqueue i k a w))) \<noteq> None) = (\<lambda>j. store_Get j (pf_store w) \<noteq> None)"
    by (simp add: commander_Enqueue_def EnqueueCommand_def store_Get_def case_prod_beta split: option.split)
next
  fix name notify n and w :: platform
  assume "dp_Notifier (platform_deps E) = Some (name, notify)"
  then have "notify = (\<lambda>n w. (snd (av_notifier E) n, w\<lparr>pf_sent := pf_sent w @ [n]\<rparr>))" by (simp add: platform_deps_def)
  then show "(\<lambda>j. queue_of j (pf_store (snd (notify n w)))) = (\<lambda>j. queue_of j (pf_store w)) \<and>
      (\<lambda>j. store_Get j (pf_store (snd (notify n w))) \<noteq> None) = (\<lambda>j. store_Get j (pf_store w) \<noteq> None)" by simp
next
  fix opener t sv h ev and w :: platform
  assume "dp_Cases (platform_deps E) = Some opener"
  then have "opener = OpenCase (av_clock E 0)" by (simp add: platform_deps_def)
  then have "pf_store (snd (opener t sv h ev w)) = pf_store w"
    by (simp add: OpenCase_def split: prod.split sum.split)
  then show "(\<lambda>j. queue_of j (pf_store (snd (opener t sv h ev w)))) = (\<lambda>j. queue_of j (pf_store w)) \<and>
      (\<lambda>j. store_Get j (pf_store (snd (opener t sv h ev w))) \<noteq> None) = (\<lambda>j. store_Get j (pf_store w) \<noteq> None)" by simp
qed

lemma recordAlert_queue:
  "queue_of j (sv_store (sr_service (recordAlert E clock r s))) = queue_of j (sv_store (sr_service s)) @
     (if j = ar_AgentID r \<and> se_enabled (sr_soar s) \<and> store_Get j (sv_store (sr_service s)) \<noteq> None
      then playbook_commands (toSoarAlert r) (playbook_List (se_store (sr_soar s))) else [])"
proof -
  obtain e w where ob: "soar_Observe (platform_deps E) clock (toSoarAlert r) (sr_soar s) (platform_of s) = (e, w)" by fastforce
  have "queue_of j (pf_store w) = ((\<lambda>i. queue_of i (pf_store (platform_of s)))
      (ai_AgentID (toSoarAlert r) := queue_of (ai_AgentID (toSoarAlert r)) (pf_store (platform_of s)) @
        (if se_enabled (sr_soar s) \<and> store_Get (ai_AgentID (toSoarAlert r)) (pf_store (platform_of s)) \<noteq> None
         then playbook_commands (toSoarAlert r) (playbook_List (se_store (sr_soar s))) else []))) j"
    using fun_cong [OF server_platform.Observe_queues(2) [OF ob], of j] .
  moreover have "sv_store (sr_service (recordAlert E clock r s)) = pf_store w"
    by (simp add: recordAlert_def ob put_platform_def)
  ultimately show ?thesis by (cases "j = ar_AgentID r") simp_all
qed

text \<open>
  C10. What playbooks ask of an agent is exactly what an alert leads to. When the engine observes an alert, the queue
  of the alert's agent grows by the kill and quarantine commands of the playbooks that are in enforce mode and
  whose trigger the alert meets, in the order of the playbooks' identifiers and of their steps, if the engine is
  enabled and the agent is enrolled, and by nothing otherwise; no other queue changes.
\<close>

theorem playbooks_queue_exactly:
  "queue_of j (sv_store (sr_service (recordAlert E clock r s))) = queue_of j (sv_store (sr_service s)) @
     (if j = ar_AgentID r \<and> se_enabled (sr_soar s) \<and> store_Get j (sv_store (sr_service s)) \<noteq> None
      then playbook_commands (toSoarAlert r) (playbook_List (se_store (sr_soar s))) else [])"
  by (rule recordAlert_queue)

end
