(* ===== verification/Admin_Safety.thy ===== *)
theory Admin_Safety
  imports Admin
begin

text \<open>
  What requests to the admin API can change, who may ask for it and what is written to the audit log.
\<close>

section \<open>What a request can change\<close>

text \<open>The role a request has, and the part of the state that a change must be audited for.\<close>

definition role_of :: "http_request \<Rightarrow> server \<Rightarrow> role" where
  "role_of rq s =
     (if authz_configured (sr_authz s)
      then (case bearerToken rq of None \<Rightarrow> RoleNone | Some t \<Rightarrow> authz_role (sr_authz s) t) else RoleNone)"

definition core :: "server \<Rightarrow> service \<times> case_store \<times> playbookStore \<times> bool \<times> notification list" where
  "core s = (sr_service s, sr_cases s, se_store (sr_soar s), se_enabled (sr_soar s), sr_sent s)"

definition audited :: "admin_env \<Rightarrow> server \<Rightarrow> server \<Rightarrow> bool" where
  "audited E s s' \<longleftrightarrow> (\<exists>now actor action target detail.
     sr_audit s' = snd (audit_record (av_sha E) (av_mac E) now actor action target detail (sr_audit s)))"

definition accountable :: "handler \<Rightarrow> bool" where
  "accountable h \<longleftrightarrow> (\<forall>E rq s. core (snd (h E rq s)) = core s \<and> sr_audit (snd (h E rq s)) = sr_audit s \<or> audited E s (snd (h E rq s)))"

definition authorised :: "handler \<Rightarrow> bool" where
  "authorised h \<longleftrightarrow> (\<forall>E rq s. let s' = snd (h E rq s) in sr_authz s' = sr_authz s \<and>
     (sr_service s' = sr_service s \<or>
      RoleOperator \<le> role_of rq s \<and> (\<exists>c. sr_service s' = (sr_service s)\<lparr>sv_store := snd (EnqueueCommand (path_id rq) c (sv_store (sr_service s)))\<rparr>) \<or>
      RoleAdmin \<le> role_of rq s))"

lemma read_only_fine: "(\<And>E rq s. snd (h E rq s) = s) \<Longrightarrow> accountable h \<and> authorised h"
  by (simp add: accountable_def authorised_def)

lemma fineI:
  "(\<And>E rq s. (core (snd (h E rq s)) = core s \<and> sr_audit (snd (h E rq s)) = sr_audit s \<or> audited E s (snd (h E rq s))) \<and>
      sr_authz (snd (h E rq s)) = sr_authz s \<and> sr_service (snd (h E rq s)) = sr_service s) \<Longrightarrow> accountable h \<and> authorised h"
  by (simp add: accountable_def authorised_def)

lemma server_audit_simps [simp]:
  "sr_service (server_audit E n a b c d s) = sr_service s" "sr_authz (server_audit E n a b c d s) = sr_authz s"
  by (simp_all add: server_audit_def)

lemma server_audit_audited: "sr_audit s1 = sr_audit s \<Longrightarrow> audited E s (server_audit E n a b c d s1)"
  unfolding audited_def by (intro exI) (simp add: server_audit_def)

lemma put_platform_self [simp]: "put_platform (platform_of s) (s\<lparr>sr_soar := e\<rparr>) = s\<lparr>sr_soar := e\<rparr>"
  by (simp add: put_platform_def platform_of_def)

lemma core_simps:
  "se_store e = se_store (sr_soar s) \<Longrightarrow> se_enabled e = se_enabled (sr_soar s) \<Longrightarrow> core (s\<lparr>sr_soar := e\<rparr>) = core s"
  "sr_audit (s\<lparr>sr_soar := e\<rparr>) = sr_audit s" "sr_authz (s\<lparr>sr_soar := e\<rparr>) = sr_authz s" "sr_service (s\<lparr>sr_soar := e\<rparr>) = sr_service s"
  by (simp_all add: core_def)

lemma soar_Test_world: "snd (snd (soar_Test D now i al e w)) = w"
  using dry_playbook_keeps_world [of _ True D now al w] by (simp add: soar_Test_def case_prod_beta split: option.split)

lemma soar_Test_engine: "se_store (fst (snd (soar_Test D now i al e w))) = se_store e" "se_enabled (fst (snd (soar_Test D now i al e w))) = se_enabled e"
  by (simp_all add: soar_Test_def record_run_def case_prod_beta split: option.split)

lemma views_fine:
  "accountable handleHealth \<and> authorised handleHealth" "accountable handleAgents \<and> authorised handleAgents"
  "accountable handleAlerts \<and> authorised handleAlerts" "accountable handleAlertByID \<and> authorised handleAlertByID"
  "accountable handleSignals \<and> authorised handleSignals" "accountable handleRules \<and> authorised handleRules"
  "accountable handleHunt \<and> authorised handleHunt" "accountable handleCases \<and> authorised handleCases"
  "accountable handleCaseByID \<and> authorised handleCaseByID" "accountable handleSOARStatus \<and> authorised handleSOARStatus"
  "accountable handleSOARRuns \<and> authorised handleSOARRuns" "accountable handlePlaybooks \<and> authorised handlePlaybooks"
  "accountable handlePlaybookByID \<and> authorised handlePlaybookByID" "accountable view_endpoint \<and> authorised view_endpoint"
  by (rule read_only_fine, simp add: handleHealth_def handleAgents_def handleAlerts_def handleAlertByID_def handleSignals_def
      handleRules_def handleHunt_def handleCases_def handleCaseByID_def handleSOARStatus_def handleSOARRuns_def
      handlePlaybooks_def handlePlaybookByID_def view_endpoint_def split: option.split sum.split prod.split)+

lemma playbook_endpoints_fine:
  "accountable handleSOAREnable \<and> authorised handleSOAREnable" "accountable handleCreatePlaybook \<and> authorised handleCreatePlaybook"
  "accountable handleUpdatePlaybook \<and> authorised handleUpdatePlaybook" "accountable handleDeletePlaybook \<and> authorised handleDeletePlaybook"
  unfolding accountable_def authorised_def Let_def
  by (simp_all add: handleSOAREnable_def handleCreatePlaybook_def handleUpdatePlaybook_def handleDeletePlaybook_def
      set_playbooks_def server_audit_audited split: option.split sum.split prod.split bool.split)

lemma test_endpoint_fine: "accountable handleTestPlaybook \<and> authorised handleTestPlaybook"
proof (rule fineI, goal_cases)
  case (1 E rq s)
  show ?case
  proof (cases "resolveTestAlert (js_alert E (hq_Body rq)) s")
    case (Some r)
    define t where "t = soar_Test (platform_deps E) (av_clock E 1) (path_id rq) (toSoarAlert r) (sr_soar s) (platform_of s)"
    have t: "snd (snd t) = platform_of s" "se_store (fst (snd t)) = se_store (sr_soar s)" "se_enabled (fst (snd t)) = se_enabled (sr_soar s)"
      unfolding t_def by (rule soar_Test_world soar_Test_engine)+
    have "snd (handleTestPlaybook E rq s) = put_platform (snd (snd t)) (s\<lparr>sr_soar := fst (snd t)\<rparr>)"
      unfolding handleTestPlaybook_def Some option.case t_def by (simp only: case_prod_beta snd_conv)
    then have "snd (handleTestPlaybook E rq s) = s\<lparr>sr_soar := fst (snd t)\<rparr>" unfolding t(1) put_platform_self .
    then show ?thesis using core_simps(1) [OF t(2,3)] by (simp add: core_simps(2-4))
  qed (simp add: handleTestPlaybook_def)
qed

lemma mutateCase_fine:
  assumes "\<And>i m err m'. change i m = (Inl err, m') \<Longrightarrow> m' = m"
  shows "(core (snd (mutateCase E rq a d change s)) = core s \<and> sr_audit (snd (mutateCase E rq a d change s)) = sr_audit s \<or>
      audited E s (snd (mutateCase E rq a d change s))) \<and>
    sr_authz (snd (mutateCase E rq a d change s)) = sr_authz s \<and> sr_service (snd (mutateCase E rq a d change s)) = sr_service s"
  using assms by (auto simp: mutateCase_def core_def server_audit_audited split: prod.split sum.split)

lemma mutate_error: "mutate now i fn m = (Inl err, m') \<Longrightarrow> m' = m"
  by (auto simp: mutate_def Let_def split: option.splits sum.splits)

lemma op_errors:
  "case_Assign now i a m = (Inl err, m') \<Longrightarrow> m' = m" "SetStatus now i st m = (Inl err, m') \<Longrightarrow> m' = m"
  "AddComment now now' i c m = (Inl err, m') \<Longrightarrow> m' = m" "AddEvidence now i ids m = (Inl err, m') \<Longrightarrow> m' = m"
  unfolding case_Assign_def SetStatus_def AddComment_def AddEvidence_def by (rule mutate_error, assumption)+

lemma case_endpoints_fine:
  "accountable handleCreateCase \<and> authorised handleCreateCase" "accountable handleAssignCase \<and> authorised handleAssignCase"
  "accountable handleCaseStatus \<and> authorised handleCaseStatus" "accountable handleCaseComment \<and> authorised handleCaseComment"
  "accountable handleCaseEvidence \<and> authorised handleCaseEvidence"
proof -
  show "accountable handleCreateCase \<and> authorised handleCreateCase"
    by (rule fineI) (simp add: handleCreateCase_def server_audit_audited split: option.split sum.split prod.split)
  show "accountable handleAssignCase \<and> authorised handleAssignCase"
  proof (rule fineI, goal_cases)
    case (1 E rq s)
    show ?case
    proof (cases "js_assignee E (hq_Body rq)")
      case (Some a)
      show ?thesis unfolding handleAssignCase_def Some option.case prod.case_eq_if by (rule mutateCase_fine) (rule op_errors)
    qed (simp add: handleAssignCase_def)
  qed
  show "accountable handleCaseStatus \<and> authorised handleCaseStatus"
  proof (rule fineI, goal_cases)
    case (1 E rq s)
    show ?case
    proof (cases "js_status E (hq_Body rq)")
      case (Some a)
      show ?thesis unfolding handleCaseStatus_def Some option.case prod.case_eq_if by (rule mutateCase_fine) (rule op_errors)
    qed (simp add: handleCaseStatus_def)
  qed
  show "accountable handleCaseEvidence \<and> authorised handleCaseEvidence"
  proof (rule fineI, goal_cases)
    case (1 E rq s)
    show ?case
    proof (cases "js_evidence E (hq_Body rq)")
      case (Some a)
      show ?thesis unfolding handleCaseEvidence_def Some option.case prod.case_eq_if by (rule mutateCase_fine) (rule op_errors)
    qed (simp add: handleCaseEvidence_def)
  qed
  show "accountable handleCaseComment \<and> authorised handleCaseComment"
  proof (rule fineI, goal_cases)
    case (1 E rq s)
    show ?case
    proof (cases "js_comment E (hq_Body rq)")
      case (Some a)
      show ?thesis unfolding handleCaseComment_def Some option.case prod.case_eq_if by (rule mutateCase_fine) (rule op_errors)
    qed (simp add: handleCaseComment_def)
  qed
qed

lemma EnqueueCommand_refused: "EnqueueCommand i c m = (False, m') \<Longrightarrow> m' = m"
  by (auto simp: EnqueueCommand_def split: option.splits)

lemma SetPendingCert_refused: "SetPendingCert i fp m = (False, m') \<Longrightarrow> m' = m"
  by (auto simp: SetPendingCert_def split: option.splits)

lemma Reload_refused: "Reload L sha decode readPolicy D D' p = (Some err, p') \<Longrightarrow> p' = p"
  by (rule Reload_error)

lemma requireRole_eq:
  "requireRole r h E rq s =
     (if \<not> authz_configured (sr_authz s) then
        ((503, ErrorReply ''no admin tokens configured (set --admin-token or --rbac-file)''), s)
      else if role_of rq s = RoleNone then ((401, ErrorReply ''missing or invalid bearer token''), s)
      else if role_of rq s < r then ((403, ErrorReply ''token lacks the required role''), s)
      else h (role_of rq s) E rq s)"
  by (simp add: requireRole_def role_of_def Let_def)

lemma guardI:
  assumes "\<And>role E rq s. core (snd (h role E rq s)) = core s \<and> sr_audit (snd (h role E rq s)) = sr_audit s \<or> audited E s (snd (h role E rq s))"
    and "\<And>role E rq s. sr_authz (snd (h role E rq s)) = sr_authz s"
  shows "accountable (requireRole r h)" and "RoleAdmin \<le> r \<Longrightarrow> authorised (requireRole r h)"
proof -
  show "accountable (requireRole r h)"
    using assms(1) by (simp add: accountable_def requireRole_eq)
  show "authorised (requireRole r h)" if "RoleAdmin \<le> r"
    using assms(2) that by (auto simp: authorised_def requireRole_eq Let_def)
qed

lemma rotate_fine: "accountable (requireRole RoleAdmin handleRotateCert) \<and> authorised (requireRole RoleAdmin handleRotateCert)"
proof -
  have "core (snd (handleRotateCert role E rq s)) = core s \<and> sr_audit (snd (handleRotateCert role E rq s)) = sr_audit s \<or>
      audited E s (snd (handleRotateCert role E rq s))" "sr_authz (snd (handleRotateCert role E rq s)) = sr_authz s" for role E rq s
    using SetPendingCert_refused [of "path_id rq" _ "sv_store (sr_service s)"]
    by (auto simp: handleRotateCert_def core_def server_audit_audited split: option.split sum.split prod.split bool.split)
  then show ?thesis using guardI [of handleRotateCert] by simp
qed

lemma reload_fine: "accountable (requireRole RoleAdmin handleReloadRules) \<and> authorised (requireRole RoleAdmin handleReloadRules)"
proof -
  have "core (snd (handleReloadRules role E rq s)) = core s \<and> sr_audit (snd (handleReloadRules role E rq s)) = sr_audit s \<or>
      audited E s (snd (handleReloadRules role E rq s))" "sr_authz (snd (handleReloadRules role E rq s)) = sr_authz s" for role E rq s
    using Reload_refused [of "av_lib E" "av_digest E" "av_policy E" "av_readPolicy E" "av_dir E" "av_dir' E" "sv_rules (sr_service s)"]
    by (auto simp: handleReloadRules_def core_def server_audit_audited split: option.split prod.split)
  then show ?thesis using guardI [of handleReloadRules] by simp
qed

lemma enqueue_fine: "accountable (requireRole RoleOperator handleEnqueueCommand) \<and> authorised (requireRole RoleOperator handleEnqueueCommand)"
proof -
  have e: "(core (snd (handleEnqueueCommand role E rq s)) = core s \<and> sr_audit (snd (handleEnqueueCommand role E rq s)) = sr_audit s \<or>
      audited E s (snd (handleEnqueueCommand role E rq s))) \<and> sr_authz (snd (handleEnqueueCommand role E rq s)) = sr_authz s \<and>
      (sr_service (snd (handleEnqueueCommand role E rq s)) = sr_service s \<or>
       (\<exists>c. sr_service (snd (handleEnqueueCommand role E rq s)) =
          (sr_service s)\<lparr>sv_store := snd (EnqueueCommand (path_id rq) c (sv_store (sr_service s)))\<rparr>))" for role E rq s
  proof (cases "js_command E (hq_Body rq)")
    case (Some c)
    obtain ok m where ok: "EnqueueCommand (path_id rq) c (sv_store (sr_service s)) = (ok, m)" by fastforce
    let ?s = "s\<lparr>sr_service := (sr_service s)\<lparr>sv_store := m\<rparr>\<rparr>"
    consider "snd (handleEnqueueCommand role E rq s) = s" | "snd (handleEnqueueCommand role E rq s) = ?s" "ok = False"
      | actor action target detail where "snd (handleEnqueueCommand role E rq s) = server_audit E 0 actor action target detail ?s"
      by (cases "case map_of Command_Kind_value (cmd_Kind c) of None \<Rightarrow> True | Some v \<Rightarrow> v = 0"; cases ok)
        (simp_all add: handleEnqueueCommand_def Some ok)
    then show ?thesis
    proof cases
      case 2
      then have "m = sv_store (sr_service s)" using EnqueueCommand_refused ok by simp
      then have "snd (handleEnqueueCommand role E rq s) = s" using 2(1) by simp
      then show ?thesis by simp
    next
      case 3
      have "sv_store (sr_service ?s) = snd (EnqueueCommand (path_id rq) c (sv_store (sr_service s)))" by (simp add: ok)
      then show ?thesis unfolding 3 using server_audit_audited [of ?s s E] by auto
    qed simp
  qed (simp add: handleEnqueueCommand_def)
  have "authorised (requireRole RoleOperator handleEnqueueCommand)"
    unfolding authorised_def Let_def
  proof (intro allI, goal_cases)
    case (1 E rq s)
    show ?case
    proof (cases "authz_configured (sr_authz s) \<and> role_of rq s \<noteq> RoleNone \<and> RoleOperator \<le> role_of rq s")
      case True
      then have "requireRole RoleOperator handleEnqueueCommand E rq s = handleEnqueueCommand (role_of rq s) E rq s"
        by (simp add: requireRole_eq)
      then show ?thesis using e [of "role_of rq s" E rq s] True by auto
    next
      case False
      then have "snd (requireRole RoleOperator handleEnqueueCommand E rq s) = s"
        by (auto simp: requireRole_eq)
      then show ?thesis by simp
    qed
  qed
  then show ?thesis using guardI(1) [of handleEnqueueCommand RoleOperator] e by simp
qed

lemmas endpoints_fine = views_fine playbook_endpoints_fine test_endpoint_fine case_endpoints_fine rotate_fine reload_fine enqueue_fine

lemma routes_fine: "list_all (\<lambda>(m, p, h). accountable h \<and> authorised h) mux_routes"
  by (simp add: mux_routes_def endpoints_fine)

lemma find_mem: "List.find P xs = Some x \<Longrightarrow> x \<in> set xs"
  by (induction xs) (auto split: if_splits)

lemma serve_fine: "accountable admin_serve" "authorised admin_serve"
proof -
  have fine: "accountable h \<and> authorised h" if "List.find P mux_routes = Some (m, p, h)" for P m p h
    using routes_fine find_mem [OF that] by (auto simp: list_all_iff)
  have h: "(\<exists>h. accountable h \<and> authorised h \<and> admin_serve E rq s = h E rq s) \<or> snd (admin_serve E rq s) = s" for E rq s
  proof (cases "List.find (\<lambda>(m, p, h). method_serves m (hq_Method rq) \<and> path_serves p (hq_Path rq)) mux_routes")
    case (Some x)
    obtain m p h where x: "x = (m, p, h)" by (cases x)
    have "admin_serve E rq s = h E rq s" unfolding admin_serve_def Some x by simp
    then show ?thesis using fine [OF Some [unfolded x]] by blast
  qed (simp add: admin_serve_def)
  show "accountable admin_serve" unfolding accountable_def using h accountable_def by metis
  show "authorised admin_serve" unfolding authorised_def Let_def using h unfolding authorised_def Let_def by metis
qed

text \<open>
  C8. Authorisation is complete for what reaches the fleet directly. Whatever the request, if it changes the fleet
  service (agents, their certificates and command queues, the served rules), then tokens are configured and the
  request's token was granted a role: an operator's at least, and then the change is one command queued for the
  agent of the path, or an administrator's.
\<close>

theorem fleet_changes_need_a_role:
  assumes "sr_service (snd (admin_serve E rq s)) \<noteq> sr_service s"
  shows "(\<exists>t g. bearerToken rq = Some t \<and> g \<in> set (sr_authz s) \<and> gr_token g = t \<and> RoleOperator \<le> gr_role g \<and>
      ((\<exists>c. sr_service (snd (admin_serve E rq s)) =
          (sr_service s)\<lparr>sv_store := snd (EnqueueCommand (path_id rq) c (sv_store (sr_service s)))\<rparr>) \<or> RoleAdmin \<le> gr_role g))"
proof -
  have r: "RoleOperator \<le> role_of rq s \<and> (\<exists>c. sr_service (snd (admin_serve E rq s)) =
      (sr_service s)\<lparr>sv_store := snd (EnqueueCommand (path_id rq) c (sv_store (sr_service s)))\<rparr>) \<or> RoleAdmin \<le> role_of rq s"
    using serve_fine(2) assms unfolding authorised_def Let_def by blast
  then have "RoleNone < role_of rq s" by (auto simp: RoleOperator_def RoleAdmin_def RoleNone_def)
  then obtain t where t: "bearerToken rq = Some t" "role_of rq s = authz_role (sr_authz s) t"
    by (auto simp: role_of_def split: if_splits option.splits)
  have grant: "\<exists>g \<in> set (sr_authz s). gr_token g = t \<and> k \<le> gr_role g" if "k \<le> role_of rq s" "RoleNone < k" for k
    using that t(2) authz_role_ge by simp
  show ?thesis
  proof (cases "RoleAdmin \<le> role_of rq s")
    case True
    then obtain g where "g \<in> set (sr_authz s)" "gr_token g = t" "RoleAdmin \<le> gr_role g"
      using grant [of RoleAdmin] by (auto simp: RoleAdmin_def RoleNone_def)
    then show ?thesis using t(1) by (auto simp: RoleAdmin_def RoleOperator_def)
  next
    case False
    then obtain g where "g \<in> set (sr_authz s)" "gr_token g = t" "RoleOperator \<le> gr_role g"
      using r grant [of RoleOperator] by (auto simp: RoleOperator_def RoleNone_def)
    then show ?thesis using t(1) r False by auto
  qed
qed

text \<open>
  C9. Every change is on the record. A request that changes the fleet service, the cases, the playbooks or the switch
  of the playbook engine, or that sends a notification, adds exactly one entry to the audit log.
\<close>

theorem changes_are_audited:
  assumes "core (snd (admin_serve E rq s)) \<noteq> core s"
  shows "audited E s (snd (admin_serve E rq s))"
  using serve_fine(1) assms unfolding accountable_def by blast

end
