(* ===== verification/Admin_Open.thy ===== *)
theory Admin_Open
  imports Admin_Safety
begin

text \<open>
  Concrete requests to the admin API, and what the playbook endpoints, which ask for no token, allow.
\<close>

section \<open>Concrete requests\<close>

definition request_to :: "string \<Rightarrow> string list \<Rightarrow> string \<Rightarrow> string \<Rightarrow> http_request" where
  "request_to method path auth body = \<lparr>hq_Method = method, hq_Path = path, hq_Query = [], hq_Authorization = auth, hq_Body = body,
     hq_RemoteAddr = ''10.0.0.9:4711''\<rparr>"

lemma serve_routes:
  "i \<noteq> [] \<Longrightarrow> admin_serve E (request_to ''POST'' [''api'', ''agents'', i, ''commands''] auth body) s =
     requireRole RoleOperator handleEnqueueCommand E (request_to ''POST'' [''api'', ''agents'', i, ''commands''] auth body) s"
  "admin_serve E (request_to ''POST'' [''api'', ''soar'', ''enable''] auth body) s = handleSOAREnable E (request_to ''POST'' [''api'', ''soar'', ''enable''] auth body) s"
  "admin_serve E (request_to ''POST'' [''api'', ''playbooks''] auth body) s = handleCreatePlaybook E (request_to ''POST'' [''api'', ''playbooks''] auth body) s"
  by (simp_all add: admin_serve_def mux_routes_def method_serves_def path_serves_def request_to_def)

text \<open>The bodies of the requests, as JSON text, and a decoder that accepts these and nothing else.\<close>

definition command_body :: string where
  "command_body = ''{\"kind\":\"KILL_PROCESS\",\"argument\":\"7\"}''"

definition enable_body :: string where
  "enable_body = ''{\"enabled\":true}''"

definition playbook_body :: string where
  "playbook_body = ''{\"name\":\"contain\",\"mode\":\"enforce\",\"trigger\":{},\"steps\":[{\"type\":\"kill_process\"}]}''"

definition sample_env :: admin_env where
  "sample_env = \<lparr>av_clock = int, av_sha = (\<lambda>_. 0), av_mac = (\<lambda>_ _. 0), av_lib = literal_lib, av_digest = id, av_dir = sample_dir,
     av_dir' = sample_dir, av_policy = (\<lambda>_. None), av_readPolicy = (\<lambda>_. None), av_issuer = None, av_notifier = (''none'', \<lambda>_. None),
     av_lake = None, av_ranged = id, av_duration = (\<lambda>_. Inl []), av_arrange = id, av_time = (\<lambda>_. None),
     js_command = [command_body \<mapsto> \<lparr>cmd_Kind = ''KILL_PROCESS'', cmd_Argument = ''7''\<rparr>], js_enabled = [enable_body \<mapsto> True],
     js_playbook = [playbook_body \<mapsto> kill_playbook ''enforce''], js_alert = id, js_case = (\<lambda>_. None), js_assignee = (\<lambda>_. None),
     js_status = (\<lambda>_. None), js_comment = (\<lambda>_. None), js_evidence = (\<lambda>_. None), js_hunt = (\<lambda>_. None), av_view = (\<lambda>_ _. (200, TextReply []))\<rparr>"

definition sample_server :: server where
  "sample_server = \<lparr>sr_service = sample_enrolled, sr_ttl = 90, sr_authz = [\<lparr>gr_token = ''t'', gr_role = RoleOperator\<rparr>],
     sr_cases = new_case_store, sr_soar = new_soar_engine, sr_sent = [], sr_audit = newAuditLog None [], sr_signals = []\<rparr>"

definition sample_kill :: http_request where
  "sample_kill = request_to ''POST'' [''api'', ''agents'', NewID 7, ''commands''] ''Bearer t'' command_body"

lemma sample_kill_served:
  "queue_of (NewID 7) (sv_store (sr_service (snd (admin_serve sample_env sample_kill sample_server)))) =
     queue_of (NewID 7) (sv_store sample_enrolled) @ [\<lparr>cmd_Kind = ''KILL_PROCESS'', cmd_Argument = ''7''\<rparr>]"
proof -
  have role: "role_of sample_kill sample_server = RoleOperator"
    by (simp add: role_of_def sample_kill_def sample_server_def authz_configured_def bearerToken_def cut_prefix_def request_to_def
        has_prefix_def authz_role_def RoleOperator_def RoleNone_def)
  have serve: "admin_serve sample_env sample_kill sample_server = handleEnqueueCommand RoleOperator sample_env sample_kill sample_server"
    unfolding sample_kill_def serve_routes(1) [OF NewID_nonempty] using role
    by (simp add: requireRole_eq sample_server_def authz_configured_def RoleOperator_def RoleNone_def flip: sample_kill_def)
  obtain ag where "store_Get (NewID 7) (sv_store sample_enrolled) = Some ag" using sample_enrolled_agent by blast
  then show ?thesis
    unfolding serve
    by (simp add: handleEnqueueCommand_def sample_env_def sample_kill_def sample_server_def Command_Kind_value_def request_to_def path_id_def
        EnqueueCommand_def store_Get_def queue_of_def)
qed

lemma sample_kill_changes: "sr_service (snd (admin_serve sample_env sample_kill sample_server)) \<noteq> sr_service sample_server"
proof
  assume "sr_service (snd (admin_serve sample_env sample_kill sample_server)) = sr_service sample_server"
  then show False using sample_kill_served by (simp add: sample_server_def)
qed

theorem fleet_changes_need_a_role_witness:
  "\<exists>t g. bearerToken sample_kill = Some t \<and> g \<in> set (sr_authz sample_server) \<and> gr_token g = t \<and> RoleOperator \<le> gr_role g"
  using fleet_changes_need_a_role [OF sample_kill_changes] by blast

theorem changes_are_audited_witness:
  "audited sample_env sample_server (snd (admin_serve sample_env sample_kill sample_server))"
proof -
  have "core (snd (admin_serve sample_env sample_kill sample_server)) \<noteq> core sample_server"
    using sample_kill_changes by (simp add: core_def)
  then show ?thesis by (rule changes_are_audited)
qed

section \<open>What the open endpoints allow\<close>

text \<open>
  C37. The playbook endpoints ask for no token. Two requests without one, whose JSON bodies enable the engine and
  create a playbook in enforce mode that kills on every alert, are enough for a kill command: the next alert of an
  enrolled agent with a risk score that is not negative queues one for the process it names, also when no token is
  configured at all. What the JSON decoder makes of the two bodies is a hypothesis.
\<close>

theorem kill_without_a_token:
  assumes "js_enabled E enable_body = Some True" and "js_playbook E playbook_body = Some (kill_playbook ''enforce'')"
    and "store_Get (ar_AgentID r) (sv_store (sr_service s)) \<noteq> None" and "0 \<le> ar_RiskScore r"
  shows "let s1 = snd (admin_serve E (request_to ''POST'' [''api'', ''soar'', ''enable''] [] enable_body) s);
             s2 = snd (admin_serve E (request_to ''POST'' [''api'', ''playbooks''] [] playbook_body) s1);
             s3 = recordAlert E clock r s2
         in \<lparr>cmd_Kind = ''KILL_PROCESS'', cmd_Argument = word_str (ar_PID r)\<rparr> \<in> set (queue_of (ar_AgentID r) (sv_store (sr_service s3)))"
proof -
  define s1 where "s1 = snd (admin_serve E (request_to ''POST'' [''api'', ''soar'', ''enable''] [] enable_body) s)"
  define s2 where "s2 = snd (admin_serve E (request_to ''POST'' [''api'', ''playbooks''] [] playbook_body) s1)"
  have s1: "sr_service s1 = sr_service s" "se_enabled (sr_soar s1)"
    unfolding s1_def serve_routes by (simp_all add: handleSOAREnable_def request_to_def assms(1) server_audit_def SetEnabled_def)
  define p where "p = (kill_playbook ''enforce'')\<lparr>pb_ID := ''PB-'' @ pad4 (add_int64 (ps_seq (se_store (sr_soar s1))) 1),
      pb_Created := av_clock E 0, pb_Updated := av_clock E 0\<rparr>"
  have valid: "playbook_validate (kill_playbook ''enforce'') = None" "safe_mode (kill_playbook ''enforce'') = kill_playbook ''enforce''"
    by (simp_all add: playbook_validate_def kill_playbook_def trim_space_def is_space_def validMode_def validStepType_def safe_mode_def)
  have s2: "sr_service s2 = sr_service s1" "se_enabled (sr_soar s2) = se_enabled (sr_soar s1)"
      "ps_byID (se_store (sr_soar s2)) = AList.update (pb_ID p) p (ps_byID (se_store (sr_soar s1)))"
    unfolding s2_def serve_routes
    by (simp_all add: handleCreatePlaybook_def request_to_def assms(2) playbook_Create_def valid Let_def server_audit_def set_playbooks_def p_def)
  have "map_of (ps_byID (se_store (sr_soar s2))) (pb_ID p) = Some p"
    unfolding s2(3) by (simp only: update_conv' fun_upd_same)
  then have "p \<in> snd ` set (ps_byID (se_store (sr_soar s2)))"
    by (rule image_eqI [OF _ map_of_SomeD, rotated]) simp
  then have "p \<in> set (playbook_List (se_store (sr_soar s2)))"
    by (simp only: playbook_List_def set_sort set_map)
  moreover have "enforced (toSoarAlert r) p"
    using assms(4) by (simp add: enforced_def p_def kill_playbook_def trigger_matches_def any_trigger_def toSoarAlert_def)
  moreover have "\<lparr>cmd_Kind = ''KILL_PROCESS'', cmd_Argument = word_str (ar_PID r)\<rparr> \<in>
      set (concat (map (step_command (toSoarAlert r)) (pb_Steps p)))"
    by (simp add: p_def kill_playbook_def step_command_def)
  ultimately have "\<lparr>cmd_Kind = ''KILL_PROCESS'', cmd_Argument = word_str (ar_PID r)\<rparr> \<in>
      set (playbook_commands (toSoarAlert r) (playbook_List (se_store (sr_soar s2))))"
    unfolding playbook_commands_def by auto
  then have "\<lparr>cmd_Kind = ''KILL_PROCESS'', cmd_Argument = word_str (ar_PID r)\<rparr> \<in>
      set (queue_of (ar_AgentID r) (sv_store (sr_service (recordAlert E clock r s2))))"
    unfolding recordAlert_queue using assms(3) s1 s2(1,2) by simp
  then show ?thesis by (simp add: Let_def flip: s1_def s2_def)
qed

definition sample_record :: alertRecord where
  "sample_record = \<lparr>ar_ID = [], ar_AgentID = NewID 7, ar_Hostname = ''web'', ar_Time = 5, ar_RuleID = ''R1'', ar_RuleName = ''shell'',
     ar_Severity = ''high'', ar_TechniqueID = [], ar_TechniqueName = [], ar_PID = 42, ar_ProcessName = [], ar_ProcessExecutable = [],
     ar_DestinationIP = [], ar_RiskScore = 10, ar_IsIncident = False\<rparr>"

theorem kill_without_a_token_witness:
  "let s = sample_server\<lparr>sr_authz := []\<rparr>;
       s1 = snd (admin_serve sample_env (request_to ''POST'' [''api'', ''soar'', ''enable''] [] enable_body) s);
       s2 = snd (admin_serve sample_env (request_to ''POST'' [''api'', ''playbooks''] [] playbook_body) s1);
       s3 = recordAlert sample_env (\<lambda>_. 0) sample_record s2
   in \<lparr>cmd_Kind = ''KILL_PROCESS'', cmd_Argument = ''42''\<rparr> \<in> set (queue_of (NewID 7) (sv_store (sr_service s3)))"
proof -
  obtain ag where "store_Get (NewID 7) (sv_store sample_enrolled) = Some ag" using sample_enrolled_agent by blast
  then have a: "store_Get (ar_AgentID sample_record) (sv_store (sr_service (sample_server\<lparr>sr_authz := []\<rparr>))) \<noteq> None"
    by (simp add: sample_record_def sample_server_def)
  have pid: "word_str (ar_PID sample_record) = ''42''" by code_simp
  have e: "js_enabled sample_env enable_body = Some True" "js_playbook sample_env playbook_body = Some (kill_playbook ''enforce'')" "0 \<le> ar_RiskScore sample_record"
    by (simp_all add: sample_env_def sample_record_def)
  have agent: "ar_AgentID sample_record = NewID 7" by (simp add: sample_record_def)
  show ?thesis
    using kill_without_a_token [OF e(1,2) a e(3), of "\<lambda>_. 0"] unfolding Let_def pid agent .
qed

section \<open>Cases that playbooks open\<close>

text \<open>\<open>evidence_free w w'\<close>: what cases \<open>w'\<close> has beyond those of \<open>w\<close> hold no evidence.\<close>

definition evidence_free :: "platform \<Rightarrow> platform \<Rightarrow> bool" where
  "evidence_free w w' \<longleftrightarrow> (\<forall>i c. case_Get i (pf_cases w') = Some c \<longrightarrow> case_Get i (pf_cases w) = Some c \<or> c_Evidence c = [])"

lemma evidence_free_refl: "pf_cases w' = pf_cases w \<Longrightarrow> evidence_free w w'"
  by (simp add: evidence_free_def)

lemma evidence_free_trans: "evidence_free w w' \<Longrightarrow> evidence_free w' w'' \<Longrightarrow> evidence_free w w''"
  unfolding evidence_free_def by blast

lemma OpenCase_evidence_free: "evidence_free w (snd (OpenCase now t sv h [] w))"
proof -
  have "case_Get i (snd (case_Create now input m)) = Some c \<Longrightarrow> in_Evidence input = [] \<Longrightarrow> case_Get i m = Some c \<or> c_Evidence c = []"
    for i c input m
    by (auto simp: case_Create_def case_Get_def Let_def update_conv' dedupeAppend_def split: option.splits if_splits)
  then show ?thesis unfolding OpenCase_def evidence_free_def by (simp split: prod.split sum.split) (metis createInput.select_convs(5) snd_conv)
qed

lemma executeStep_evidence_free:
  assumes "ai_AlertID al = []"
  shows "evidence_free w (snd (executeStep (platform_deps E) st al dryRun w))"
proof -
  have notify: "pf_cases (snd (doNotify (platform_deps E) al w)) = pf_cases w"
    by (simp add: doNotify_def platform_deps_def Let_def)
  have cmd: "pf_cases (snd (doCommand (platform_deps E) i k a d w)) = pf_cases w" for i k a d
    by (simp add: doCommand_def platform_deps_def Let_def commander_Enqueue_def split: prod.split bool.split)
  let ?o = "OpenCase (av_clock E 0) (if ai_RuleName al = [] then ''Incident on '' @ ai_Hostname al else ai_RuleName al) (ai_Severity al) (ai_Hostname al) [] w"
  have "snd (doOpenCase (platform_deps E) al w) = snd ?o"
    by (cases ?o; cases "fst ?o") (simp_all add: doOpenCase_def platform_deps_def Let_def assms)
  then have "evidence_free w (snd (doOpenCase (platform_deps E) al w))" by (simp add: OpenCase_evidence_free)
  then show ?thesis
    using evidence_free_refl notify cmd unfolding executeStep_def by simp
qed

lemma execute_steps_evidence_free:
  "ai_AlertID al = [] \<Longrightarrow> evidence_free w (snd (execute_steps (platform_deps E) ss al dryRun w))"
proof (induction ss arbitrary: w)
  case (Cons st ss)
  show ?case
    using evidence_free_trans [OF executeStep_evidence_free [OF Cons.prems] Cons.IH [OF Cons.prems]] by (simp add: case_prod_beta)
qed (simp add: evidence_free_refl)

lemma observe_loop_evidence_free:
  "ai_AlertID al = [] \<Longrightarrow> evidence_free w (snd (observe_loop (platform_deps E) clock al ps e w))"
proof (induction ps arbitrary: e w)
  case (Cons p ps)
  have "evidence_free w (snd (runPlaybook (platform_deps E) (clock (pb_ID p)) p al False w))"
    using execute_steps_evidence_free [OF Cons.prems] by (simp add: runPlaybook_def Let_def case_prod_beta)
  from evidence_free_trans [OF this Cons.IH [OF Cons.prems]] show ?case
    using Cons.IH [OF Cons.prems] by (simp add: case_prod_beta)
qed (simp add: evidence_free_refl)

lemma fold_recordSignal_cases: "sr_cases (fold recordSignal ss s) = sr_cases s"
  by (induction ss arbitrary: s) (simp_all add: recordSignal_def)

text \<open>
  C38. The service assigns an identifier to the record it stores, but hands its hook the record without one, so a case
  that a playbook opens for a reported alert never holds the alert as evidence: after a report, every case is a
  case from before or has no evidence.
\<close>

theorem playbook_cases_lack_evidence:
  assumes "server_report E clock rnd now fp rp st s = (Inr st', s')" and "case_Get i (sr_cases s') = Some c"
  shows "case_Get i (sr_cases s) = Some c \<or> c_Evidence c = []"
proof -
  obtain r signals sv where rr: "report_round rnd now fp rp st (sr_service s) = (Inr (st', r, signals), sv)"
      "s' = fold recordSignal signals (recordAlert E clock r (s\<lparr>sr_service := sv\<rparr>))"
    using assms(1) by (auto simp: server_report_def split: prod.splits sum.splits)
  have "r = recordFromReport rp" using rr(1) by (auto simp: report_round_def Let_def split: if_splits prod.splits sum.splits option.splits)
  then have noid: "ai_AlertID (toSoarAlert r) = []" by (simp add: recordFromReport_def)
  let ?s = "s\<lparr>sr_service := sv\<rparr>"
  have "sr_cases s' = pf_cases (snd (soar_Observe (platform_deps E) clock (toSoarAlert r) (sr_soar ?s) (platform_of ?s)))"
    unfolding rr(2) fold_recordSignal_cases by (simp add: recordAlert_def put_platform_def case_prod_beta)
  moreover have "evidence_free (platform_of ?s) (snd (soar_Observe (platform_deps E) clock (toSoarAlert r) (sr_soar ?s) (platform_of ?s)))"
    unfolding soar_Observe_def using observe_loop_evidence_free [OF noid] evidence_free_refl by simp
  ultimately show ?thesis using assms(2) by (simp add: evidence_free_def)
qed

text \<open>
  A server with one enforcing playbook whose only step opens a case, and the case it opens for a report of the enrolled agent.
\<close>

definition case_playbook :: playbook where
  "case_playbook = (kill_playbook ''enforce'')\<lparr>pb_ID := ''PB-0001'', pb_Steps := [\<lparr>st_Type = ''open_case'', st_Query = []\<rparr>]\<rparr>"

definition case_server :: server where
  "case_server = sample_server\<lparr>sr_soar := \<lparr>se_store = \<lparr>ps_seq = 1, ps_byID = [(''PB-0001'', case_playbook)]\<rparr>, se_enabled = True, se_runs = []\<rparr>\<rparr>"

lemma case_server_opens:
  assumes "pf_cases w = new_case_store"
  shows "pf_cases (snd (soar_Observe (platform_deps sample_env) clock (toSoarAlert (recordFromReport (forged i ''web'' t))) (sr_soar case_server) w)) =
    snd (case_Create 0 \<lparr>in_Title = ''Incident on web'', in_Severity = [], in_Host = ''web'', in_Tags = [], in_Evidence = []\<rparr> new_case_store)"
proof -
  let ?al = "toSoarAlert (recordFromReport (forged i ''web'' t))"
  have al: "ai_RuleName ?al = []" "ai_Hostname ?al = ''web''" "ai_Severity ?al = []" "ai_AlertID ?al = []" "ai_RiskScore ?al = 0"
      "ar_ID (recordFromReport (forged i ''web'' t)) = []"
    by (simp_all add: toSoarAlert_def recordFromReport_def forged_def)
  have ps: "playbook_List (se_store (sr_soar case_server)) = [case_playbook]" "se_enabled (sr_soar case_server)"
    by (simp_all add: case_server_def playbook_List_def)
  have p: "pb_Mode case_playbook = ''enforce''" "trigger_matches (pb_Trigger case_playbook) ?al"
      "pb_Steps case_playbook = [\<lparr>st_Type = ''open_case'', st_Query = []\<rparr>]"
    by (simp_all add: case_playbook_def kill_playbook_def trigger_matches_def any_trigger_def al)
  have ok: "validateCreate \<lparr>in_Title = ''Incident on web'', in_Severity = [], in_Host = ''web'', in_Tags = [], in_Evidence = []\<rparr> = None"
    by (simp add: validateCreate_def trim_space_def is_space_def)
  have "pf_cases (snd (doOpenCase (platform_deps sample_env) ?al w)) =
      snd (case_Create 0 \<lparr>in_Title = ''Incident on web'', in_Severity = [], in_Host = ''web'', in_Tags = [], in_Evidence = []\<rparr> new_case_store)"
    by (simp add: doOpenCase_def platform_deps_def al Let_def OpenCase_def case_Create_def ok assms sample_env_def)
  then show ?thesis
    by (simp add: soar_Observe_def ps p runPlaybook_def Let_def case_prod_beta executeStep_def)
qed

theorem playbook_cases_lack_evidence_witness:
  "\<exists>st' s' c. server_report sample_env (\<lambda>_. 0) 9 5 ''aa'' (forged (NewID 7) ''web'' 5) new_stream case_server = (Inr st', s') \<and>
     case_Get ''CASE-0001'' (sr_cases s') = Some c \<and> c_Evidence c = []"
proof -
  let ?rp = "forged (NewID 7) ''web'' 5"
  obtain ag where ag: "store_Get (NewID 7) (sv_store sample_enrolled) = Some ag" "ag_CertFingerprint ag = ''aa''"
    using sample_enrolled_agent by blast
  have sv: "sr_service case_server = sample_enrolled" by (simp add: case_server_def sample_server_def)
  have "authorizeIdentity (rp_AgentId ?rp) ''aa'' sample_enrolled = (Inr ag, sample_enrolled)"
    by (simp add: authorizeIdentity_def ag forged_def)
  then obtain st' sigs sv where rr: "report_round 9 5 ''aa'' ?rp new_stream (sr_service case_server) = (Inr (st', recordFromReport ?rp, sigs), sv)"
    unfolding report_round_def sv
    by (cases "sv_correlator sample_enrolled")
      (auto simp: new_stream_def Let_def case_prod_beta)
  define s' where "s' = fold recordSignal sigs (recordAlert sample_env (\<lambda>_. 0) (recordFromReport ?rp) (case_server\<lparr>sr_service := sv\<rparr>))"
  have rep: "server_report sample_env (\<lambda>_. 0) 9 5 ''aa'' ?rp new_stream case_server = (Inr st', s')"
    by (simp add: server_report_def rr s'_def)
  have "pf_cases (platform_of (case_server\<lparr>sr_service := sv\<rparr>)) = new_case_store" by (simp add: case_server_def sample_server_def)
  from case_server_opens [OF this, of "\<lambda>_. 0" "NewID 7" 5]
  have cases: "sr_cases s' = snd (case_Create 0 \<lparr>in_Title = ''Incident on web'', in_Severity = [], in_Host = ''web'', in_Tags = [], in_Evidence = []\<rparr> new_case_store)"
    by (simp add: s'_def fold_recordSignal_cases recordAlert_def put_platform_def case_prod_beta)
  have "case_Get ''CASE-0001'' (snd (case_Create 0 \<lparr>in_Title = ''Incident on web'', in_Severity = [], in_Host = ''web'', in_Tags = [], in_Evidence = []\<rparr> new_case_store)) \<noteq> None"
    by code_simp
  then obtain c where c: "case_Get ''CASE-0001'' (sr_cases s') = Some c" unfolding cases by blast
  have "case_Get ''CASE-0001'' (sr_cases case_server) \<noteq> Some c"
    by (simp add: case_server_def sample_server_def case_Get_def new_case_store_def)
  then show ?thesis using playbook_cases_lack_evidence [OF rep c] rep c by blast
qed

end
