(* ===== verification/Sigma.thy ===== *)
theory Sigma
  imports Detect_Engine
begin

text \<open>
  The importer of Sigma rules: \<^verbatim>\<open>internal/sigma\<close> (\<^verbatim>\<open>rule.go\<close>, \<^verbatim>\<open>mapping.go\<close>, \<^verbatim>\<open>condition.go\<close>, \<^verbatim>\<open>detection.go\<close>,
  \<^verbatim>\<open>sigma.go\<close>) and the conversion loop of \<^verbatim>\<open>cmd/argus/sigma.go\<close>. YAML decoding and SHA-1 are fields of \<open>sigma_lib\<close>;
  a node of the YAML tree is its kind, tag, text and children. A Go map is ranged over in the order of its
  association list. The recursion of the condition parser runs on fuel; that it does not run out, and that the
  parser accepts exactly the expressions of a grammar, is proved in the theory of the grammar.
\<close>

section \<open>Rule documents (rule.go)\<close>

datatype condDoc = CondDoc
  (cd_All: "condDoc list") (cd_Any: "condDoc list") (cd_Not: "condDoc option")
  (cd_Field: string) (cd_Op: string) (cd_Value: any)

record sigma_doc =
  sd_ID :: string
  sd_Name :: string
  sd_Description :: string
  sd_Severity :: string
  sd_Technique :: "technique option"
  sd_RiskScore :: int
  sd_Match :: condDoc

definition sigma_leaf :: "string \<Rightarrow> string \<Rightarrow> any \<Rightarrow> condDoc" where
  "sigma_leaf field op value = CondDoc [] [] None field op value"

definition allOf :: "condDoc list \<Rightarrow> condDoc" where
  "allOf children = (case children of [c] \<Rightarrow> c | _ \<Rightarrow> CondDoc children [] None [] [] ANil)"

definition anyOf :: "condDoc list \<Rightarrow> condDoc" where
  "anyOf children = (case children of [c] \<Rightarrow> c | _ \<Rightarrow> CondDoc [] children None [] [] ANil)"

definition notOf :: "condDoc \<Rightarrow> condDoc" where
  "notOf c = CondDoc [] [] (Some c) [] [] ANil"

section \<open>YAML and errors\<close>

datatype yaml_kind = DocumentNode | SequenceNode | MappingNode | ScalarNode | AliasNode

datatype yaml_node = YNode
  (yn_Kind: yaml_kind) (yn_Tag: string) (yn_Value: string) (yn_Content: "yaml_node list")

record sigmaRule =
  sg_Title :: string
  sg_ID :: string
  sg_Description :: string
  sg_Level :: string
  sg_Tags :: "string list"
  sg_Category :: string
  sg_Product :: string
  sg_Detection :: "(string, yaml_node) gomap"

text \<open>
  Decoding a document, and a node into a value of any type, a string or a list of strings; \<open>None\<close> is an error.
\<close>

record sigma_lib =
  sl_unmarshal :: "string \<Rightarrow> sigmaRule option"
  sl_any :: "yaml_node \<Rightarrow> any option"
  sl_string :: "yaml_node \<Rightarrow> string option"
  sl_strings :: "yaml_node \<Rightarrow> string list option"
  sl_sha1 :: "string \<Rightarrow> uint8 list"

datatype sigma_error =
    Unsupported string
  | SigmaError string
  | InvalidRegex any
  | InvalidCidr any
  | DecodeValue
  | ParseRule
  | InSelection string sigma_error
  | SigmaFuel

fun IsUnsupported :: "sigma_error \<Rightarrow> bool" where
  "IsUnsupported (Unsupported reason) = True"
| "IsUnsupported (InSelection name err) = IsUnsupported err"
| "IsUnsupported err = False"

section \<open>Tables (mapping.go)\<close>

definition categoryActions :: "(string, string) gomap" where
  "categoryActions = [(''process_creation'', ''exec''), (''network_connection'', ''connect''), (''dns_query'', ''connect''),
     (''file_event'', ''open''), (''file_change'', ''chmod''), (''file_delete'', ''unlink''), (''file_rename'', ''rename'')]"

definition sigmaFields :: "(string, string) gomap" where
  "sigmaFields = [(''image'', ''process.executable''), (''originalfilename'', ''process.name''),
     (''commandline'', ''process.command_line''), (''parentimage'', ''process.parent.executable''),
     (''parentprocessname'', ''process.parent.name''), (''user'', ''user.name''), (''username'', ''user.name''),
     (''processid'', ''process.pid''), (''parentprocessid'', ''process.ppid''), (''sha256'', ''process.hash.sha256''),
     (''destinationip'', ''destination.ip''), (''destinationport'', ''destination.port''), (''sourceip'', ''source.ip''),
     (''sourceport'', ''source.port''), (''destinationhostname'', ''dns.question.name''), (''query'', ''dns.question.name''),
     (''queryname'', ''dns.question.name''), (''targetfilename'', ''file.path''), (''filename'', ''file.path'')]"

definition argusField :: "string \<Rightarrow> string option" where
  "argusField name = map_of sigmaFields (to_lower name)"

definition levelSeverities :: "(string, string) gomap" where
  "levelSeverities = [(''informational'', ''low''), (''low'', ''low''), (''medium'', ''medium''), (''high'', ''high''),
     (''critical'', ''critical'')]"

definition severityRisks :: "(string, int) gomap" where
  "severityRisks = [(''low'', 25), (''medium'', 50), (''high'', 70), (''critical'', 90)]"

definition severityFor :: "string \<Rightarrow> string" where
  "severityFor level = (case map_of levelSeverities (to_lower level) of Some severity \<Rightarrow> severity | None \<Rightarrow> ''medium'')"

definition tacticTags :: "(string, string) gomap" where
  "tacticTags = [(''initial_access'', ''initial-access''), (''execution'', ''execution''), (''persistence'', ''persistence''),
     (''privilege_escalation'', ''privilege-escalation''), (''defense_evasion'', ''defense-evasion''),
     (''credential_access'', ''credential-access''), (''discovery'', ''discovery''), (''lateral_movement'', ''lateral-movement''),
     (''collection'', ''collection''), (''command_and_control'', ''command-and-control''), (''exfiltration'', ''exfiltration''),
     (''impact'', ''impact''), (''reconnaissance'', ''reconnaissance''), (''resource_development'', ''resource-development'')]"

text \<open>The submatch of \<^verbatim>\<open>^attack\.(t\d{4}(?:\.\d{3})?)$\<close>.\<close>

definition technique_id :: "string \<Rightarrow> bool" where
  "technique_id m = (case m of [] \<Rightarrow> False
     | t # ds \<Rightarrow> t = CHR ''t'' \<and> list_all is_digit (take 4 ds) \<and>
         (length ds = 4 \<or> length ds = 8 \<and> ds ! 4 = CHR ''.'' \<and> list_all is_digit (drop 5 ds)))"

definition techniqueTag :: "string \<Rightarrow> string option" where
  "techniqueTag tag = (if has_prefix tag ''attack.'' \<and> technique_id (drop 7 tag) then Some (drop 7 tag) else None)"

fun technique_loop :: "string list \<Rightarrow> technique \<Rightarrow> technique" where
  "technique_loop [] doc = doc"
| "technique_loop (t # tags) doc =
     (let tag = to_lower (trim_space t) in
      case techniqueTag tag of
        Some match \<Rightarrow> technique_loop tags (doc\<lparr>t_ID := to_upper match\<rparr>)
      | None \<Rightarrow>
          (case map_of tacticTags (if has_prefix tag ''attack.'' then drop 7 tag else tag) of
             Some tactic \<Rightarrow> technique_loop tags (doc\<lparr>t_Tactic := tactic\<rparr>)
           | None \<Rightarrow> technique_loop tags doc))"

definition techniqueFor :: "string list \<Rightarrow> technique option" where
  "techniqueFor tags =
     (let doc = technique_loop tags zero_technique in if t_ID doc = [] \<and> t_Tactic doc = [] then None else Some doc)"

section \<open>Condition expressions (condition.go)\<close>

text \<open>\<open>strings.Fields\<close>.\<close>

fun fields_from :: "string \<Rightarrow> string \<Rightarrow> string list" where
  "fields_from word [] = (if word = [] then [] else [word])"
| "fields_from word (c # s) =
     (if is_space c then (if word = [] then fields_from [] s else word # fields_from [] s) else fields_from (word @ [c]) s)"

definition tokenize :: "string \<Rightarrow> string list" where
  "tokenize expression =
     (let e = concat (map (\<lambda>c. if c = CHR ''('' then '' ( '' else [c]) expression);
          e = concat (map (\<lambda>c. if c = CHR '')'' then '' ) '' else [c]) e)
      in fields_from [] e)"

text \<open>The parser's position is the list of the tokens that are left.\<close>

type_synonym tokens = "string list"
type_synonym selections = "(string, condDoc) gomap"
type_synonym sigma_parser = "tokens \<Rightarrow> sigma_error + condDoc \<times> tokens"

definition sigma_peek :: "tokens \<Rightarrow> string" where
  "sigma_peek ts = (case ts of [] \<Rightarrow> [] | t # _ \<Rightarrow> t)"

definition sigma_advance :: "tokens \<Rightarrow> string \<times> tokens" where
  "sigma_advance ts = (sigma_peek ts, if sigma_peek ts \<noteq> [] then tl ts else ts)"

definition consumeKeyword :: "string \<Rightarrow> tokens \<Rightarrow> tokens option" where
  "consumeKeyword keyword ts = (if equal_fold (sigma_peek ts) keyword then Some (tl ts) else None)"

definition consumeToken :: "string \<Rightarrow> tokens \<Rightarrow> tokens option" where
  "consumeToken token ts = (if sigma_peek ts = token then Some (tl ts) else None)"

definition isQuantifier :: "string \<Rightarrow> bool" where
  "isQuantifier token \<longleftrightarrow> to_lower token = ''all'' \<or> to_lower token = ''any'' \<or> parse_int token \<noteq> None"

definition patternMatches :: "string \<Rightarrow> string \<Rightarrow> bool" where
  "patternMatches name pattern =
     (if equal_fold pattern ''them'' then True
      else if has_suffix pattern ''*'' then has_prefix name (butlast pattern)
      else name = pattern)"

definition selectionsMatching :: "selections \<Rightarrow> string list \<Rightarrow> string \<Rightarrow> condDoc list" where
  "selectionsMatching sels names pattern =
     map (\<lambda>name. the (map_of sels name)) (filter (\<lambda>name. patternMatches name pattern) names)"

definition parseQuantifier :: "selections \<Rightarrow> string list \<Rightarrow> sigma_parser" where
  "parseQuantifier sels names ts =
     (let (q, ts) = sigma_advance ts; quantifier = to_lower q in
      case consumeKeyword ''of'' ts of
        None \<Rightarrow> Inl (SigmaError (''expected 'of' after '' @ quote quantifier @ '' in condition''))
      | Some ts \<Rightarrow>
          (let (pattern, ts) = sigma_advance ts in
           if pattern = [] then Inl (SigmaError ''expected a pattern after 'of' in condition'')
           else let matched = selectionsMatching sels names pattern in
             if matched = [] then Inl (SigmaError (''condition pattern '' @ quote pattern @ '' matched no selections''))
             else if quantifier = ''all'' then Inr (allOf matched, ts)
             else if quantifier = ''1'' \<or> quantifier = ''any'' then Inr (anyOf matched, ts)
             else Inl (Unsupported (''quantifier '' @ quote quantifier @ '' of (only all/1/any are supported)''))))"

text \<open>
  \<open>collectTerms\<close>, with the loop of the later operands. The number of operands is bounded by the number of tokens.
\<close>

primrec collect_more :: "nat \<Rightarrow> string \<Rightarrow> sigma_parser \<Rightarrow> tokens \<Rightarrow> sigma_error + condDoc list \<times> tokens" where
  "collect_more 0 keyword operand ts =
     (case consumeKeyword keyword ts of None \<Rightarrow> Inr ([], ts) | Some _ \<Rightarrow> Inl SigmaFuel)"
| "collect_more (Suc n) keyword operand ts =
     (case consumeKeyword keyword ts of
        None \<Rightarrow> Inr ([], ts)
      | Some ts \<Rightarrow>
          sum_bind (operand ts) (\<lambda>(following, ts).
          sum_bind (collect_more n keyword operand ts) (\<lambda>(terms, ts).
          Inr (following # terms, ts))))"

definition collectTerms :: "string \<Rightarrow> sigma_parser \<Rightarrow> tokens \<Rightarrow> sigma_error + condDoc list \<times> tokens" where
  "collectTerms keyword operand ts =
     sum_bind (operand ts) (\<lambda>(first, ts).
     sum_bind (collect_more (length ts) keyword operand ts) (\<lambda>(terms, ts).
     Inr (first # terms, ts)))"

text \<open>
  The mutual recursion goes through \<open>parseNot\<close>: the other levels take it as an argument.
\<close>

definition parseAnd :: "sigma_parser \<Rightarrow> sigma_parser" where
  "parseAnd parseNot ts = sum_bind (collectTerms ''and'' parseNot ts) (\<lambda>(terms, ts).
     Inr (case terms of [t] \<Rightarrow> t | _ \<Rightarrow> CondDoc terms [] None [] [] ANil, ts))"

definition parseOr :: "sigma_parser \<Rightarrow> sigma_parser" where
  "parseOr parseNot ts = sum_bind (collectTerms ''or'' (parseAnd parseNot) ts) (\<lambda>(terms, ts).
     Inr (case terms of [t] \<Rightarrow> t | _ \<Rightarrow> CondDoc [] terms None [] [] ANil, ts))"

definition parseExpression :: "sigma_parser \<Rightarrow> sigma_parser" where
  "parseExpression parseNot = parseOr parseNot"

definition parseGroup :: "sigma_parser \<Rightarrow> sigma_parser" where
  "parseGroup parseNot ts =
     (let (_, ts) = sigma_advance ts in
      sum_bind (parseExpression parseNot ts) (\<lambda>(inner, ts).
        case consumeToken '')'' ts of
          None \<Rightarrow> Inl (SigmaError ''missing closing parenthesis in condition'')
        | Some ts \<Rightarrow> Inr (inner, ts)))"

definition parseAtom :: "selections \<Rightarrow> string list \<Rightarrow> sigma_parser \<Rightarrow> sigma_parser" where
  "parseAtom sels names parseNot ts =
     (let token = sigma_peek ts in
      if token = [] then Inl (SigmaError ''unexpected end of condition'')
      else if token = ''('' then parseGroup parseNot ts
      else if isQuantifier token then parseQuantifier sels names ts
      else let (_, ts) = sigma_advance ts in
        case map_of sels token of
          None \<Rightarrow> Inl (SigmaError (''condition references unknown selection '' @ quote token))
        | Some selection \<Rightarrow> Inr (selection, ts))"

primrec parseNot :: "selections \<Rightarrow> string list \<Rightarrow> nat \<Rightarrow> sigma_parser" where
  "parseNot sels names 0 ts = Inl SigmaFuel"
| "parseNot sels names (Suc n) ts =
     (case consumeKeyword ''not'' ts of
        Some ts \<Rightarrow> sum_bind (parseNot sels names n ts) (\<lambda>(inner, ts). Inr (notOf inner, ts))
      | None \<Rightarrow> parseAtom sels names (parseNot sels names n) ts)"

definition parseCondition :: "string \<Rightarrow> selections \<Rightarrow> string list \<Rightarrow> sigma_error + condDoc" where
  "parseCondition expression sels names =
     (let tokens = tokenize expression in
      sum_bind (parseExpression (parseNot sels names (Suc (length tokens))) tokens) (\<lambda>(tree, ts).
        if ts \<noteq> [] then
          Inl (SigmaError (''unexpected token '' @ quote (hd ts) @ '' in condition '' @ quote expression))
        else Inr tree))"

section \<open>Detection blocks (detection.go)\<close>

definition conditionExpression :: "sigma_lib \<Rightarrow> yaml_node \<Rightarrow> sigma_error + string" where
  "conditionExpression Y node =
     (case sl_string Y node of
        Some single \<Rightarrow> Inr single
      | None \<Rightarrow>
          (case sl_strings Y node of
             Some (e # es) \<Rightarrow> Inr (join '' or '' (map (\<lambda>e. ''('' @ e @ '')'') (e # es)))
           | _ \<Rightarrow> Inl (SigmaError ''condition must be a string or a non-empty list of strings'')))"

definition scalarValue :: "sigma_lib \<Rightarrow> yaml_node \<Rightarrow> sigma_error + any" where
  "scalarValue Y node = (case sl_any Y node of None \<Rightarrow> Inl DecodeValue | Some v \<Rightarrow> Inr v)"

fun scalar_values :: "sigma_lib \<Rightarrow> yaml_node list \<Rightarrow> sigma_error + any list" where
  "scalar_values Y [] = Inr []"
| "scalar_values Y (item # items) =
     sum_bind (scalarValue Y item) (\<lambda>v. sum_bind (scalar_values Y items) (\<lambda>vs. Inr (v # vs)))"

definition decodeValues :: "sigma_lib \<Rightarrow> yaml_node \<Rightarrow> sigma_error + any list" where
  "decodeValues Y node =
     (if yn_Kind node = SequenceNode then scalar_values Y (yn_Content node)
      else if yn_Tag node = ''!!null'' then Inr []
      else sum_bind (scalarValue Y node) (\<lambda>v. Inr [v]))"

definition metacharacters :: string where
  "metacharacters = [CHR 0x5C, CHR ''.'', CHR ''+'', CHR ''('', CHR '')'', CHR 0x7C, CHR ''['', CHR '']'', CHR 0x7B, CHR 0x7D,
     CHR ''^'', CHR ''$'']"

fun wildcard_body :: "string \<Rightarrow> string" where
  "wildcard_body [] = []"
| "wildcard_body (c # pattern) =
     (if c = CHR ''*'' then ''.*''
      else if c = CHR ''?'' then ''.''
      else if c \<in> set metacharacters then [CHR 0x5C, c]
      else [c]) @ wildcard_body pattern"

definition wildcardToRegex :: "string \<Rightarrow> string" where
  "wildcardToRegex pattern = ''^'' @ wildcard_body pattern @ ''$''"

definition trim_stars :: "string \<Rightarrow> string" where
  "trim_stars s = rev (dropWhile (\<lambda>c. c = CHR ''*'') (rev (dropWhile (\<lambda>c. c = CHR ''*'') s)))"

definition inferStringOp :: "string \<Rightarrow> string \<times> string" where
  "inferStringOp value =
     (let hasLeading = has_prefix value ''*''; hasTrailing = has_suffix value ''*''; core = trim_stars value in
      if list_ex (\<lambda>c. c = CHR ''*'' \<or> c = CHR ''?'') core then (''regex'', wildcardToRegex value)
      else if hasLeading \<and> hasTrailing then (''contains'', core)
      else if hasLeading then (''endswith'', core)
      else if hasTrailing then (''startswith'', core)
      else (''eq'', value))"

text \<open>\<open>textValue\<close> is the same function as \<open>toString\<close> of the rule operators.\<close>

definition textValue :: "go_lib \<Rightarrow> any \<Rightarrow> string" where
  "textValue L value = (case value of AStr text \<Rightarrow> text | _ \<Rightarrow> sprint L value)"

definition validateOperatorValue :: "go_lib \<Rightarrow> string \<Rightarrow> any \<Rightarrow> sigma_error option" where
  "validateOperatorValue L op value =
     (if op = ''regex'' then (if regexp_compile L (textValue L value) = None then Some (InvalidRegex value) else None)
      else if op = ''cidr'' then (if ParseCIDR (textValue L value) = None then Some (InvalidCidr value) else None)
      else None)"

definition valueLeaf :: "go_lib \<Rightarrow> string \<Rightarrow> string \<Rightarrow> any \<Rightarrow> sigma_error + condDoc" where
  "valueLeaf L field op value =
     (let (op, value) = (if op = [] then (case value of
              AStr text \<Rightarrow> (case inferStringOp text of (op, cleaned) \<Rightarrow> (op, AStr cleaned))
            | _ \<Rightarrow> (''eq'', value)) else (op, value)) in
      case validateOperatorValue L op value of Some err \<Rightarrow> Inl err | None \<Rightarrow> Inr (sigma_leaf field op value))"

fun value_leaves :: "go_lib \<Rightarrow> string \<Rightarrow> string \<Rightarrow> any list \<Rightarrow> sigma_error + condDoc list" where
  "value_leaves L field op [] = Inr []"
| "value_leaves L field op (v # vs) =
     sum_bind (valueLeaf L field op v) (\<lambda>c. sum_bind (value_leaves L field op vs) (\<lambda>cs. Inr (c # cs)))"

fun modifier_loop :: "string list \<Rightarrow> string \<times> bool \<Rightarrow> sigma_error + string \<times> bool" where
  "modifier_loop [] acc = Inr acc"
| "modifier_loop (m # ms) (op, requireAll) =
     (let l = to_lower m in
      if l = ''all'' then modifier_loop ms (op, True)
      else if l = ''contains'' \<or> l = ''startswith'' \<or> l = ''endswith'' then modifier_loop ms (l, requireAll)
      else if l = ''re'' then modifier_loop ms (''regex'', requireAll)
      else if l = ''cidr'' then modifier_loop ms (''cidr'', requireAll)
      else if l = ''gt'' \<or> l = ''lt'' then modifier_loop ms (l, requireAll)
      else if l = ''gte'' then modifier_loop ms (''ge'', requireAll)
      else if l = ''lte'' then modifier_loop ms (''le'', requireAll)
      else Inl (Unsupported (''value modifier '' @ quote m)))"

definition modifierOp :: "string list \<Rightarrow> sigma_error + string \<times> bool" where
  "modifierOp modifiers = modifier_loop modifiers ([], False)"

definition fieldCondition :: "go_lib \<Rightarrow> sigma_lib \<Rightarrow> string \<Rightarrow> yaml_node \<Rightarrow> sigma_error + condDoc" where
  "fieldCondition L Y rawKey valueNode =
     (let parts = split_on CHR 0x7C rawKey in
      case argusField (hd parts) of
        None \<Rightarrow> Inl (Unsupported (''field '' @ quote (hd parts)))
      | Some field \<Rightarrow>
          sum_bind (modifierOp (tl parts)) (\<lambda>(op, requireAll).
          sum_bind (decodeValues Y valueNode) (\<lambda>values.
          if values = [] then Inl (Unsupported (''null/empty value for field '' @ quote (hd parts)))
          else sum_bind (value_leaves L field op values) (\<lambda>leaves.
            Inr (if requireAll then allOf leaves else anyOf leaves)))))"

fun node_entries :: "yaml_node list \<Rightarrow> (string \<times> yaml_node) list" where
  "node_entries (k # v # content) = (yn_Value k, v) # node_entries content"
| "node_entries _ = []"

fun field_conditions :: "go_lib \<Rightarrow> sigma_lib \<Rightarrow> (string \<times> yaml_node) list \<Rightarrow> sigma_error + condDoc list" where
  "field_conditions L Y [] = Inr []"
| "field_conditions L Y ((key, v) # entries) =
     sum_bind (fieldCondition L Y key v) (\<lambda>c. sum_bind (field_conditions L Y entries) (\<lambda>cs. Inr (c # cs)))"

text \<open>
  Entries are sorted by key. \<open>sort.Slice\<close> may exchange entries with equal keys; here they keep their order.
\<close>

definition selectionMap :: "go_lib \<Rightarrow> sigma_lib \<Rightarrow> yaml_node \<Rightarrow> sigma_error + condDoc" where
  "selectionMap L Y node =
     sum_bind (field_conditions L Y (sort_key fst (node_entries (yn_Content node)))) (\<lambda>leaves.
       if leaves = [] then Inl (SigmaError ''empty selection'') else Inr (allOf leaves))"

fun selection_items :: "go_lib \<Rightarrow> sigma_lib \<Rightarrow> yaml_node list \<Rightarrow> sigma_error + condDoc list" where
  "selection_items L Y [] = Inr []"
| "selection_items L Y (item # items) =
     (if yn_Kind item \<noteq> MappingNode then Inl (Unsupported ''keyword (full-text) selections'')
      else sum_bind (selectionMap L Y item) (\<lambda>c. sum_bind (selection_items L Y items) (\<lambda>cs. Inr (c # cs))))"

definition compileSelection :: "go_lib \<Rightarrow> sigma_lib \<Rightarrow> yaml_node \<Rightarrow> sigma_error + condDoc" where
  "compileSelection L Y node =
     (case yn_Kind node of
        MappingNode \<Rightarrow> selectionMap L Y node
      | SequenceNode \<Rightarrow> sum_bind (selection_items L Y (yn_Content node)) (\<lambda>alternatives. Inr (anyOf alternatives))
      | _ \<Rightarrow> Inl (Unsupported ''selection that is neither a map nor a list of maps''))"

fun compile_selections :: "go_lib \<Rightarrow> sigma_lib \<Rightarrow> (string, yaml_node) gomap \<Rightarrow> sigma_error + selections" where
  "compile_selections L Y [] = Inr []"
| "compile_selections L Y ((name, node) # detection) =
     (if name = ''condition'' then compile_selections L Y detection
      else case compileSelection L Y node of
        Inl err \<Rightarrow> Inl (InSelection name err)
      | Inr selection \<Rightarrow> sum_bind (compile_selections L Y detection) (\<lambda>sels. Inr ((name, selection) # sels)))"

definition compileDetection :: "go_lib \<Rightarrow> sigma_lib \<Rightarrow> (string, yaml_node) gomap \<Rightarrow> sigma_error + condDoc" where
  "compileDetection L Y detection =
     (case map_of detection ''condition'' of
        None \<Rightarrow> Inl (SigmaError ''detection block has no condition'')
      | Some conditionNode \<Rightarrow>
          sum_bind (conditionExpression Y conditionNode) (\<lambda>expression.
          sum_bind (compile_selections L Y detection) (\<lambda>sels.
          if sels = [] then Inl (SigmaError ''detection block has no selections'')
          else parseCondition expression sels (sort (map fst sels)))))"

section \<open>Conversion (sigma.go, cmd/argus/sigma.go)\<close>

definition isAndGroup :: "condDoc \<Rightarrow> bool" where
  "isAndGroup c \<longleftrightarrow> cd_All c \<noteq> [] \<and> cd_Any c = [] \<and> cd_Not c = None \<and> cd_Field c = []"

definition anchorToAction :: "string \<Rightarrow> condDoc \<Rightarrow> condDoc" where
  "anchorToAction action detection =
     (let guard = sigma_leaf ''event.action'' ''eq'' (AStr action) in
      if isAndGroup detection then CondDoc (guard # cd_All detection) [] None [] [] ANil
      else CondDoc [guard, detection] [] None [] [] ANil)"

definition ruleID :: "sigma_lib \<Rightarrow> sigmaRule \<Rightarrow> string" where
  "ruleID Y rule =
     (let compact = filter (\<lambda>c. c \<noteq> CHR ''-'') (sg_ID rule) in
      if 8 \<le> length compact then ''SIGMA-'' @ to_upper (take 8 compact)
      else ''SIGMA-'' @ to_upper (take 8 (hex_encode (sl_sha1 Y (sg_Title rule)))))"

definition Convert :: "go_lib \<Rightarrow> sigma_lib \<Rightarrow> string \<Rightarrow> sigma_error + sigma_doc" where
  "Convert L Y data =
     (case sl_unmarshal Y data of
        None \<Rightarrow> Inl ParseRule
      | Some rule \<Rightarrow>
          if trim_space (sg_Title rule) = [] then Inl (SigmaError ''sigma rule has no title'')
          else if sg_Product rule \<noteq> [] \<and> to_lower (sg_Product rule) \<noteq> ''linux'' then
            Inl (Unsupported (''logsource product '' @ quote (sg_Product rule) @ '' (ARGUS is Linux-only)''))
          else case map_of categoryActions (to_lower (sg_Category rule)) of
            None \<Rightarrow> Inl (Unsupported (''logsource category '' @ quote (sg_Category rule)))
          | Some action \<Rightarrow>
              if sg_Detection rule = [] then Inl (SigmaError ''sigma rule has no detection block'')
              else sum_bind (compileDetection L Y (sg_Detection rule)) (\<lambda>detection.
                let severity = severityFor (sg_Level rule) in
                Inr \<lparr>sd_ID = ruleID Y rule, sd_Name = sg_Title rule, sd_Description = trim_space (sg_Description rule),
                  sd_Severity = severity, sd_Technique = techniqueFor (sg_Tags rule),
                  sd_RiskScore = (case map_of severityRisks severity of Some r \<Rightarrow> r | None \<Rightarrow> 0),
                  sd_Match = anchorToAction action detection\<rparr>))"

text \<open>\<open>read\<close> reads a file; the result is the rules kept and the number of files skipped.\<close>

fun convert_loop ::
  "go_lib \<Rightarrow> sigma_lib \<Rightarrow> (string \<Rightarrow> string option) \<Rightarrow> string list \<Rightarrow> string list \<Rightarrow> sigma_doc list \<Rightarrow> nat \<Rightarrow> sigma_doc list \<times> nat" where
  "convert_loop L Y read [] seen rules skipped = (rules, skipped)"
| "convert_loop L Y read (path # paths) seen rules skipped =
     (case read path of
        None \<Rightarrow> convert_loop L Y read paths seen rules (skipped + 1)
      | Some data \<Rightarrow>
          (case Convert L Y data of
             Inl err \<Rightarrow> convert_loop L Y read paths seen rules (skipped + 1)
           | Inr doc \<Rightarrow>
               if sd_ID doc \<in> set seen then convert_loop L Y read paths seen rules (skipped + 1)
               else convert_loop L Y read paths (sd_ID doc # seen) (rules @ [doc]) skipped))"

definition convertSigmaFiles ::
  "go_lib \<Rightarrow> sigma_lib \<Rightarrow> (string \<Rightarrow> string option) \<Rightarrow> string list \<Rightarrow> sigma_doc list \<times> nat" where
  "convertSigmaFiles L Y read paths = convert_loop L Y read paths [] [] 0"

text \<open>
  The rule document with the fields of a converted one, which is what the rule loader is meant to decode from the
  bundle. The YAML library in between is not modelled: that it yields this document is a hypothesis where it matters
  (\<open>bundle_keeps\<close> of the conversion theorem).
\<close>

fun loaded_cond :: "condDoc \<Rightarrow> condition" where
  "loaded_cond (CondDoc alls anys inner f op v) =
     Condition (map (\<lambda>c. Some (loaded_cond c)) alls) (map (\<lambda>c. Some (loaded_cond c)) anys)
       (case inner of None \<Rightarrow> None | Some c \<Rightarrow> Some (loaded_cond c)) f op v"

definition loaded_doc :: "sigma_doc \<Rightarrow> ruleYAML" where
  "loaded_doc d = \<lparr>y_ID = sd_ID d, y_Name = sd_Name d, y_Description = sd_Description d, y_Severity = sd_Severity d,
     y_Technique = (case sd_Technique d of None \<Rightarrow> zero_technique | Some t \<Rightarrow> t), y_Enabled = None,
     y_RiskScore = sd_RiskScore d, y_Response = [], y_Match = Some (loaded_cond (sd_Match d))\<rparr>"

end
