(* ===== verification/Sigma_Grammar.thy ===== *)
theory Sigma_Grammar
  imports Sigma
begin

text \<open>
  The grammar of Sigma condition expressions and the parser of \<^verbatim>\<open>internal/sigma/condition.go\<close>: the parser returns on every
  input, accepts exactly the expressions of the grammar and returns their trees.
\<close>

section \<open>The grammar of condition expressions\<close>

datatype sigma_expr =
    SName string
  | SQuant bool string
  | SNot sigma_expr
  | SAnd "sigma_expr list"
  | SOr "sigma_expr list"

text \<open>
  The expressions that a token list spells: an operand of \<open>not\<close>, the operands of a conjunction, and those of a
  disjunction. A quantifier is all (\<open>True\<close>) or any of the selections that match a pattern.
\<close>

inductive not_expr :: "string list \<Rightarrow> sigma_expr \<Rightarrow> tokens \<Rightarrow> bool"
  and and_terms :: "string list \<Rightarrow> sigma_expr list \<Rightarrow> tokens \<Rightarrow> bool"
  and or_terms :: "string list \<Rightarrow> sigma_expr list \<Rightarrow> tokens \<Rightarrow> bool"
  for names :: "string list"
where
  name: "n \<in> set names \<Longrightarrow> n \<noteq> [] \<Longrightarrow> n \<noteq> ''('' \<Longrightarrow> \<not> isQuantifier n \<Longrightarrow> \<not> equal_fold n ''not'' \<Longrightarrow>
    not_expr names (SName n) [n]"
| quant: "to_lower q \<in> {''all'', ''1'', ''any''} \<Longrightarrow> equal_fold k ''of'' \<Longrightarrow> p \<noteq> [] \<Longrightarrow> filter (\<lambda>n. patternMatches n p) names \<noteq> [] \<Longrightarrow>
    not_expr names (SQuant (to_lower q = ''all'') p) [q, k, p]"
| parens: "or_terms names xs ts \<Longrightarrow> not_expr names (SOr xs) (''('' # ts @ ['')''])"
| neg: "equal_fold k ''not'' \<Longrightarrow> not_expr names x ts \<Longrightarrow> not_expr names (SNot x) (k # ts)"
| and_one: "not_expr names x ts \<Longrightarrow> and_terms names [x] ts"
| and_more: "not_expr names x ts \<Longrightarrow> equal_fold k ''and'' \<Longrightarrow> and_terms names xs ts' \<Longrightarrow>
    and_terms names (x # xs) (ts @ k # ts')"
| or_one: "and_terms names xs ts \<Longrightarrow> or_terms names [SAnd xs] ts"
| or_more: "and_terms names xs ts \<Longrightarrow> equal_fold k ''or'' \<Longrightarrow> or_terms names ys ts' \<Longrightarrow>
    or_terms names (SAnd xs # ys) (ts @ k # ts')"

text \<open>The tree of an expression; a group of one is its member.\<close>

fun tree_of :: "selections \<Rightarrow> string list \<Rightarrow> sigma_expr \<Rightarrow> condDoc" where
  "tree_of sels names (SName n) = the (map_of sels n)"
| "tree_of sels names (SQuant every p) =
     (if every then allOf (selectionsMatching sels names p) else anyOf (selectionsMatching sels names p))"
| "tree_of sels names (SNot x) = notOf (tree_of sels names x)"
| "tree_of sels names (SAnd xs) = allOf (map (tree_of sels names) xs)"
| "tree_of sels names (SOr xs) = anyOf (map (tree_of sels names) xs)"

section \<open>The parser returns\<close>

definition shrinks :: "nat \<Rightarrow> sigma_parser \<Rightarrow> bool" where
  "shrinks n p \<longleftrightarrow> (\<forall>ts. length ts < n \<longrightarrow>
     (case p ts of Inl err \<Rightarrow> err \<noteq> SigmaFuel | Inr (c, ts') \<Rightarrow> length ts' < length ts))"

lemma shrinksD: "shrinks n p \<Longrightarrow> length ts < n \<Longrightarrow> p ts \<noteq> Inl SigmaFuel"
  "shrinks n p \<Longrightarrow> length ts < n \<Longrightarrow> p ts = Inr (c, ts') \<Longrightarrow> length ts' < length ts"
  by (auto simp: shrinks_def split: sum.splits)

lemma consumeKeyword_Some: "consumeKeyword k ts = Some ts' \<Longrightarrow> k \<noteq> [] \<Longrightarrow> \<exists>t. ts = t # ts' \<and> equal_fold t k"
  by (cases ts) (auto simp: consumeKeyword_def sigma_peek_def equal_fold_def to_lower_def split: if_splits)

lemma collect_more_shrinks:
  assumes "shrinks n p" "k \<noteq> []"
  shows "length ts < n \<Longrightarrow> length ts \<le> m \<Longrightarrow>
    (case collect_more m k p ts of Inl err \<Rightarrow> err \<noteq> SigmaFuel | Inr (cs, ts') \<Rightarrow> length ts' \<le> length ts)"
proof (induction m arbitrary: ts)
  case 0
  then show ?case using consumeKeyword_Some [OF _ assms(2), of ts] by (cases "consumeKeyword k ts") auto
next
  case (Suc m)
  show ?case
  proof (cases "consumeKeyword k ts")
    case (Some us)
    then have us: "length us < length ts" using consumeKeyword_Some [OF _ assms(2)] by fastforce
    show ?thesis
    proof (cases "p us")
      case (Inl err)
      then show ?thesis using Some shrinksD(1) [OF assms(1), of us] us Suc.prems by auto
    next
      case (Inr r)
      then have l: "length (snd r) < length us" using shrinksD(2) [OF assms(1), of us "fst r" "snd r"] us Suc.prems by simp
      then have "case collect_more m k p (snd r) of Inl err \<Rightarrow> err \<noteq> SigmaFuel | Inr (cs, ts') \<Rightarrow> length ts' \<le> length (snd r)"
        using Suc.IH [of "snd r"] us Suc.prems by simp
      then show ?thesis using Some Inr l us by (cases "collect_more m k p (snd r)") (auto simp: case_prod_beta)
    qed
  qed simp
qed

lemma collectTerms_shrinks:
  assumes "shrinks n p" "k \<noteq> []" "length ts < n"
  shows "case collectTerms k p ts of Inl err \<Rightarrow> err \<noteq> SigmaFuel | Inr (cs, ts') \<Rightarrow> length ts' < length ts"
proof (cases "p ts")
  case (Inl err)
  then show ?thesis using shrinksD(1) [OF assms(1,3)] by (auto simp: collectTerms_def)
next
  case (Inr r)
  then have l: "length (snd r) < length ts" using shrinksD(2) [OF assms(1,3), of "fst r" "snd r"] by simp
  then show ?thesis
    using Inr collect_more_shrinks [OF assms(1,2), of "snd r" "length (snd r)"] assms(3)
    by (cases "collect_more (length (snd r)) k p (snd r)") (auto simp: collectTerms_def case_prod_beta)
qed

lemma parseAnd_shrinks: "shrinks n p \<Longrightarrow> shrinks n (parseAnd p)"
  unfolding shrinks_def [of n "parseAnd p"]
proof (intro allI impI)
  fix ts :: tokens assume p: "shrinks n p" and "length ts < n"
  then show "case parseAnd p ts of Inl err \<Rightarrow> err \<noteq> SigmaFuel | Inr (c, ts') \<Rightarrow> length ts' < length ts"
    using collectTerms_shrinks [OF p, of "''and''" ts] by (cases "collectTerms ''and'' p ts") (auto simp: parseAnd_def)
qed

lemma parseOr_shrinks: "shrinks n p \<Longrightarrow> shrinks n (parseOr p)"
  unfolding shrinks_def [of n "parseOr p"]
proof (intro allI impI)
  fix ts :: tokens assume p: "shrinks n p" and "length ts < n"
  then show "case parseOr p ts of Inl err \<Rightarrow> err \<noteq> SigmaFuel | Inr (c, ts') \<Rightarrow> length ts' < length ts"
    using collectTerms_shrinks [OF parseAnd_shrinks [OF p], of "''or''" ts]
    by (cases "collectTerms ''or'' (parseAnd p) ts") (auto simp: parseOr_def)
qed

lemma parseAtom_shrinks:
  assumes "shrinks n p"
  shows "shrinks (Suc n) (parseAtom sels names p)"
  unfolding shrinks_def [of "Suc n"]
proof (intro allI impI)
  fix ts :: tokens assume l: "length ts < Suc n"
  show "case parseAtom sels names p ts of Inl err \<Rightarrow> err \<noteq> SigmaFuel | Inr (c, ts') \<Rightarrow> length ts' < length ts"
  proof (cases ts)
    case (Cons t us)
    then have us: "length us < n" using l by simp
    have quant: "case parseQuantifier sels names (t # us) of Inl err \<Rightarrow> err \<noteq> SigmaFuel | Inr (c, ts') \<Rightarrow> length ts' < length (t # us)" if "t \<noteq> []"
      using that consumeKeyword_Some [of "''of''" us]
      by (cases "consumeKeyword ''of'' us")
        (auto simp: parseQuantifier_def sigma_advance_def sigma_peek_def Let_def split: list.splits)
    have group: "case parseGroup p (t # us) of Inl err \<Rightarrow> err \<noteq> SigmaFuel | Inr (c, ts') \<Rightarrow> length ts' < length (t # us)" if "t \<noteq> []"
      using that shrinksD [OF parseOr_shrinks [OF assms] us]
      by (cases "parseOr p us") (force simp: parseGroup_def parseExpression_def sigma_advance_def sigma_peek_def consumeToken_def)+
    show ?thesis
      unfolding Cons using quant group
      by (auto simp: parseAtom_def sigma_peek_def sigma_advance_def Let_def split: option.split)
  qed (simp add: parseAtom_def sigma_peek_def)
qed

lemma parseNot_shrinks: "shrinks n (parseNot sels names n)"
proof (induction n)
  case (Suc n)
  show ?case
    unfolding shrinks_def
  proof (intro allI impI)
    fix ts :: tokens assume l: "length ts < Suc n"
    show "case parseNot sels names (Suc n) ts of Inl err \<Rightarrow> err \<noteq> SigmaFuel | Inr (c, ts') \<Rightarrow> length ts' < length ts"
    proof (cases "consumeKeyword ''not'' ts")
      case None
      then show ?thesis using parseAtom_shrinks [OF Suc, of sels names] l by (simp add: shrinks_def)
    next
      case (Some us)
      then obtain t where "ts = t # us" using consumeKeyword_Some [of "''not''"] by blast
      then show ?thesis using Some shrinksD [OF Suc, of us] l by (cases "parseNot sels names n us") force+
    qed
  qed
qed (simp add: shrinks_def)

lemma parseCondition_no_fuel: "parseCondition expression sels names \<noteq> Inl SigmaFuel"
  using shrinksD(1) [OF parseOr_shrinks [OF parseNot_shrinks], of "tokenize expression" "Suc (length (tokenize expression))" sels names]
  by (auto simp: parseCondition_def parseExpression_def sum_bind_Inl Let_def split: if_splits)

section \<open>The parser decides the grammar\<close>

lemma collect_group: "(case terms of [t] \<Rightarrow> t | _ \<Rightarrow> CondDoc terms [] None [] [] ANil) = allOf terms"
  "(case terms of [t] \<Rightarrow> t | _ \<Rightarrow> CondDoc [] terms None [] [] ANil) = anyOf terms"
  by (simp_all add: allOf_def anyOf_def)

text \<open>What the parsers of the levels return for a parser of operands that is sound.\<close>

definition sound_not :: "selections \<Rightarrow> string list \<Rightarrow> sigma_parser \<Rightarrow> bool" where
  "sound_not sels names p \<longleftrightarrow> (\<forall>ts c ts'. p ts = Inr (c, ts') \<longrightarrow>
     (\<exists>x us. ts = us @ ts' \<and> not_expr names x us \<and> c = tree_of sels names x))"

lemma collect_more_and:
  assumes "sound_not sels names p"
  shows "collect_more n ''and'' p ts = Inr (cs, ts') \<Longrightarrow> not_expr names x us \<Longrightarrow>
    \<exists>xs vs. us @ ts = vs @ ts' \<and> and_terms names (x # xs) vs \<and> cs = map (tree_of sels names) xs"
proof (induction n arbitrary: ts cs x us)
  case 0
  then have "cs = []" "ts' = ts" by (auto split: option.splits)
  then show ?case using 0(2) and_one by fastforce
next
  case (Suc n)
  show ?case
  proof (cases "consumeKeyword ''and'' ts")
    case None
    then have "cs = []" "ts' = ts" using Suc.prems(1) by auto
    then show ?thesis using Suc.prems(2) and_one by fastforce
  next
    case (Some ws)
    then obtain k where k: "ts = k # ws" "equal_fold k ''and''" using consumeKeyword_Some [of "''and''"] by blast
    from Suc.prems(1) Some obtain c ws' cs' where c: "p ws = Inr (c, ws')" "collect_more n ''and'' p ws' = Inr (cs', ts')" "cs = c # cs'"
      by (auto simp: sum_bind_Inr)
    obtain y vs where y: "ws = vs @ ws'" "not_expr names y vs" "c = tree_of sels names y"
      using assms c(1) unfolding sound_not_def by blast
    obtain xs vs' where xs: "vs @ ws' = vs' @ ts'" "and_terms names (y # xs) vs'" "cs' = map (tree_of sels names) xs"
      using Suc.IH [OF c(2) y(2)] by blast
    have "and_terms names (x # y # xs) (us @ k # vs')" by (rule and_more [OF Suc.prems(2) k(2) xs(2)])
    moreover have "us @ ts = (us @ k # vs') @ ts'" using k(1) y(1) xs(1) by simp
    ultimately show ?thesis using c(3) y(3) xs(3) by (metis list.simps(9))
  qed
qed

lemma parseAnd_sound:
  assumes "sound_not sels names p" "parseAnd p ts = Inr (c, ts')"
  shows "\<exists>xs us. ts = us @ ts' \<and> and_terms names xs us \<and> c = tree_of sels names (SAnd xs)"
proof -
  obtain c1 ws cs where p: "p ts = Inr (c1, ws)" "collect_more (length ws) ''and'' p ws = Inr (cs, ts')" "c = allOf (c1 # cs)"
    using assms(2) by (auto simp: parseAnd_def collectTerms_def sum_bind_Inr collect_group)
  obtain x us where x: "ts = us @ ws" "not_expr names x us" "c1 = tree_of sels names x"
    using assms(1) p(1) unfolding sound_not_def by blast
  obtain xs vs where "us @ ws = vs @ ts'" "and_terms names (x # xs) vs" "cs = map (tree_of sels names) xs"
    using collect_more_and [OF assms(1) p(2) x(2)] by blast
  then show ?thesis using x(1,3) p(3) by (intro exI [of _ "x # xs"] exI [of _ vs]) simp
qed

lemma collect_more_or:
  assumes "sound_not sels names p"
  shows "collect_more n ''or'' (parseAnd p) ts = Inr (cs, ts') \<Longrightarrow> and_terms names xs us \<Longrightarrow>
    \<exists>ys vs. us @ ts = vs @ ts' \<and> or_terms names (SAnd xs # ys) vs \<and> cs = map (tree_of sels names) ys"
proof (induction n arbitrary: ts cs xs us)
  case 0
  then have "cs = []" "ts' = ts" by (auto split: option.splits)
  then show ?case using 0(2) or_one by fastforce
next
  case (Suc n)
  show ?case
  proof (cases "consumeKeyword ''or'' ts")
    case None
    then have "cs = []" "ts' = ts" using Suc.prems(1) by auto
    then show ?thesis using Suc.prems(2) or_one by fastforce
  next
    case (Some ws)
    then obtain k where k: "ts = k # ws" "equal_fold k ''or''" using consumeKeyword_Some [of "''or''"] by blast
    from Suc.prems(1) Some obtain c ws' cs' where
      c: "parseAnd p ws = Inr (c, ws')" "collect_more n ''or'' (parseAnd p) ws' = Inr (cs', ts')" "cs = c # cs'"
      by (auto simp: sum_bind_Inr)
    obtain zs vs where z: "ws = vs @ ws'" "and_terms names zs vs" "c = tree_of sels names (SAnd zs)"
      using parseAnd_sound [OF assms c(1)] by blast
    obtain ys vs' where ys: "vs @ ws' = vs' @ ts'" "or_terms names (SAnd zs # ys) vs'" "cs' = map (tree_of sels names) ys"
      using Suc.IH [OF c(2) z(2)] by blast
    have "or_terms names (SAnd xs # SAnd zs # ys) (us @ k # vs')" by (rule or_more [OF Suc.prems(2) k(2) ys(2)])
    moreover have "us @ ts = (us @ k # vs') @ ts'" using k(1) z(1) ys(1) by simp
    ultimately show ?thesis using c(3) z(3) ys(3) by (metis list.simps(9))
  qed
qed

lemma parseOr_sound:
  assumes "sound_not sels names p" "parseOr p ts = Inr (c, ts')"
  shows "\<exists>xs us. ts = us @ ts' \<and> or_terms names xs us \<and> c = tree_of sels names (SOr xs)"
proof -
  obtain c1 ws cs where p: "parseAnd p ts = Inr (c1, ws)" "collect_more (length ws) ''or'' (parseAnd p) ws = Inr (cs, ts')" "c = anyOf (c1 # cs)"
    using assms(2) by (auto simp: parseOr_def collectTerms_def sum_bind_Inr collect_group)
  obtain xs us where x: "ts = us @ ws" "and_terms names xs us" "c1 = tree_of sels names (SAnd xs)"
    using parseAnd_sound [OF assms(1) p(1)] by blast
  obtain ys vs where "us @ ws = vs @ ts'" "or_terms names (SAnd xs # ys) vs" "cs = map (tree_of sels names) ys"
    using collect_more_or [OF assms(1) p(2) x(2)] by blast
  then show ?thesis using x(1,3) p(3) by (intro exI [of _ "SAnd xs # ys"] exI [of _ vs]) simp
qed

lemma peek_Some: "sigma_peek ts = t \<Longrightarrow> t \<noteq> [] \<Longrightarrow> ts = t # tl ts"
  by (cases ts) (auto simp: sigma_peek_def)

lemma parseQuantifier_sound:
  assumes "parseQuantifier sels names (t # us) = Inr (c, ts')" "t \<noteq> []"
  shows "\<exists>x vs. t # us = vs @ ts' \<and> not_expr names x vs \<and> c = tree_of sels names x"
proof -
  obtain ws where ws: "consumeKeyword ''of'' us = Some ws"
    using assms by (cases "consumeKeyword ''of'' us") (auto simp: parseQuantifier_def sigma_advance_def sigma_peek_def Let_def)
  then obtain k where k: "us = k # ws" "equal_fold k ''of''" using consumeKeyword_Some [of "''of''"] by blast
  define p where "p = sigma_peek ws"
  have r: "p \<noteq> []" "ws = p # tl ws" "filter (\<lambda>n. patternMatches n p) names \<noteq> []" "to_lower t \<in> {''all'', ''1'', ''any''}" "ts' = tl ws"
      "c = tree_of sels names (SQuant (to_lower t = ''all'') p)"
    using assms ws peek_Some [OF p_def [symmetric]]
    by (auto simp: parseQuantifier_def sigma_advance_def p_def sigma_peek_def [of "t # us"] selectionsMatching_def Let_def split: if_splits)
  show ?thesis using quant [OF r(4) k(2) r(1,3)] r(2,5,6) k(1) by (metis append_Cons append_Nil)
qed

lemma parseAtom_sound:
  assumes "sound_not sels names p" "parseAtom sels names p ts = Inr (c, ts')" "consumeKeyword ''not'' ts = None" "set names = fst ` set sels"
  shows "\<exists>x us. ts = us @ ts' \<and> not_expr names x us \<and> c = tree_of sels names x"
proof -
  define t where "t = sigma_peek ts"
  have t: "t \<noteq> []" using assms(2) by (auto simp: parseAtom_def t_def)
  then have ts: "ts = t # tl ts" using peek_Some t_def by metis
  have nn: "\<not> equal_fold t ''not''" using assms(3) by (auto simp: consumeKeyword_def t_def split: if_splits)
  consider "t = ''(''" | "t \<noteq> ''(''" "isQuantifier t" | "t \<noteq> ''(''" "\<not> isQuantifier t" by blast
  then show ?thesis
  proof cases
    case 1
    then have "parseGroup p ts = Inr (c, ts')" using assms(2) by (simp add: parseAtom_def t_def Let_def)
    then obtain ws where ws: "parseOr p (tl ts) = Inr (c, ws)" "consumeToken '')'' ws = Some ts'"
      using t by (auto simp: parseGroup_def parseExpression_def sigma_advance_def sum_bind_Inr t_def split: option.splits)
    obtain xs us where x: "tl ts = us @ ws" "or_terms names xs us" "c = tree_of sels names (SOr xs)"
      using parseOr_sound [OF assms(1) ws(1)] by blast
    have "ws = '')'' # ts'" using ws(2) peek_Some [of ws "'')''"] by (auto simp: consumeToken_def split: if_splits)
    then have "ts = (''('' # us @ ['')'']) @ ts'" using ts 1 x(1) by simp
    then show ?thesis using parens [OF x(2)] x(3) by blast
  next
    case 2
    then have "parseQuantifier sels names ts = Inr (c, ts')" using assms(2) t by (simp add: parseAtom_def t_def Let_def)
    then show ?thesis using parseQuantifier_sound [of sels names t "tl ts" c ts'] t ts by simp
  next
    case 3
    then have "map_of sels t = Some c" "ts' = tl ts" using assms(2) t
      by (auto simp: parseAtom_def t_def [symmetric] Let_def sigma_advance_def split: option.splits)
    moreover from this have "t \<in> set names" using assms(4) by (metis map_of_eq_None_iff option.distinct(1))
    ultimately show ?thesis using 3 t nn ts name [of t names] by (intro exI [of _ "SName t"] exI [of _ "[t]"]) simp
  qed
qed

lemma parseNot_sound: "set names = fst ` set sels \<Longrightarrow> sound_not sels names (parseNot sels names n)"
proof (induction n)
  case (Suc n)
  show ?case
    unfolding sound_not_def
  proof (intro allI impI)
    fix ts c ts' assume r: "parseNot sels names (Suc n) ts = Inr (c, ts')"
    show "\<exists>x us. ts = us @ ts' \<and> not_expr names x us \<and> c = tree_of sels names x"
    proof (cases "consumeKeyword ''not'' ts")
      case None
      then show ?thesis using parseAtom_sound [OF Suc.IH [OF Suc.prems]] r Suc.prems by simp
    next
      case (Some ws)
      then obtain k where k: "ts = k # ws" "equal_fold k ''not''" using consumeKeyword_Some [of "''not''"] by blast
      obtain d where d: "parseNot sels names n ws = Inr (d, ts')" "c = notOf d" using r Some by (auto simp: sum_bind_Inr)
      obtain x us where "ws = us @ ts'" "not_expr names x us" "d = tree_of sels names x"
        using Suc.IH [OF Suc.prems] d(1) unfolding sound_not_def by blast
      then show ?thesis using k d(2) neg [OF k(2)] by (intro exI [of _ "SNot x"] exI [of _ "k # us"]) simp
    qed
  qed
qed (simp add: sound_not_def)

lemma parseCondition_sound:
  "parseCondition expression sels names = Inr c \<Longrightarrow> set names = fst ` set sels \<Longrightarrow>
   \<exists>xs. or_terms names xs (tokenize expression) \<and> c = tree_of sels names (SOr xs)"
  using parseOr_sound [OF parseNot_sound]
  by (fastforce simp: parseCondition_def parseExpression_def Let_def sum_bind_Inr split: if_splits)

lemma collect_more_mono: "collect_more m k p ts = Inr r \<Longrightarrow> m \<le> m' \<Longrightarrow> collect_more m' k p ts = Inr r"
proof (induction m arbitrary: m' ts r)
  case 0
  then show ?case by (cases m') (auto split: option.splits)
next
  case (Suc m)
  then obtain l where l: "m' = Suc l" "m \<le> l" by (cases m') auto
  show ?case
  proof (cases "consumeKeyword k ts")
    case (Some us)
    then show ?thesis using Suc.prems(1) Suc.IH [OF _ l(2)] by (auto simp: l sum_bind_Inr)
  qed (use Suc.prems(1) in \<open>simp add: l\<close>)
qed

lemma collectTerms_one:
  "p ts = Inr (c, rest) \<Longrightarrow> \<not> equal_fold (sigma_peek rest) k \<Longrightarrow> collectTerms k p ts = Inr ([c], rest)"
  by (cases "length rest") (auto simp: collectTerms_def consumeKeyword_def)

lemma collectTerms_Cons:
  assumes "shrinks n p" "length us < n" "p ts = Inr (c, k # us)" "equal_fold k kw" "collectTerms kw p us = Inr (cs, rest)"
  shows "collectTerms kw p ts = Inr (c # cs, rest)"
proof -
  obtain d ws ds where d: "p us = Inr (d, ws)" "collect_more (length ws) kw p ws = Inr (ds, rest)" "cs = d # ds"
    using assms(5) by (auto simp: collectTerms_def sum_bind_Inr)
  have "collect_more (length us) kw p ws = Inr (ds, rest)"
    using collect_more_mono [OF d(2)] shrinksD(2) [OF assms(1,2) d(1)] by simp
  then show ?thesis using d assms(3,4) by (simp add: collectTerms_def consumeKeyword_def sigma_peek_def)
qed

lemma keyword_distinct: "equal_fold k ''or'' \<Longrightarrow> \<not> equal_fold k ''and''"
  by (auto simp: equal_fold_def to_lower_def lower_char_def is_upper_def)

lemma quantifier_word:
  assumes "to_lower q \<in> {''all'', ''1'', ''any''}"
  shows "q \<noteq> []" "q \<noteq> ''(''" "isQuantifier q" "\<not> equal_fold q ''not''"
proof -
  have one: "lower_char c = CHR ''1'' \<Longrightarrow> c = CHR ''1''" for c
    by (cases "is_upper c") (auto simp: lower_char_def is_upper_def dest!: arg_cong [of "char_of _" _ "of_char :: char \<Rightarrow> nat"])
  have "to_lower q = ''1'' \<Longrightarrow> q = ''1''" using one by (cases q) (auto simp: to_lower_def)
  then show "isQuantifier q" using assms by (auto simp: isQuantifier_def parse_int_def is_digit_def in_int64_def int64_min_def int64_max_def nat_of_digits_def digit_val_def)
  show "q \<noteq> []" "q \<noteq> ''(''" "\<not> equal_fold q ''not''"
    using assms by (auto simp: equal_fold_def to_lower_def lower_char_def is_upper_def)
qed

lemma parseQuantifier_complete:
  assumes "to_lower q \<in> {''all'', ''1'', ''any''}" "equal_fold k ''of''" "p \<noteq> []" "filter (\<lambda>n. patternMatches n p) names \<noteq> []"
  shows "parseQuantifier sels names (q # k # p # rest) = Inr (tree_of sels names (SQuant (to_lower q = ''all'') p), rest)"
  using assms quantifier_word(1) [OF assms(1)]
  by (auto simp: parseQuantifier_def sigma_advance_def sigma_peek_def consumeKeyword_def selectionsMatching_def Let_def)

lemma grammar_complete:
  assumes "set names = fst ` set sels"
  shows "not_expr names x ts \<Longrightarrow> length (ts @ rest) < n \<Longrightarrow>
     parseNot sels names n (ts @ rest) = Inr (tree_of sels names x, rest)"
  "and_terms names xs ts \<Longrightarrow> length (ts @ rest) < n \<Longrightarrow> \<not> equal_fold (sigma_peek rest) ''and'' \<Longrightarrow>
     collectTerms ''and'' (parseNot sels names n) (ts @ rest) = Inr (map (tree_of sels names) xs, rest)"
  "or_terms names xs ts \<Longrightarrow> length (ts @ rest) < n \<Longrightarrow> \<not> equal_fold (sigma_peek rest) ''and'' \<Longrightarrow>
     \<not> equal_fold (sigma_peek rest) ''or'' \<Longrightarrow>
     collectTerms ''or'' (parseAnd (parseNot sels names n)) (ts @ rest) = Inr (map (tree_of sels names) xs, rest)"
proof (induction arbitrary: rest n and rest n and rest n rule: not_expr_and_terms_or_terms.inducts)
  case (name w)
  then obtain m where "n = Suc m" by (cases n) auto
  moreover obtain c where "map_of sels w = Some c" using name(1) assms by (metis map_of_eq_None_iff not_Some_eq)
  ultimately show ?case using name by (auto simp: consumeKeyword_def sigma_peek_def parseAtom_def sigma_advance_def)
next
  case (quant q k p)
  then obtain m where m: "n = Suc m" by (cases n) auto
  show ?case using parseQuantifier_complete [OF quant(1-4), of sels rest] quantifier_word [OF quant(1)]
    by (simp add: m consumeKeyword_def sigma_peek_def parseAtom_def)
next
  case (parens xs ts)
  then obtain m where m: "n = Suc m" by (cases n) auto
  have stop: "\<not> equal_fold (sigma_peek ('')'' # rest)) ''and''" "\<not> equal_fold (sigma_peek ('')'' # rest)) ''or''" "\<not> equal_fold ''('' ''not''"
    by (simp_all add: sigma_peek_def equal_fold_def to_lower_def lower_char_def is_upper_def)
  have "collectTerms ''or'' (parseAnd (parseNot sels names m)) (ts @ '')'' # rest) = Inr (map (tree_of sels names) xs, '')'' # rest)"
    using parens(2) [of "'')'' # rest" m] parens.prems stop(1,2) by (simp add: m)
  then have "parseOr (parseNot sels names m) (ts @ '')'' # rest) = Inr (tree_of sels names (SOr xs), '')'' # rest)"
    by (simp add: parseOr_def collect_group)
  then show ?case using stop(3)
    by (simp add: m consumeKeyword_def sigma_peek_def parseAtom_def parseGroup_def parseExpression_def sigma_advance_def consumeToken_def)
next
  case (neg k x ts)
  then obtain m where m: "n = Suc m" by (cases n) auto
  then show ?case using neg(3) [of rest m] neg(1,4) by (simp add: consumeKeyword_def sigma_peek_def)
next
  case (and_one x ts)
  then show ?case using collectTerms_one [of "parseNot sels names n" "ts @ rest"] by simp
next
  case (and_more x ts k xs ts')
  have "parseNot sels names n (ts @ k # ts' @ rest) = Inr (tree_of sels names x, k # ts' @ rest)"
    using and_more(2) [of "k # ts' @ rest" n] and_more.prems by simp
  then show ?case
    using collectTerms_Cons [OF parseNot_shrinks, where n = n and us = "ts' @ rest" and ts = "ts @ k # ts' @ rest"] and_more by simp
next
  case (or_one xs ts)
  then have "parseAnd (parseNot sels names n) (ts @ rest) = Inr (tree_of sels names (SAnd xs), rest)"
    by (simp add: parseAnd_def collect_group)
  then show ?case using collectTerms_one or_one by simp
next
  case (or_more xs ts k ys ts')
  have "parseAnd (parseNot sels names n) (ts @ k # ts' @ rest) = Inr (tree_of sels names (SAnd xs), k # ts' @ rest)"
    using or_more(2) [of "k # ts' @ rest" n] or_more.prems keyword_distinct [OF or_more(5)]
    by (simp add: parseAnd_def collect_group sigma_peek_def)
  then show ?case
    using collectTerms_Cons [OF parseAnd_shrinks [OF parseNot_shrinks], where n = n and us = "ts' @ rest" and ts = "ts @ k # ts' @ rest"] or_more by simp
qed

lemma parseCondition_complete:
  assumes "set names = fst ` set sels" "or_terms names xs (tokenize expression)"
  shows "parseCondition expression sels names = Inr (tree_of sels names (SOr xs))"
  using grammar_complete(3) [OF assms, of "[]" "Suc (length (tokenize expression))"]
  by (simp add: parseCondition_def parseExpression_def parseOr_def collect_group sigma_peek_def equal_fold_def to_lower_def)

text \<open>
  The condition parser returns for every expression, accepts exactly the expressions of the grammar (\<open>not\<close> binds
  tighter than \<open>and\<close>, \<open>and\<close> tighter than \<open>or\<close>, quantifiers range over the matching selections) and returns the tree
  of the expression.
\<close>

theorem parseCondition_decides:
  "parseCondition expression sels (sort (map fst sels)) \<noteq> Inl SigmaFuel \<and>
   (parseCondition expression sels (sort (map fst sels)) = Inr c \<longleftrightarrow>
      (\<exists>xs. or_terms (sort (map fst sels)) xs (tokenize expression) \<and> c = tree_of sels (sort (map fst sels)) (SOr xs)))"
proof -
  define names where "names = sort (map fst sels)"
  have names: "set names = fst ` set sels" by (simp add: names_def)
  show ?thesis using parseCondition_no_fuel parseCondition_sound [OF _ names] parseCondition_complete [OF names] unfolding names_def by blast
qed

end
