(* ===== verification/Sigma_Meaning.thy ===== *)
theory Sigma_Meaning
  imports Sigma_Grammar
begin

text \<open>
  What Sigma rules mean, without mention of the condition tree that is emitted for them (\<^verbatim>\<open>internal/sigma/detection.go\<close>):
  the meaning of a condition expression, of wildcard patterns and of selections, and the lemmas that connect the
  expression and the patterns with the trees and operators of the rule language.
\<close>

section \<open>The meaning of an expression and of its tree\<close>

fun meaning :: "(string \<Rightarrow> bool) \<Rightarrow> string list \<Rightarrow> sigma_expr \<Rightarrow> bool" where
  "meaning v names (SName n) = v n"
| "meaning v names (SQuant every p) =
     (if every then list_all v (filter (\<lambda>n. patternMatches n p) names) else list_ex v (filter (\<lambda>n. patternMatches n p) names))"
| "meaning v names (SNot x) = (\<not> meaning v names x)"
| "meaning v names (SAnd xs) = list_all (meaning v names) xs"
| "meaning v names (SOr xs) = list_ex (meaning v names) xs"

abbreviation tree_holds :: "go_lib \<Rightarrow> condDoc \<Rightarrow> event \<Rightarrow> bool" where
  "tree_holds L c e \<equiv> holds L (loaded_cond c) e"

lemma tree_holds_allOf: "cs \<noteq> [] \<Longrightarrow> tree_holds L (allOf cs) e \<longleftrightarrow> list_all (\<lambda>c. tree_holds L c e) cs"
  by (cases cs) (auto simp: allOf_def list_all_iff split: list.split)

lemma tree_holds_anyOf: "cs \<noteq> [] \<Longrightarrow> tree_holds L (anyOf cs) e \<longleftrightarrow> list_ex (\<lambda>c. tree_holds L c e) cs"
  by (cases cs) (auto simp: anyOf_def list_ex_iff split: list.split)

lemma wf_allOf: "cs \<noteq> [] \<Longrightarrow> list_all (\<lambda>c. wf_cond L (loaded_cond c)) cs \<Longrightarrow> wf_cond L (loaded_cond (allOf cs))"
  using wf_all [of "map loaded_cond cs" L ANil] by (cases cs) (auto simp: allOf_def list_all_iff comp_def split: list.split)

lemma wf_anyOf: "cs \<noteq> [] \<Longrightarrow> list_all (\<lambda>c. wf_cond L (loaded_cond c)) cs \<Longrightarrow> wf_cond L (loaded_cond (anyOf cs))"
  using wf_any [of "map loaded_cond cs" L ANil] by (cases cs) (auto simp: anyOf_def list_all_iff comp_def split: list.split)

lemma tree_means:
  "not_expr names x ts \<Longrightarrow> tree_holds L (tree_of sels names x) e = meaning (\<lambda>n. tree_holds L (the (map_of sels n)) e) names x"
  "and_terms names xs ts \<Longrightarrow> xs \<noteq> [] \<and>
     list_all (\<lambda>x. tree_holds L (tree_of sels names x) e = meaning (\<lambda>n. tree_holds L (the (map_of sels n)) e) names x) xs"
  "or_terms names xs ts \<Longrightarrow> xs \<noteq> [] \<and>
     list_all (\<lambda>x. tree_holds L (tree_of sels names x) e = meaning (\<lambda>n. tree_holds L (the (map_of sels n)) e) names x) xs"
proof (induction rule: not_expr_and_terms_or_terms.inducts)
  case (quant q k p)
  then show ?case
    using tree_holds_allOf [of "selectionsMatching sels names p" L e] tree_holds_anyOf [of "selectionsMatching sels names p" L e]
    by (auto simp: selectionsMatching_def list_all_iff list_ex_iff)
next
  case (parens xs ts)
  then show ?case using tree_holds_anyOf [of "map (tree_of sels names) xs" L e] by (auto simp: list_all_iff list_ex_iff)
next
  case (neg k x ts)
  then show ?case by (simp add: notOf_def)
next
  case (or_one xs ts)
  then show ?case using tree_holds_allOf [of "map (tree_of sels names) xs" L e] by (auto simp: list_all_iff)
next
  case (or_more xs ts k ys ts')
  then show ?case using tree_holds_allOf [of "map (tree_of sels names) xs" L e] by (auto simp: list_all_iff)
qed simp_all

lemma tree_wf:
  assumes "\<forall>c \<in> snd ` set sels. wf_cond L (loaded_cond c)" "set names = fst ` set sels"
  shows "not_expr names x ts \<Longrightarrow> wf_cond L (loaded_cond (tree_of sels names x))"
  "and_terms names xs ts \<Longrightarrow> xs \<noteq> [] \<and> list_all (\<lambda>x. wf_cond L (loaded_cond (tree_of sels names x))) xs"
  "or_terms names xs ts \<Longrightarrow> xs \<noteq> [] \<and> list_all (\<lambda>x. wf_cond L (loaded_cond (tree_of sels names x))) xs"
proof (induction rule: not_expr_and_terms_or_terms.inducts)
  case (name n)
  then obtain c where "map_of sels n = Some c" using assms(2) by (metis map_of_eq_None_iff not_Some_eq)
  then show ?case using assms(1) by (auto dest!: map_of_SomeD)
next
  case (quant q k p)
  have "wf_cond L (loaded_cond c)" if c: "c \<in> set (selectionsMatching sels names p)" for c
  proof -
    obtain n where n: "n \<in> set names" "c = the (map_of sels n)" using c by (auto simp: selectionsMatching_def)
    then obtain d where "map_of sels n = Some d" using assms(2) by (metis map_of_eq_None_iff not_Some_eq)
    then show ?thesis using n assms(1) by (auto dest!: map_of_SomeD)
  qed
  moreover have "selectionsMatching sels names p \<noteq> []" using quant(4) by (simp add: selectionsMatching_def)
  ultimately show ?case using wf_allOf wf_anyOf by (simp add: list_all_iff)
next
  case (parens xs ts)
  then show ?case using wf_anyOf [of "map (tree_of sels names) xs" L] by (auto simp: list_all_iff)
next
  case (neg k x ts)
  then show ?case by (simp add: notOf_def wf_not)
next
  case (or_one xs ts)
  then show ?case using wf_allOf [of "map (tree_of sels names) xs" L] by (auto simp: list_all_iff)
next
  case (or_more xs ts k ys ts')
  then show ?case using wf_allOf [of "map (tree_of sels names) xs" L] by (auto simp: list_all_iff)
qed simp_all

section \<open>Wildcard patterns\<close>

text \<open>A star stands for any text and a question mark for any character.\<close>

function glob :: "string \<Rightarrow> string \<Rightarrow> bool" where
  "glob [] s = (s = [])"
| "glob (c # p) s =
     (if c = CHR ''*'' then glob p s \<or> (case s of [] \<Rightarrow> False | x # r \<Rightarrow> glob (c # p) r)
      else case s of [] \<Rightarrow> False | x # r \<Rightarrow> (c = CHR ''?'' \<or> c = x) \<and> glob p r)"
  by pat_completeness auto
termination by (relation "measure (\<lambda>(p, s). length p + length s)") auto

definition is_wild :: "char \<Rightarrow> bool" where
  "is_wild c \<longleftrightarrow> c = CHR ''*'' \<or> c = CHR ''?''"

lemma glob_star: "glob (CHR ''*'' # p) s \<longleftrightarrow> (\<exists>u v. s = u @ v \<and> glob p v)"
proof (induction s)
  case (Cons x s)
  have "(\<exists>u v. x # s = u @ v \<and> glob p v) \<longleftrightarrow> glob p (x # s) \<or> (\<exists>u v. s = u @ v \<and> glob p v)"
    by (metis append_Cons append_Nil append_eq_Cons_conv)
  then show ?case using Cons by simp
qed simp

lemma glob_stars: "glob (replicate (Suc n) (CHR ''*'') @ p) s \<longleftrightarrow> (\<exists>u v. s = u @ v \<and> glob p v)"
proof (induction n arbitrary: s)
  case (Suc n)
  then show ?case unfolding replicate_Suc [of "Suc n"] append_Cons glob_star by (metis append.assoc append_Nil)
qed (simp add: glob_star del: glob.simps(2))

lemma glob_literal: "list_all (\<lambda>c. \<not> is_wild c) w \<Longrightarrow> glob (w @ p) s \<longleftrightarrow> (\<exists>v. s = w @ v \<and> glob p v)"
  by (induction w arbitrary: s) (auto simp: is_wild_def split: list.split)

lemma trim_stars_parts:
  obtains i j where "w = replicate i (CHR ''*'') @ trim_stars w @ replicate j (CHR ''*'')"
    "has_prefix w ''*'' \<longleftrightarrow> i > 0" "has_suffix w ''*'' \<longleftrightarrow> j > 0 \<or> (trim_stars w = [] \<and> i > 0)"
    "trim_stars w = [] \<longrightarrow> j = 0"
proof -
  let ?P = "\<lambda>c. c = CHR ''*''"
  define d where "d = dropWhile ?P w"
  define i where "i = length (takeWhile ?P w)"
  define j where "j = length (takeWhile ?P (rev d))"
  have stars: "takeWhile ?P s = replicate (length (takeWhile ?P s)) (CHR ''*'')" for s
    by (rule replicate_length_same [symmetric]) (auto dest: set_takeWhileD)
  define c where "c = trim_stars w"
  have core: "c = rev (dropWhile ?P (rev d))" by (simp add: c_def trim_stars_def d_def)
  have "rev d = replicate j (CHR ''*'') @ dropWhile ?P (rev d)" unfolding j_def using stars [of "rev d"] takeWhile_dropWhile_id [of ?P "rev d"] by metis
  then have "rev (rev d) = rev (replicate j (CHR ''*'') @ dropWhile ?P (rev d))" by (rule arg_cong)
  then have d: "d = c @ replicate j (CHR ''*'')" by (simp add: core)
  have vw: "w = replicate i (CHR ''*'') @ d" unfolding i_def d_def using stars [of w] takeWhile_dropWhile_id [of ?P w] by metis
  have hd_d: "d \<noteq> [] \<Longrightarrow> hd d \<noteq> CHR ''*''" unfolding d_def by (metis (mono_tags, lifting) hd_dropWhile)
  have hd_core: "c \<noteq> [] \<Longrightarrow> last (c) \<noteq> CHR ''*''"
    unfolding core by (metis (mono_tags, lifting) hd_dropWhile last_rev rev_is_Nil_conv)
  have j0: "c = [] \<Longrightarrow> j = 0" using d hd_d by (cases j) auto
  have "has_prefix w ''*'' \<longleftrightarrow> i > 0"
    using vw hd_d by (cases i; cases d) (auto simp: has_prefix_def)
  moreover have "has_suffix w ''*'' \<longleftrightarrow> w \<noteq> [] \<and> last w = CHR ''*''"
    by (cases w rule: rev_cases) (auto simp: has_suffix_def)
  moreover have "w \<noteq> [] \<and> last w = CHR ''*'' \<longleftrightarrow> j > 0 \<or> (c = [] \<and> i > 0)"
  proof (cases "c = []")
    case True
    then have "w = replicate i (CHR ''*'')" using vw d j0 by simp
    then show ?thesis using True j0 by (cases i) (auto simp: last_replicate)
  next
    case False
    then show ?thesis using vw d hd_core by (cases j) (auto simp: last_append last_replicate)
  qed
  ultimately show thesis using that [of i j] vw d j0 unfolding c_def by (metis append.assoc)
qed

text \<open>
  What is used of the regular expressions of Go: the translation of a wildcard pattern compiles and matches, on a
  text of one line, what the pattern stands for (a dot does not match a newline). Patterns and texts are ASCII: a
  dot matches a code point, which is a byte only there.
\<close>

definition ascii :: "string \<Rightarrow> bool" where
  "ascii s \<longleftrightarrow> list_all (\<lambda>c. of_char c < (128 :: nat)) s"

definition matches_wildcards :: "go_lib \<Rightarrow> bool" where
  "matches_wildcards L \<longleftrightarrow> (\<forall>p. ascii p \<longrightarrow>
     (\<exists>r. regexp_compile L (wildcardToRegex p) = Some r \<and> (\<forall>s. ascii s \<and> CHR 0x0A \<notin> set s \<longrightarrow> r s = glob p s)))"

definition one_line :: "event \<Rightarrow> bool" where
  "one_line e \<longleftrightarrow> (\<forall>f s. Field e f = Some (AStr s) \<longrightarrow> ascii s \<and> CHR 0x0A \<notin> set s)"

section \<open>The meaning of selections\<close>

text \<open>A value without an operator is a wildcard pattern if it is a text with wildcards.\<close>

definition value_means :: "go_lib \<Rightarrow> string \<Rightarrow> string \<Rightarrow> any \<Rightarrow> event \<Rightarrow> bool" where
  "value_means L field op v e =
     (if op \<noteq> [] then leaf_holds L field op v e
      else case v of
        AStr p \<Rightarrow> if list_ex is_wild p then \<exists>s. Field e field = Some (AStr s) \<and> glob p s
                else leaf_holds L field ''eq'' v e
      | _ \<Rightarrow> leaf_holds L field ''eq'' v e)"

definition entry_means :: "go_lib \<Rightarrow> sigma_lib \<Rightarrow> event \<Rightarrow> string \<times> yaml_node \<Rightarrow> bool" where
  "entry_means L Y e entry =
     (case entry of (key, node) \<Rightarrow>
        case split_on CHR 0x7C key of
          [] \<Rightarrow> False
        | name # modifiers \<Rightarrow>
            (case (argusField name, modifierOp modifiers, decodeValues Y node) of
               (Some field, Inr (op, every), Inr values) \<Rightarrow>
                 if every then list_all (\<lambda>v. value_means L field op v e) values else list_ex (\<lambda>v. value_means L field op v e) values
             | _ \<Rightarrow> False))"

definition selection_means :: "go_lib \<Rightarrow> sigma_lib \<Rightarrow> event \<Rightarrow> yaml_node \<Rightarrow> bool" where
  "selection_means L Y e node =
     (if yn_Kind node = SequenceNode
      then list_ex (\<lambda>item. list_all (entry_means L Y e) (node_entries (yn_Content item))) (yn_Content node)
      else list_all (entry_means L Y e) (node_entries (yn_Content node)))"

lemma regex_leaf:
  assumes "matches_wildcards L" "one_line e" "ascii p"
  shows "leaf_holds L f ''regex'' (AStr (wildcardToRegex p)) e \<longleftrightarrow> (\<exists>s. Field e f = Some (AStr s) \<and> glob p s)"
proof -
  obtain r where r: "regexp_compile L (wildcardToRegex p) = Some r" "\<forall>s. ascii s \<and> CHR 0x0A \<notin> set s \<longrightarrow> r s = glob p s"
    using assms(1,3) unfolding matches_wildcards_def by blast
  then show ?thesis using assms(2) by (auto simp: leaf_holds_def toString_def one_line_def)
qed

lemma list_ex_is_wild: "list_ex (\<lambda>c. c = CHR ''*'' \<or> c = CHR ''?'') = list_ex is_wild"
  by (rule arg_cong [of _ _ list_ex]) (auto simp: is_wild_def)

lemma glob_core:
  assumes "list_all (\<lambda>x. \<not> is_wild x) c"
  shows "glob (replicate (Suc i) (CHR ''*'') @ c @ replicate (Suc j) (CHR ''*'')) s \<longleftrightarrow> sublist c s"
    "glob (replicate (Suc i) (CHR ''*'') @ c) s \<longleftrightarrow> suffix c s"
    "glob (c @ replicate (Suc j) (CHR ''*'')) s \<longleftrightarrow> prefix c s"
proof -
  have tl: "glob (replicate (Suc j) (CHR ''*'')) v" for v
    using glob_stars [of j "[]" v] by (simp del: replicate_Suc)
  have nil: "glob c v \<longleftrightarrow> v = c" for v using glob_literal [OF assms, of "[]" v] by auto
  show "glob (replicate (Suc i) (CHR ''*'') @ c @ replicate (Suc j) (CHR ''*'')) s \<longleftrightarrow> sublist c s"
    unfolding glob_stars glob_literal [OF assms] sublist_def using tl by auto
  show "glob (replicate (Suc i) (CHR ''*'') @ c) s \<longleftrightarrow> suffix c s"
    unfolding glob_stars nil suffix_def by auto
  show "glob (c @ replicate (Suc j) (CHR ''*'')) s \<longleftrightarrow> prefix c s"
    unfolding glob_literal [OF assms] prefix_def using tl by auto
qed

text \<open>The operator inferred from a pattern means what the pattern means.\<close>

lemma inferStringOp_means:
  assumes "matches_wildcards L" "one_line e" "inferStringOp p = (op, cleaned)" "ascii p"
  shows "leaf_holds L f op (AStr cleaned) e \<longleftrightarrow> value_means L f [] (AStr p) e"
proof -
  obtain i j where parts: "p = replicate i (CHR ''*'') @ trim_stars p @ replicate j (CHR ''*'')"
    "has_prefix p ''*'' \<longleftrightarrow> i > 0" "has_suffix p ''*'' \<longleftrightarrow> j > 0 \<or> (trim_stars p = [] \<and> i > 0)" "trim_stars p = [] \<longrightarrow> j = 0"
    using trim_stars_parts [of p] by blast
  define c where "c = trim_stars p"
  have p: "p = replicate i (CHR ''*'') @ c @ replicate j (CHR ''*'')" using parts(1) by (simp only: c_def)
  have infer: "(op, cleaned) = (if list_ex is_wild c then (''regex'', wildcardToRegex p)
      else if i > 0 \<and> (j > 0 \<or> c = []) then (''contains'', c) else if i > 0 then (''endswith'', c)
      else if j > 0 then (''startswith'', c) else (''eq'', p))"
    using assms(3) parts(4) unfolding inferStringOp_def Let_def parts(2,3) c_def [symmetric] list_ex_is_wild by (auto split: if_splits)
  have star: "is_wild (CHR ''*'')" by (simp add: is_wild_def)
  have wild: "list_ex is_wild p \<longleftrightarrow> i > 0 \<or> j > 0 \<or> list_ex is_wild c"
    unfolding p using star by (auto simp: list_ex_iff)
  show ?thesis
  proof (cases "list_ex is_wild c")
    case True
    then show ?thesis using infer wild regex_leaf [OF assms(1,2,4)] by (simp add: value_means_def)
  next
    case False
    then have lit: "list_all (\<lambda>x. \<not> is_wild x) c" by (auto simp: list_all_iff list_ex_iff)
    consider "i = 0" "j = 0" | i' j' where "i = Suc i'" "j = Suc j'" | i' where "i = Suc i'" "j = 0" "c = []"
      | i' where "i = Suc i'" "j = 0" "c \<noteq> []" | j' where "i = 0" "j = Suc j'"
      by (cases i; cases j; cases "c = []") auto
    then show ?thesis
    proof cases
      case 1
      then show ?thesis using infer wild False by (simp add: value_means_def)
    next
      case 2
      then have "glob p s \<longleftrightarrow> sublist c s" for s using glob_core(1) [OF lit] p by simp
      then show ?thesis using infer wild False 2 by (simp add: value_means_def leaf_holds_def toString_def)
    next
      case 3
      then have "glob p s \<longleftrightarrow> sublist c s" for s using glob_core(2) [OF lit, of i' s] p by simp
      then show ?thesis using infer wild False 3 by (simp add: value_means_def leaf_holds_def toString_def)
    next
      case 4
      then have "glob p s \<longleftrightarrow> suffix c s" for s using glob_core(2) [OF lit, of i' s] p by simp
      then show ?thesis using infer wild False 4 by (simp add: value_means_def leaf_holds_def toString_def)
    next
      case 5
      then have "glob p s \<longleftrightarrow> prefix c s" for s using glob_core(3) [OF lit, of j' s] p by simp
      then show ?thesis using infer wild False 5 by (simp add: value_means_def leaf_holds_def toString_def)
    qed
  qed
qed

end
