(* ===== verification/Sigma_Convert.thy ===== *)
theory Sigma_Convert
  imports Sigma_Meaning
begin

text \<open>
  Converted Sigma rules and the rule loader: which conversions load, that a loaded one fires on exactly the events
  the Sigma rule describes, and which rules convert and then do not load
  (\<^verbatim>\<open>internal/sigma\<close>, \<^verbatim>\<open>cmd/argus/sigma.go\<close> against \<^verbatim>\<open>internal/detect\<close>).
\<close>

section \<open>Converted selections\<close>

lemma argusField_known: "argusField n = Some f \<Longrightarrow> KnownField f \<and> f \<noteq> []"
proof -
  assume "argusField n = Some f"
  then have "f \<in> set (map snd sigmaFields)" unfolding argusField_def by (force dest: map_of_SomeD)
  moreover have "list_all (\<lambda>f. f \<in> set (map fst fieldAccessors) \<and> f \<noteq> []) (map snd sigmaFields)"
    by (simp add: sigmaFields_def fieldAccessors_def)
  ultimately show ?thesis unfolding KnownField_iff list_all_iff by blast
qed

definition comparisons :: "string list" where
  "comparisons = [''gt'', ''lt'', ''ge'', ''le'']"

definition sigma_ops :: "string list" where
  "sigma_ops = [[], ''contains'', ''startswith'', ''endswith'', ''regex'', ''cidr''] @ comparisons"

lemma if_eqE: "(if a then x else y) = z \<Longrightarrow> (a \<Longrightarrow> x = z \<Longrightarrow> R) \<Longrightarrow> (\<not> a \<Longrightarrow> y = z \<Longrightarrow> R) \<Longrightarrow> R"
  by (cases a) simp_all

lemma modifier_loop_ops: "modifier_loop ms (op, every) = Inr (op', every') \<Longrightarrow> op \<in> set sigma_ops \<Longrightarrow> op' \<in> set sigma_ops"
proof (induction ms arbitrary: op every)
  case (Cons m ms)
  define l where "l = to_lower m"
  define S where "S = set sigma_ops"
  have op: "op \<in> S" "''regex'' \<in> S" "''cidr'' \<in> S" "''ge'' \<in> S" "''le'' \<in> S"
    using Cons.prems(2) by (simp_all add: S_def sigma_ops_def comparisons_def)
  have word: "l = ''contains'' \<or> l = ''startswith'' \<or> l = ''endswith'' \<Longrightarrow> l \<in> S" "l = ''gt'' \<or> l = ''lt'' \<Longrightarrow> l \<in> S"
    by (elim disjE; simp add: S_def sigma_ops_def comparisons_def)+
  have "\<exists>o1 e1. modifier_loop ms (o1, e1) = Inr (op', every') \<and> o1 \<in> S"
    by (insert Cons.prems(1) [unfolded modifier_loop.simps Let_def, folded l_def],
        elim if_eqE; ((intro exI conjI, assumption, (rule op | erule word)) | simp only: sum.distinct))
  then have "\<exists>o1 e1. modifier_loop ms (o1, e1) = Inr (op', every') \<and> o1 \<in> set sigma_ops"
    by (simp only: S_def)
  then show ?case using Cons.IH by blast
qed simp

lemma modifierOp_ops: "modifierOp ms = Inr (op, every) \<Longrightarrow> op \<in> set sigma_ops"
  using modifier_loop_ops [of ms "[]" False op every] by (simp add: modifierOp_def sigma_ops_def)

lemma textValue_toString [simp]: "textValue = toString"
  by (auto simp: fun_eq_iff textValue_def toString_def split: any.split)

definition ascii_value :: "any \<Rightarrow> bool" where
  "ascii_value v \<longleftrightarrow> (case v of AStr p \<Rightarrow> ascii p | _ \<Rightarrow> True)"

lemma valueLeaf_means:
  assumes "matches_wildcards L" "one_line e" "valueLeaf L f op v = Inr c" "ascii_value v"
  shows "tree_holds L c e \<longleftrightarrow> value_means L f op v e"
proof (cases "op = [] \<and> (\<exists>p. v = AStr p)")
  case True
  then obtain p where p: "op = []" "v = AStr p" by blast
  obtain o1 w where i: "inferStringOp p = (o1, w)" by fastforce
  then have "c = sigma_leaf f o1 (AStr w)" using assms(3) p by (auto simp: valueLeaf_def split: option.splits)
  then show ?thesis using inferStringOp_means [OF assms(1,2) i] assms(4) p by (simp add: sigma_leaf_def ascii_value_def)
next
  case False
  then have "c = sigma_leaf f (if op = [] then ''eq'' else op) v"
    using assms(3) by (auto simp: valueLeaf_def split: option.splits any.splits if_splits)
  then show ?thesis using False by (auto simp: sigma_leaf_def value_means_def split: any.split)
qed

lemma inferStringOp_ops: "inferStringOp p = (op, w) \<Longrightarrow> op \<in> {''eq'', ''contains'', ''startswith'', ''endswith'', ''regex''}"
  by (auto simp: inferStringOp_def Let_def split: if_splits)

lemma valid_leaf:
  assumes "validateOperatorValue L op v = None" "KnownField f" "f \<noteq> []"
    "op \<in> {''eq'', ''contains'', ''startswith'', ''endswith'', ''regex'', ''cidr'', ''gt'', ''lt'', ''ge'', ''le''}"
    "op \<in> set comparisons \<longrightarrow> toInt64 v \<noteq> None"
  shows "wf_cond L (loaded_cond (sigma_leaf f op v))"
proof -
  have "leaf_ok L f op v"
    using assms(4) assms(1,5)
    unfolding leaf_ok_def validateOperatorValue_def comparisons_def
    by (elim insertE emptyE; simp add: assms(2,3) split: if_splits)
  then show ?thesis by (simp add: sigma_leaf_def wf_leaf)
qed

lemma valueLeaf_wf:
  assumes "valueLeaf L f op v = Inr c" "KnownField f" "f \<noteq> []" "op \<in> set sigma_ops" "op \<in> set comparisons \<longrightarrow> toInt64 v \<noteq> None"
  shows "wf_cond L (loaded_cond c)"
proof (cases "op = [] \<and> (\<exists>p. v = AStr p)")
  case True
  then obtain p where p: "op = []" "v = AStr p" by blast
  obtain o1 w where i: "inferStringOp p = (o1, w)" by fastforce
  then have "c = sigma_leaf f o1 (AStr w)" "validateOperatorValue L o1 (AStr w) = None"
    using assms(1) p by (auto simp: valueLeaf_def split: option.splits)
  moreover have "o1 \<in> {''eq'', ''contains'', ''startswith'', ''endswith'', ''regex''}" by (rule inferStringOp_ops [OF i])
  ultimately show ?thesis using valid_leaf [of L o1 "AStr w" f] assms(2,3) by (auto simp: comparisons_def)
next
  case False
  define o1 where "o1 = (if op = [] then ''eq'' else op)"
  have "c = sigma_leaf f o1 v" "validateOperatorValue L o1 v = None"
    using assms(1) False by (auto simp: o1_def valueLeaf_def split: option.splits any.splits if_splits)
  moreover have "o1 \<in> {''eq'', ''contains'', ''startswith'', ''endswith'', ''regex'', ''cidr'', ''gt'', ''lt'', ''ge'', ''le''}"
    using assms(4) by (auto simp: o1_def sigma_ops_def comparisons_def)
  moreover have "o1 \<in> set comparisons \<longrightarrow> toInt64 v \<noteq> None" using assms(5) by (auto simp: o1_def comparisons_def)
  ultimately show ?thesis using valid_leaf [of L o1 v f] assms(2,3) by (simp only: simp_thms)
qed

lemma value_leaves_Inr: "value_leaves L f op vs = Inr cs \<Longrightarrow> list_all2 (\<lambda>v c. valueLeaf L f op v = Inr c) vs cs"
  by (induction vs arbitrary: cs) (auto simp: sum_bind_Inr)

text \<open>An entry in scope: its texts are ASCII, and the values of an ordering comparison are numbers.\<close>

definition loadable_entry :: "sigma_lib \<Rightarrow> string \<times> yaml_node \<Rightarrow> bool" where
  "loadable_entry Y entry =
     (case (modifierOp (tl (split_on CHR 0x7C (fst entry))), decodeValues Y (snd entry)) of
        (Inr (op, every), Inr values) \<Rightarrow>
          list_all ascii_value values \<and> (op \<in> set comparisons \<longrightarrow> list_all (\<lambda>v. toInt64 v \<noteq> None) values)
      | _ \<Rightarrow> True)"

lemma fieldCondition_Inr:
  assumes "fieldCondition L Y key node = Inr c"
  obtains name ms field op every vs cs where "split_on CHR 0x7C key = name # ms" "argusField name = Some field"
    "modifierOp ms = Inr (op, every)" "decodeValues Y node = Inr vs" "vs \<noteq> []"
    "list_all2 (\<lambda>v c. valueLeaf L field op v = Inr c) vs cs" "c = (if every then allOf cs else anyOf cs)"
proof -
  obtain name ms where s: "split_on CHR 0x7C key = name # ms" by (cases "split_on CHR 0x7C key") (use split_on_nonempty in auto)
  note eq = assms [unfolded fieldCondition_def s Let_def list.sel]
  obtain field where f: "argusField name = Some field" using eq by (cases "argusField name") simp_all
  obtain op every vs where m: "modifierOp ms = Inr (op, every)" "decodeValues Y node = Inr vs"
      "(if vs = [] then Inl (Unsupported (''null/empty value for field '' @ quote name))
        else sum_bind (value_leaves L field op vs) (\<lambda>leaves. Inr (if every then allOf leaves else anyOf leaves))) = Inr c"
    using eq [unfolded f option.case sum_bind_Inr] by (auto simp: sum_bind_Inr)
  have vs: "vs \<noteq> []" using m(3) by (cases "vs = []") simp_all
  obtain cs where cs: "value_leaves L field op vs = Inr cs" "c = (if every then allOf cs else anyOf cs)"
    using m(3) vs by (simp add: sum_bind_Inr) blast
  show thesis by (rule that [OF s f m(1,2) vs value_leaves_Inr [OF cs(1)] cs(2)])
qed

lemma list_all2_means:
  assumes "list_all2 R xs ys" "\<And>x y. x \<in> set xs \<Longrightarrow> R x y \<Longrightarrow> P y = Q x"
  shows "list_all P ys = list_all Q xs" "list_ex P ys = list_ex Q xs"
  using assms by (induction rule: list_all2_induct) auto

lemma list_all2_wf:
  assumes "list_all2 R xs ys" "\<And>x y. x \<in> set xs \<Longrightarrow> R x y \<Longrightarrow> P y"
  shows "list_all P ys"
  using assms by (induction rule: list_all2_induct) auto

lemma fieldCondition_means:
  assumes "matches_wildcards L" "one_line e" "fieldCondition L Y key node = Inr c" "loadable_entry Y (key, node)"
  shows "tree_holds L c e \<longleftrightarrow> entry_means L Y e (key, node)"
  using assms(3)
proof (rule fieldCondition_Inr)
  fix name ms field op every vs cs
  assume s: "split_on CHR 0x7C key = name # ms" "argusField name = Some field" "modifierOp ms = Inr (op, every)"
    "decodeValues Y node = Inr vs" "vs \<noteq> []" and l: "list_all2 (\<lambda>v c. valueLeaf L field op v = Inr c) vs cs"
    and c: "c = (if every then allOf cs else anyOf cs)"
  have cs: "cs \<noteq> []" using s(5) l by auto
  have ascii: "ascii_value v" if "v \<in> set vs" for v
    using assms(4) s that by (auto simp: loadable_entry_def list_all_iff)
  have m: "list_all (\<lambda>c. tree_holds L c e) cs = list_all (\<lambda>v. value_means L field op v e) vs"
      "list_ex (\<lambda>c. tree_holds L c e) cs = list_ex (\<lambda>v. value_means L field op v e) vs"
    using list_all2_means [OF l, of "\<lambda>c. tree_holds L c e" "\<lambda>v. value_means L field op v e"] 
      valueLeaf_means [OF assms(1,2) _ ascii] by blast+
  show ?thesis
    using m s tree_holds_allOf [OF cs, of L e] tree_holds_anyOf [OF cs, of L e] by (cases every) (simp_all add: c entry_means_def)
qed

lemma fieldCondition_wf:
  assumes "fieldCondition L Y key node = Inr c" "loadable_entry Y (key, node)"
  shows "wf_cond L (loaded_cond c)"
  using assms(1)
proof (rule fieldCondition_Inr)
  fix name ms field op every vs cs
  assume s: "split_on CHR 0x7C key = name # ms" "argusField name = Some field" "modifierOp ms = Inr (op, every)"
    "decodeValues Y node = Inr vs" "vs \<noteq> []" and l: "list_all2 (\<lambda>v c. valueLeaf L field op v = Inr c) vs cs"
    and c: "c = (if every then allOf cs else anyOf cs)"
  have cs: "cs \<noteq> []" using s(5) l by auto
  have num: "op \<in> set comparisons \<longrightarrow> toInt64 v \<noteq> None" if "v \<in> set vs" for v
    using assms(2) s that by (auto simp: loadable_entry_def list_all_iff)
  have "list_all (\<lambda>c. wf_cond L (loaded_cond c)) cs"
    by (rule list_all2_wf [OF l], erule valueLeaf_wf [OF _ _ _ modifierOp_ops [OF s(3)] num])
      (simp_all only: argusField_known [OF s(2)] simp_thms)
  then show ?thesis using wf_allOf [OF cs] wf_anyOf [OF cs] by (simp add: c)
qed


lemma field_conditions_Inr:
  "field_conditions L Y entries = Inr cs \<Longrightarrow> list_all2 (\<lambda>entry c. fieldCondition L Y (fst entry) (snd entry) = Inr c) entries cs"
proof (induction entries arbitrary: cs)
  case (Cons entry entries)
  then show ?case by (cases entry) (auto simp: sum_bind_Inr)
qed simp

lemma selectionMap_Inr:
  assumes "selectionMap L Y node = Inr c"
  obtains cs where "cs \<noteq> []" "c = allOf cs"
    "list_all2 (\<lambda>entry c. fieldCondition L Y (fst entry) (snd entry) = Inr c) (sort_key fst (node_entries (yn_Content node))) cs"
proof -
  obtain cs where cs: "field_conditions L Y (sort_key fst (node_entries (yn_Content node))) = Inr cs"
      "(if cs = [] then Inl (SigmaError ''empty selection'') else Inr (allOf cs)) = Inr c"
    using assms unfolding selectionMap_def sum_bind_Inr by blast
  moreover from cs(2) have "cs \<noteq> []" "c = allOf cs" by (cases "cs = []"; simp)+
  ultimately show thesis using that field_conditions_Inr by blast
qed

lemma selectionMap_means:
  assumes "matches_wildcards L" "one_line e" "selectionMap L Y node = Inr c"
    "list_all (loadable_entry Y) (node_entries (yn_Content node))"
  shows "tree_holds L c e \<longleftrightarrow> list_all (entry_means L Y e) (node_entries (yn_Content node))"
  using assms(3)
proof (rule selectionMap_Inr)
  fix cs assume cs: "cs \<noteq> []" "c = allOf cs"
    and l: "list_all2 (\<lambda>entry c. fieldCondition L Y (fst entry) (snd entry) = Inr c) (sort_key fst (node_entries (yn_Content node))) cs"
  have "list_all (\<lambda>c. tree_holds L c e) cs = list_all (entry_means L Y e) (sort_key fst (node_entries (yn_Content node)))"
    by (rule list_all2_means(1) [OF l]) (use assms(4) in \<open>simp add: fieldCondition_means [OF assms(1,2)] list_all_iff\<close>)
  then show ?thesis using tree_holds_allOf [OF cs(1), of L e] cs(2) by (simp add: list_all_iff)
qed

lemma selectionMap_wf:
  assumes "selectionMap L Y node = Inr c" "list_all (loadable_entry Y) (node_entries (yn_Content node))"
  shows "wf_cond L (loaded_cond c)"
  using assms(1)
proof (rule selectionMap_Inr)
  fix cs assume cs: "cs \<noteq> []" "c = allOf cs"
    and l: "list_all2 (\<lambda>entry c. fieldCondition L Y (fst entry) (snd entry) = Inr c) (sort_key fst (node_entries (yn_Content node))) cs"
  have "wf_cond L (loaded_cond c)" if "entry \<in> set (sort_key fst (node_entries (yn_Content node)))"
    "fieldCondition L Y (fst entry) (snd entry) = Inr c" for entry c
    using that assms(2) fieldCondition_wf [of L Y "fst entry" "snd entry" c] by (auto simp: list_all_iff)
  then have "list_all (\<lambda>c. wf_cond L (loaded_cond c)) cs" by (rule list_all2_wf [OF l])
  then show ?thesis using wf_allOf [OF cs(1)] cs(2) by simp
qed

text \<open>A selection that loads: a list of alternatives is not empty, and every entry loads.\<close>

definition loadable_selection :: "sigma_lib \<Rightarrow> yaml_node \<Rightarrow> bool" where
  "loadable_selection Y node =
     (if yn_Kind node = SequenceNode
      then yn_Content node \<noteq> [] \<and> list_all (\<lambda>item. list_all (loadable_entry Y) (node_entries (yn_Content item))) (yn_Content node)
      else list_all (loadable_entry Y) (node_entries (yn_Content node)))"

lemma selection_items_Inr: "selection_items L Y items = Inr cs \<Longrightarrow> list_all2 (\<lambda>item c. selectionMap L Y item = Inr c) items cs"
  by (induction items arbitrary: cs) (auto simp: sum_bind_Inr split: if_splits)

lemma compileSelection_cases:
  assumes "compileSelection L Y node = Inr c"
  obtains "yn_Kind node = MappingNode" "selectionMap L Y node = Inr c"
  | cs where "yn_Kind node = SequenceNode" "c = anyOf cs" "list_all2 (\<lambda>item c. selectionMap L Y item = Inr c) (yn_Content node) cs"
  using assms selection_items_Inr [of L Y "yn_Content node"]
  by (cases "yn_Kind node") (auto simp: compileSelection_def sum_bind_Inr)

lemma compileSelection_loads:
  assumes "compileSelection L Y node = Inr c" "loadable_selection Y node"
  shows "wf_cond L (loaded_cond c)"
  using assms(1)
proof (cases rule: compileSelection_cases)
  case 1
  then show ?thesis using selectionMap_wf assms(2) by (simp add: loadable_selection_def)
next
  case (2 cs)
  have cs: "cs \<noteq> []" using assms(2) 2 by (auto simp: loadable_selection_def)
  have "wf_cond L (loaded_cond c)" if "item \<in> set (yn_Content node)" "selectionMap L Y item = Inr c" for item c
    using that selectionMap_wf [of L Y item c] assms(2) 2(1) by (simp add: loadable_selection_def list_all_iff)
  then have "list_all (\<lambda>c. wf_cond L (loaded_cond c)) cs" by (rule list_all2_wf [OF 2(3)])
  then show ?thesis using wf_anyOf [OF cs] 2(2) by simp
qed

lemma compileSelection_means:
  assumes "matches_wildcards L" "one_line e" "compileSelection L Y node = Inr c" "loadable_selection Y node"
  shows "tree_holds L c e \<longleftrightarrow> selection_means L Y e node"
  using assms(3)
proof (cases rule: compileSelection_cases)
  case 1
  then show ?thesis using selectionMap_means [OF assms(1,2)] assms(4) by (simp add: selection_means_def loadable_selection_def)
next
  case (2 cs)
  have cs: "cs \<noteq> []" using assms(4) 2 by (auto simp: loadable_selection_def)
  have "list_ex (\<lambda>c. tree_holds L c e) cs = list_ex (\<lambda>item. list_all (entry_means L Y e) (node_entries (yn_Content item))) (yn_Content node)"
    by (rule list_all2_means(2) [OF 2(3)])
      (use assms(4) 2(1) in \<open>simp add: selectionMap_means [OF assms(1,2)] loadable_selection_def list_all_iff\<close>)
  then show ?thesis using tree_holds_anyOf [OF cs, of L e] 2 by (simp add: selection_means_def)
qed

section \<open>Converted rules\<close>

definition loadable_rule :: "sigma_lib \<Rightarrow> sigmaRule \<Rightarrow> bool" where
  "loadable_rule Y rule = list_all (\<lambda>(name, node). name = ''condition'' \<or> loadable_selection Y node) (sg_Detection rule)"

definition selection_names :: "sigmaRule \<Rightarrow> string list" where
  "selection_names rule = sort (filter (\<lambda>n. n \<noteq> ''condition'') (map fst (sg_Detection rule)))"

text \<open>
  The events a Sigma rule describes: those of its category on which the expression \<open>x\<close> of the condition holds,
  where a name stands for the selection it names.
\<close>

definition sigma_means :: "go_lib \<Rightarrow> sigma_lib \<Rightarrow> sigmaRule \<Rightarrow> sigma_expr \<Rightarrow> event \<Rightarrow> bool" where
  "sigma_means L Y rule x e \<longleftrightarrow>
     map_of categoryActions (to_lower (sg_Category rule)) = Some (e_Action e) \<and>
     meaning (\<lambda>n. \<exists>node. map_of (sg_Detection rule) n = Some node \<and> selection_means L Y e node) (selection_names rule) x"

lemma compile_selections_Inr:
  "compile_selections L Y detection = Inr sels \<Longrightarrow>
   list_all2 (\<lambda>d s. fst d = fst s \<and> compileSelection L Y (snd d) = Inr (snd s)) (filter (\<lambda>d. fst d \<noteq> ''condition'') detection) sels"
proof (induction detection arbitrary: sels)
  case (Cons d detection)
  obtain name node where d: "d = (name, node)" by fastforce
  show ?case
  proof (cases "name = ''condition''")
    case True
    then show ?thesis using Cons d by simp
  next
    case False
    then obtain c where c: "compileSelection L Y node = Inr c" using Cons.prems d by (cases "compileSelection L Y node") simp_all
    then obtain rest where "compile_selections L Y detection = Inr rest" "sels = (name, c) # rest"
      using Cons.prems d False by (auto simp: sum_bind_Inr)
    then show ?thesis using Cons.IH [of rest] d False c by simp
  qed
qed simp

lemma list_all2_map_of:
  "list_all2 (\<lambda>d s. fst d = fst s \<and> R (snd d) (snd s)) ds ss \<Longrightarrow> map_of ss n = Some c \<Longrightarrow> \<exists>node. map_of ds n = Some node \<and> R node c"
  by (induction rule: list_all2_induct) (auto split: if_splits)

lemma map_of_filter_key: "n \<noteq> k \<Longrightarrow> map_of (filter (\<lambda>d. fst d \<noteq> k) ds) n = map_of ds n"
  by (induction ds) auto

lemma list_all2_fst: "list_all2 (\<lambda>d s. fst d = fst s \<and> R (snd d) (snd s)) ds ss \<Longrightarrow> map fst ss = map fst ds"
  by (induction rule: list_all2_induct) auto

lemma map_fst_filter: "map fst (filter (\<lambda>d. P (fst d)) ds) = filter P (map fst ds)"
  by (induction ds) auto

lemma meaning_cong:
  assumes "\<forall>n \<in> set names. v n = v' n"
  shows "not_expr names x ts \<Longrightarrow> meaning v names x = meaning v' names x"
    "and_terms names xs ts \<Longrightarrow> list_all (\<lambda>x. meaning v names x = meaning v' names x) xs"
    "or_terms names xs ts \<Longrightarrow> list_all (\<lambda>x. meaning v names x = meaning v' names x) xs"
  by (induction rule: not_expr_and_terms_or_terms.inducts) (use assms in \<open>auto simp: list_all_iff list_ex_iff\<close>)

text \<open>What a converted rule consists of.\<close>

lemma Convert_Inr:
  assumes "Convert L Y data = Inr doc" "sl_unmarshal Y data = Some rule"
  obtains action node expression sels c where
    "map_of categoryActions (to_lower (sg_Category rule)) = Some action"
    "map_of (sg_Detection rule) ''condition'' = Some node" "conditionExpression Y node = Inr expression"
    "compile_selections L Y (sg_Detection rule) = Inr sels"
    "parseCondition expression sels (sort (map fst sels)) = Inr c"
    "sd_Match doc = anchorToAction action c" "sd_ID doc = ruleID Y rule" "sd_Severity doc = severityFor (sg_Level rule)"
proof -
  note eq = assms(1) [unfolded Convert_def assms(2) option.case]
  obtain action where a: "map_of categoryActions (to_lower (sg_Category rule)) = Some action"
    using eq by (cases "map_of categoryActions (to_lower (sg_Category rule))") (simp_all split: if_split_asm)
  obtain c where c: "compileDetection L Y (sg_Detection rule) = Inr c" "sd_Match doc = anchorToAction action c"
      "sd_ID doc = ruleID Y rule" "sd_Severity doc = severityFor (sg_Level rule)"
    using eq by (auto simp: a sum_bind_Inr Let_def split: if_split_asm)
  obtain node where n: "map_of (sg_Detection rule) ''condition'' = Some node"
    using c(1) unfolding compileDetection_def by (cases "map_of (sg_Detection rule) ''condition''") simp_all
  obtain expression sels where e: "conditionExpression Y node = Inr expression" "compile_selections L Y (sg_Detection rule) = Inr sels"
      "(if sels = [] then Inl (SigmaError ''detection block has no selections'') else parseCondition expression sels (sort (map fst sels))) = Inr c"
    using c(1) unfolding compileDetection_def n option.case sum_bind_Inr by blast
  then have "parseCondition expression sels (sort (map fst sels)) = Inr c" by (cases "sels = []") simp_all
  then show thesis using that a n e(1,2) c(2-4) by blast
qed

text \<open>The conjuncts next to which the guard on the action is put.\<close>

definition parts :: "condDoc \<Rightarrow> condDoc list" where
  "parts c = (if isAndGroup c then cd_All c else [c])"

lemma map_Some_eq: "map (\<lambda>c. Some (g c)) xs = map Some cs \<Longrightarrow> cs = map g xs"
  by (induction xs arbitrary: cs) auto

lemma and_group_parts:
  assumes "wf_cond L (loaded_cond c)"
  shows "parts c \<noteq> []" "list_all (\<lambda>c. wf_cond L (loaded_cond c)) (parts c)"
    "tree_holds L c e \<longleftrightarrow> list_all (\<lambda>c. tree_holds L c e) (parts c)"
    "anchorToAction action c = allOf (sigma_leaf ''event.action'' ''eq'' (AStr action) # parts c)"
proof -
  show ne: "parts c \<noteq> []" by (simp add: parts_def isAndGroup_def)
  obtain d ds where d: "parts c = d # ds" using ne by (cases "parts c") auto
  show "anchorToAction action c = allOf (sigma_leaf ''event.action'' ''eq'' (AStr action) # parts c)"
    unfolding d by (cases "isAndGroup c") (use d in \<open>simp_all add: anchorToAction_def parts_def allOf_def Let_def\<close>)
  obtain alls anys inner f op v where c: "c = CondDoc alls anys inner f op v" by (cases c)
  have group: "list_all (\<lambda>c. wf_cond L (loaded_cond c)) alls \<and> op = []" if "alls \<noteq> []"
    using assms that unfolding c
    by (cases rule: wf_cond.cases) (auto simp: list_all_iff dest!: map_Some_eq)
  show "list_all (\<lambda>c. wf_cond L (loaded_cond c)) (parts c)"
    using group assms by (auto simp: c parts_def isAndGroup_def)
  show "tree_holds L c e \<longleftrightarrow> list_all (\<lambda>c. tree_holds L c e) (parts c)"
    by (auto simp: c parts_def isAndGroup_def list_all_iff)
qed

lemma anchor_loads:
  assumes "wf_cond L (loaded_cond c)"
  shows "wf_cond L (loaded_cond (anchorToAction action c))"
    "action \<noteq> [] \<Longrightarrow> tree_holds L (anchorToAction action c) e \<longleftrightarrow> e_Action e = action \<and> tree_holds L c e"
proof -
  let ?g = "sigma_leaf ''event.action'' ''eq'' (AStr action)"
  have field: "Field e ''event.action'' = str_present (e_Action e)" by (simp add: Field_def fieldAccessors_def)
  have g: "wf_cond L (loaded_cond ?g)" "action \<noteq> [] \<Longrightarrow> tree_holds L ?g e \<longleftrightarrow> e_Action e = action"
    by (auto simp: sigma_leaf_def leaf_ok_def KnownField_def fieldAccessors_def leaf_holds_def field str_present_def valuesEqual_def
        toString_def intro!: wf_leaf)
  show "wf_cond L (loaded_cond (anchorToAction action c))"
    "action \<noteq> [] \<Longrightarrow> tree_holds L (anchorToAction action c) e \<longleftrightarrow> e_Action e = action \<and> tree_holds L c e"
    using and_group_parts [OF assms] g wf_allOf [of "?g # parts c" L] tree_holds_allOf [of "?g # parts c" L e] by auto
qed

lemma category_action: "map_of categoryActions n = Some action \<Longrightarrow> action \<noteq> []"
proof -
  assume "map_of categoryActions n = Some action"
  then have "action \<in> set (map snd categoryActions)" by (force dest: map_of_SomeD)
  moreover have "list_all (\<lambda>a. a \<noteq> []) (map snd categoryActions)" by (simp add: categoryActions_def)
  ultimately show ?thesis unfolding list_all_iff by blast
qed

lemma severityFor_known: "\<exists>s. ParseSeverity (severityFor level) = Some s"
proof -
  have "severityFor level \<in> set (''medium'' # map snd levelSeverities)"
    by (cases "map_of levelSeverities (to_lower level)") (force simp: severityFor_def dest: map_of_SomeD)+
  moreover have "list_all (\<lambda>n. ParseSeverity n \<noteq> None) (''medium'' # map snd levelSeverities)"
    by (simp add: levelSeverities_def ParseSeverity_def severityNames_def)
  ultimately show ?thesis unfolding list_all_iff by blast
qed

lemma ruleID_nonempty: "ruleID Y rule \<noteq> []"
  by (simp add: ruleID_def Let_def)

lemma converted_tree:
  assumes "Convert L Y data = Inr doc" "sl_unmarshal Y data = Some rule" "loadable_rule Y rule"
    "map_of (sg_Detection rule) ''condition'' = Some node" "conditionExpression Y node = Inr expression"
  shows "wf_cond L (loaded_cond (sd_Match doc))"
    "\<exists>xs. or_terms (selection_names rule) xs (tokenize expression)"
    "matches_wildcards L \<Longrightarrow> one_line e \<Longrightarrow> or_terms (selection_names rule) xs (tokenize expression) \<Longrightarrow>
       tree_holds L (sd_Match doc) e \<longleftrightarrow> sigma_means L Y rule (SOr xs) e"
proof -
  obtain action sels c where a: "map_of categoryActions (to_lower (sg_Category rule)) = Some action"
    and cs: "compile_selections L Y (sg_Detection rule) = Inr sels"
    and pc: "parseCondition expression sels (sort (map fst sels)) = Inr c" and m: "sd_Match doc = anchorToAction action c"
    using Convert_Inr [OF assms(1,2)] assms(4,5) by (metis Inr_inject option.inject)
  let ?R = "\<lambda>d s. fst d = fst s \<and> compileSelection L Y (snd d) = Inr (snd s)"
  have l: "list_all2 ?R (filter (\<lambda>d. fst d \<noteq> ''condition'') (sg_Detection rule)) sels" by (rule compile_selections_Inr [OF cs])
  have names: "sort (map fst sels) = selection_names rule"
    unfolding selection_names_def
    by (rule arg_cong [of _ _ sort], rule trans [OF list_all2_fst [OF l] map_fst_filter])
  have load: "loadable_selection Y n" if "d \<in> set (filter (\<lambda>d. fst d \<noteq> ''condition'') (sg_Detection rule))" "snd d = n" for d n
    using assms(3) that by (auto simp: loadable_rule_def list_all_iff)
  have "list_all (\<lambda>s. wf_cond L (loaded_cond (snd s))) sels"
    by (rule list_all2_wf [OF l]) (use load compileSelection_loads in blast)
  then have sels: "\<forall>c \<in> snd ` set sels. wf_cond L (loaded_cond c)" by (simp add: list_all_iff)
  have set_names: "set (selection_names rule) = fst ` set sels" using names by (metis set_sort set_map)
  obtain xs0 where xs0: "or_terms (selection_names rule) xs0 (tokenize expression)" "c = tree_of sels (selection_names rule) (SOr xs0)"
    using parseCondition_sound [OF pc [unfolded names] set_names] by blast
  then show "\<exists>xs. or_terms (selection_names rule) xs (tokenize expression)" by blast
  have wf: "wf_cond L (loaded_cond c)"
    using tree_wf(1) [OF sels set_names parens [OF xs0(1)]] xs0(2) by simp
  then show "wf_cond L (loaded_cond (sd_Match doc))" using anchor_loads(1) m by simp
  assume w: "matches_wildcards L" "one_line e" and xs: "or_terms (selection_names rule) xs (tokenize expression)"
  have c: "c = tree_of sels (selection_names rule) (SOr xs)"
    using parseCondition_complete [OF set_names xs] pc names by simp
  have v: "tree_holds L (the (map_of sels n)) e = (\<exists>node. map_of (sg_Detection rule) n = Some node \<and> selection_means L Y e node)"
    if n: "n \<in> set (selection_names rule)" for n
  proof -
    obtain d where d: "map_of sels n = Some d" using n set_names by (metis map_of_eq_None_iff not_Some_eq)
    obtain nd where nd: "map_of (filter (\<lambda>d. fst d \<noteq> ''condition'') (sg_Detection rule)) n = Some nd" "compileSelection L Y nd = Inr d"
      using list_all2_map_of [OF l d] by blast
    have "loadable_selection Y nd" using load [OF map_of_SomeD [OF nd(1)]] by simp
    moreover have "map_of (sg_Detection rule) n = Some nd"
      by (rule trans [OF map_of_filter_key [symmetric] nd(1)]) (use n in \<open>simp add: selection_names_def\<close>)
    ultimately show ?thesis using compileSelection_means [OF w nd(2)] d by simp
  qed
  have "tree_holds L c e = meaning (\<lambda>n. tree_holds L (the (map_of sels n)) e) (selection_names rule) (SOr xs)"
    unfolding c by (rule tree_means(1) [OF parens [OF xs]])
  also have "\<dots> = meaning (\<lambda>n. \<exists>node. map_of (sg_Detection rule) n = Some node \<and> selection_means L Y e node) (selection_names rule) (SOr xs)"
    by (rule meaning_cong(1) [OF _ parens [OF xs]]) (use v in blast)
  finally show "tree_holds L (sd_Match doc) e \<longleftrightarrow> sigma_means L Y rule (SOr xs) e"
    using anchor_loads(2) [OF wf category_action [OF a], of e] a by (auto simp: m sigma_means_def)
qed

lemma converted_compiles:
  assumes "Convert L Y data = Inr doc" "sl_unmarshal Y data = Some rule" "loadable_rule Y rule"
  obtains r where "compileRule L (loaded_doc doc) = Inr r" "r_eval r = holds L (loaded_cond (sd_Match doc))" "r_Enabled r" "r_ID r = sd_ID doc"
proof -
  obtain sev where "ParseSeverity (sd_Severity doc) = Some sev"
    using Convert_Inr [OF assms(1,2)] severityFor_known by metis
  moreover have "sd_ID doc \<noteq> []" using Convert_Inr [OF assms(1,2)] by (metis ruleID_nonempty)
  moreover have "wf_cond L (loaded_cond (sd_Match doc))" using Convert_Inr [OF assms(1,2)] converted_tree(1) [OF assms] by metis
  ultimately show thesis using that unfolding compileRule_Inr by (auto simp: loaded_doc_def)
qed

text \<open>
  What the YAML library is relied on for: a rule document whose operands are texts, truth values, whole numbers or
  nothing comes back as \<open>loaded_doc\<close> says. The parameter \<open>reload\<close> is the encoding of a document in the bundle
  followed by the rule loader's decoding; nothing is assumed of it on other documents.
\<close>

fun plain_match :: "condDoc \<Rightarrow> bool" where
  "plain_match (CondDoc alls anys inner f op v) \<longleftrightarrow>
     (\<forall>c \<in> set alls. plain_match c) \<and> (\<forall>c \<in> set anys. plain_match c) \<and>
     (case inner of None \<Rightarrow> True | Some c \<Rightarrow> plain_match c) \<and>
     (case v of ANil \<Rightarrow> True | AStr s \<Rightarrow> True | ABool b \<Rightarrow> True | AInt i \<Rightarrow> in_int64 i | _ \<Rightarrow> False)"

definition bundle_keeps :: "(sigma_doc \<Rightarrow> ruleYAML option) \<Rightarrow> bool" where
  "bundle_keeps reload \<longleftrightarrow> (\<forall>doc. plain_match (sd_Match doc) \<longrightarrow> reload doc = Some (loaded_doc doc))"

text \<open>
  C27. A Sigma rule becomes the rule it is. When a Sigma rule converts, its condition is an expression of the
  grammar over its selections; and if its texts are ASCII, its ordering comparisons are with numbers, no list of
  alternatives is empty and the operands of the document are ones the YAML library keeps, then the document in the
  bundle loads and compiles, and on every event of one-line ASCII texts the compiled rule fires exactly on the
  events the Sigma rule describes: those of its category on which the condition holds over its selections, with
  wildcards in their meaning as patterns. Regular expressions must match wildcard translations as patterns.
\<close>

theorem sigma_rule_fires:
  assumes "Convert L Y data = Inr doc" "sl_unmarshal Y data = Some rule" "loadable_rule Y rule"
    and "plain_match (sd_Match doc)" "bundle_keeps reload" "matches_wildcards L"
  shows "\<exists>node expression.
    map_of (sg_Detection rule) ''condition'' = Some node \<and> conditionExpression Y node = Inr expression \<and>
    (\<exists>xs. or_terms (selection_names rule) xs (tokenize expression)) \<and>
    (\<exists>d r. reload doc = Some d \<and> compileRule L d = Inr r \<and>
      (\<forall>xs e. or_terms (selection_names rule) xs (tokenize expression) \<longrightarrow> one_line e \<longrightarrow>
         Matches r e = sigma_means L Y rule (SOr xs) e))"
proof -
  obtain node expression where n: "map_of (sg_Detection rule) ''condition'' = Some node" "conditionExpression Y node = Inr expression"
    using Convert_Inr [OF assms(1,2)] by metis
  have d: "reload doc = Some (loaded_doc doc)"
    using assms(4,5) by (simp add: bundle_keeps_def)
  obtain r where r: "compileRule L (loaded_doc doc) = Inr r" "r_eval r = holds L (loaded_cond (sd_Match doc))" "r_Enabled r"
    using converted_compiles [OF assms(1-3)] by metis
  have "Matches r e = sigma_means L Y rule (SOr xs) e"
    if "or_terms (selection_names rule) xs (tokenize expression)" "one_line e" for xs e
    using converted_tree(3) [OF assms(1-3) n assms(6) that(2,1)] r(2,3) by (simp only: Matches_def simp_thms)
  then have "\<exists>d r. reload doc = Some d \<and> compileRule L d = Inr r \<and>
      (\<forall>xs e. or_terms (selection_names rule) xs (tokenize expression) \<longrightarrow> one_line e \<longrightarrow>
         Matches r e = sigma_means L Y rule (SOr xs) e)"
    using d r(1) by blast
  then show ?thesis
    by (intro exI [of _ node] exI [of _ expression] conjI n converted_tree(2) [OF assms(1-3) n])
qed

text \<open>A library whose regular expressions are the translations of wildcard patterns.\<close>

fun unwild :: "string \<Rightarrow> string" where
  "unwild [] = []"
| "unwild [c] = (if c = CHR ''.'' then ''?'' else if c = CHR ''$'' then [] else [c])"
| "unwild (c # d # cs) =
     (if c = CHR 0x5C then d # unwild cs
      else if c = CHR ''.'' then (if d = CHR ''*'' then CHR ''*'' # unwild cs else CHR ''?'' # unwild (d # cs))
      else c # unwild (d # cs))"

definition glob_lib :: go_lib where
  "glob_lib = literal_lib\<lparr>regexp_compile := \<lambda>r. Some (glob (unwild (tl r)))\<rparr>"

lemma wildcard_body_ends: "\<exists>d ds. wildcard_body p @ ''$'' = d # ds \<and> d \<noteq> CHR ''*''"
  by (cases p) (auto simp: metacharacters_def)

lemma unwild_body: "unwild (wildcard_body p @ ''$'') = p"
proof (induction p)
  case (Cons c p)
  obtain d ds where d: "wildcard_body p @ ''$'' = d # ds" "d \<noteq> CHR ''*''"
    using wildcard_body_ends by blast
  define rest where "rest = wildcard_body p @ ''$''"
  have "unwild rest = p" "rest = d # ds"
    using Cons d by (simp_all add: rest_def)
  then show ?case
    using d(2) unfolding wildcard_body.simps append_assoc rest_def [symmetric]
    by (auto simp: metacharacters_def)
qed simp

lemma glob_lib_matches: "matches_wildcards glob_lib"
  by (simp add: matches_wildcards_def glob_lib_def wildcardToRegex_def unwild_body)

definition scalar_node :: "string \<Rightarrow> yaml_node" where
  "scalar_node s = YNode ScalarNode ''!!str'' s []"

definition sample_sigma :: sigmaRule where
  "sample_sigma = \<lparr>sg_Title = ''Script in tmp'', sg_ID = ''0a1b2c3d-0000'', sg_Description = [], sg_Level = ''high'', sg_Tags = [],
     sg_Category = ''process_creation'', sg_Product = ''linux'',
     sg_Detection = [(''sel'', YNode MappingNode ''!!map'' [] [scalar_node ''Image'', scalar_node ''/tmp/*.sh'']),
       (''condition'', scalar_node ''sel'')]\<rparr>"

definition sample_sigma_lib :: sigma_lib where
  "sample_sigma_lib = \<lparr>sl_unmarshal = (\<lambda>_. Some sample_sigma), sl_any = (\<lambda>n. Some (AStr (yn_Value n))),
     sl_string = (\<lambda>n. Some (yn_Value n)), sl_strings = (\<lambda>_. None), sl_sha1 = (\<lambda>_. [])\<rparr>"

definition sample_bundle :: "sigma_doc \<Rightarrow> ruleYAML option" where
  "sample_bundle doc = (if plain_match (sd_Match doc) then Some (loaded_doc doc) else None)"

lemma sample_converts:
  "\<exists>doc. Convert glob_lib sample_sigma_lib ''rule'' = Inr doc \<and> plain_match (sd_Match doc)"
proof -
  have "case Convert glob_lib sample_sigma_lib ''rule'' of Inl _ \<Rightarrow> False | Inr doc \<Rightarrow> plain_match (sd_Match doc)"
    by code_simp
  then show ?thesis
    by (auto split: sum.splits)
qed

lemma sample_loadable: "loadable_rule sample_sigma_lib sample_sigma"
  by code_simp

theorem sigma_rule_fires_witness:
  "\<exists>doc d r xs. Convert glob_lib sample_sigma_lib ''rule'' = Inr doc \<and> sample_bundle doc = Some d \<and> compileRule glob_lib d = Inr r \<and>
     or_terms [''sel''] xs (tokenize ''sel'') \<and>
     (\<forall>e. one_line e \<longrightarrow> Matches r e = sigma_means glob_lib sample_sigma_lib sample_sigma (SOr xs) e)"
proof -
  obtain doc where doc: "Convert glob_lib sample_sigma_lib ''rule'' = Inr doc" "plain_match (sd_Match doc)"
    using sample_converts by blast
  have lib: "sl_unmarshal sample_sigma_lib ''rule'' = Some sample_sigma" "bundle_keeps sample_bundle"
    by (simp_all add: sample_sigma_lib_def bundle_keeps_def sample_bundle_def)
  have names: "selection_names sample_sigma = [''sel'']"
    by code_simp
  have cond: "map_of (sg_Detection sample_sigma) ''condition'' = Some (scalar_node ''sel'')"
    "conditionExpression sample_sigma_lib (scalar_node ''sel'') = Inr ''sel''"
    by (simp_all add: sample_sigma_def conditionExpression_def sample_sigma_lib_def scalar_node_def)
  show ?thesis
    using sigma_rule_fires [OF doc(1) lib(1) sample_loadable doc(2) lib(2) glob_lib_matches]
    unfolding names cond option.inject using doc(1) cond by auto
qed

text \<open>
  Not every rule that converts loads. An ordering comparison with a text passes the importer, which checks only
  regular expressions and address ranges, and the rule loader refuses the document; and so it is with an empty list
  of alternatives. As the loader takes a directory as a whole, such a rule keeps every other rule of the bundle from
  loading.
\<close>

definition text_comparison :: sigmaRule where
  "text_comparison = sample_sigma\<lparr>sg_Detection := [(''sel'', YNode MappingNode ''!!map'' []
     [scalar_node ''DestinationPort|gt'', scalar_node ''high'']), (''condition'', scalar_node ''sel'')]\<rparr>"

definition no_alternatives :: sigmaRule where
  "no_alternatives = sample_sigma\<lparr>sg_Detection := [(''sel'', YNode SequenceNode ''!!seq'' [] []),
     (''condition'', scalar_node ''sel'')]\<rparr>"

definition converts_unloadable :: "sigmaRule \<Rightarrow> bool" where
  "converts_unloadable rule = (case Convert glob_lib (sample_sigma_lib\<lparr>sl_unmarshal := \<lambda>_. Some rule\<rparr>) ''rule'' of
     Inl _ \<Rightarrow> False
   | Inr doc \<Rightarrow> (case compileRule glob_lib (loaded_doc doc) of Inl _ \<Rightarrow> True | Inr _ \<Rightarrow> False))"

theorem converted_rule_refused: "converts_unloadable text_comparison" "converts_unloadable no_alternatives"
  by code_simp+

end
