(* ===== verification/Spec2Isabelle.thy ===== *)
theory Spec2Isabelle
  imports Detect_Content Decode Pipeline Anomaly Event_Bus Hunt_Print Hunt_Rule Fleet_Sync Admin_Open Sigma_Convert
begin

text \<open>
  \<^bold>\<open>Argus EDR.\<close> This library models and verifies Argus, an endpoint detection and response system written in Go:
  an agent that turns kernel telemetry into alerts, incidents and responses, and a control plane that enrols
  agents, serves them rules, queues commands for them and keeps alerts, cases, playbooks and an audit log.
  Paths below are relative to the repository's source tree.

  \<^bold>\<open>The parts and how they interact.\<close> On the agent, a sensor delivers binary records
  (\<^verbatim>\<open>internal/decode\<close>), which become events (\<^verbatim>\<open>internal/model\<close>). The pipeline (\<^verbatim>\<open>internal/pipeline\<close>) enriches each
  event (\<^verbatim>\<open>internal/enrich\<close>, with YARA from \<^verbatim>\<open>internal/yara\<close>), scores it (\<^verbatim>\<open>internal/anomaly\<close>), evaluates the rules
  and the correlator (\<^verbatim>\<open>internal/detect\<close>), responds (\<^verbatim>\<open>internal/respond\<close>) and writes events, alerts and incidents to
  the sinks (\<^verbatim>\<open>internal/output\<close>) and the event lake (\<^verbatim>\<open>internal/eventstore\<close>), over which analysts hunt
  (\<^verbatim>\<open>internal/hunt\<close>). Rules can be imported from Sigma (\<^verbatim>\<open>internal/sigma\<close>). The fleet client (\<^verbatim>\<open>internal/fleet\<close>,
  \<^verbatim>\<open>cmd/argus/fleet.go\<close>) reports alerts and obeys the control plane: the service (\<^verbatim>\<open>server/api\<close>) over the store
  (\<^verbatim>\<open>server/store\<close>), the rule bundle (\<^verbatim>\<open>server/ruleset\<close>, \<^verbatim>\<open>internal/policy\<close>) and the cross-host correlator
  (\<^verbatim>\<open>server/correlate\<close>). Operators use the admin API (\<^verbatim>\<open>cmd/argus-server\<close>) with cases (\<^verbatim>\<open>server/cases\<close>) and
  playbooks (\<^verbatim>\<open>server/soar\<close>).

  \<^bold>\<open>Conventions.\<close> A definition has the name of the Go function, method or type it models, with a prefix where
  two packages share a name. A struct is a record, an interface value of the rule language is \<open>any\<close>, a Go map is
  an association list with distinct keys, a Go \<open>int\<close> is an \<^typ>\<open>int\<close> with the wrap-around written out (\<open>to_int64\<close>),
  an unsigned integer is a word of its width, an instant is its nanoseconds since the epoch. A panic and an
  error are values. A mutex makes each operation one step, so a concurrent execution is a sequence of
  operations; a goroutine that loops is the fold of its round over what it receives. Where the code holds no lock
  across an operation (\<open>Publish\<close>, \<open>authorizeIdentity\<close>) or starts a goroutine for a part of it (\<open>recordAlert\<close>), the
  model still takes one step; the theories say so. A \<open>float64\<close> is a real number, rounded where an integer becomes one
  (\<open>float64_of_int\<close>) and exact elsewhere. What is not in the
  repository is an argument: regular expressions and floating-point text (\<open>go_lib\<close>), YAML and JSON decoding,
  SHA-256, HMAC, Ed25519, base64, the clock, random bytes, the file system, \<^verbatim>\<open>/proc\<close>, the certificate authority. What a
  theorem needs of such code is a hypothesis of its own: \<open>yaml_keeps\<close> and \<open>bundle_keeps\<close> (a rule written as YAML and read
  again has its operands), \<open>matches_wildcards\<close> (regular expressions made of wildcard patterns), the readings of two
  JSON bodies.

  \<^bold>\<open>The theories.\<close>
  \<^item> \<open>Argus_Prelude\<close>: machine integers, time, strings, maps, dynamic values, and the lemma collections \<open>go_str\<close>,
    \<open>go_int\<close>, \<open>go_map\<close>. \<open>Go_Net\<close>: addresses and networks of Go's \<^verbatim>\<open>net\<close> package.
  \<^item> \<open>Event_Model\<close> (\<^verbatim>\<open>internal/model\<close>): events, alerts, incidents, field access.
  \<^item> \<open>Detect_Condition\<close> (\<^verbatim>\<open>condition.go\<close>, \<^verbatim>\<open>operators.go\<close>): the condition compiler accepts exactly the well-formed
    trees and its predicate decides their meaning. \<open>Detect_Correlate\<close> (\<^verbatim>\<open>correlate.go\<close>): the bounded correlator
    refines a reference machine that forgets nothing. \<open>Detect_Engine\<close> (\<^verbatim>\<open>rule.go\<close>, \<^verbatim>\<open>loader.go\<close>, \<^verbatim>\<open>engine.go\<close>): what
    loads and which alerts an event raises. \<open>Detect_Content\<close> (\<^verbatim>\<open>test_harness.go\<close>, \<^verbatim>\<open>pack.go\<close>): rule tests and packs.
  \<^item> \<open>Decode\<close> (\<^verbatim>\<open>internal/decode/wire.go\<close>): decoding inverts the layout of \<^verbatim>\<open>bpf/common.h\<close>, shown on the records of
    the exec sensor of \<^verbatim>\<open>bpf/edr.bpf.c\<close>.
  \<^item> \<open>Yara\<close> (\<^verbatim>\<open>internal/yara\<close>): scanner against a relational meaning of patterns; the parser returns, with the inputs
    on which it panics.
  \<^item> \<open>Enrich\<close> (\<^verbatim>\<open>internal/enrich\<close>): process tree and caches; enrichment keeps what the sensor reported, fills
    blanks, and takes the lineage from the tree.
  \<^item> \<open>Respond\<close> (\<^verbatim>\<open>internal/respond\<close>): when the responder acts, the posture ceiling, the blocker, self-protection.
  \<^item> \<open>Anomaly\<close> (\<^verbatim>\<open>internal/anomaly\<close>): features, rarity, isolation forest; scores lie in the unit interval.
  \<^item> \<open>Event_Bus\<close> (\<^verbatim>\<open>internal/bus\<close>): every event is delivered in order or counted as dropped.
  \<^item> \<open>Event_Store\<close> (\<^verbatim>\<open>internal/eventstore\<close>): the lake and its query.
  \<^item> \<open>Pipeline\<close> (\<^verbatim>\<open>internal/pipeline\<close>, \<^verbatim>\<open>internal/output/sink.go\<close>): the composition on the agent; what is
    written and counted is what the engine detects.
  \<^item> \<open>Hunt_Parse\<close>, \<open>Hunt\<close>, \<open>Hunt_Print\<close>, \<open>Hunt_Rule\<close> (\<^verbatim>\<open>internal/hunt\<close>): the language ARQL, its evaluation over the lake,
    a printer that the parser inverts, and the rules that hunts become.
  \<^item> \<open>Sigma\<close>, \<open>Sigma_Grammar\<close>, \<open>Sigma_Meaning\<close>, \<open>Sigma_Convert\<close> (\<^verbatim>\<open>internal/sigma\<close>, \<^verbatim>\<open>cmd/argus/sigma.go\<close>): the importer of
    Sigma rules, the grammar its condition parser decides, the meaning of selections and wildcards, and that a
    converted rule fires on the events the Sigma rule describes.
  \<^item> \<open>Fleet_Store\<close> (\<^verbatim>\<open>server/store\<close>), \<open>Cross_Host\<close> (\<^verbatim>\<open>server/correlate\<close>), \<open>Ruleset\<close> (\<^verbatim>\<open>server/ruleset\<close>, \<^verbatim>\<open>internal/policy\<close>),
    \<open>Fleet_Api\<close> (\<^verbatim>\<open>server/api\<close>), \<open>Fleet_Agent\<close> (\<^verbatim>\<open>internal/fleet\<close>, \<^verbatim>\<open>cmd/argus/fleet.go\<close>) and \<open>Fleet_Sync\<close>, which composes
    the last three: what the server validated is what agents run, and what can keep it from arriving.
  \<^item> \<open>Case_Store\<close> (\<^verbatim>\<open>server/cases\<close>), \<open>Soar\<close> (\<^verbatim>\<open>server/soar\<close>), \<open>Audit_Log\<close> (\<^verbatim>\<open>audit.go\<close>), \<open>Authz\<close> (\<^verbatim>\<open>authz.go\<close>), \<open>Admin\<close>
    (\<^verbatim>\<open>admin.go\<close>, \<^verbatim>\<open>soar.go\<close>, \<^verbatim>\<open>investigate.go\<close>, \<^verbatim>\<open>hunt.go\<close>, \<^verbatim>\<open>stream.go\<close> of \<^verbatim>\<open>cmd/argus-server\<close>), \<open>Admin_Safety\<close> and
    \<open>Admin_Open\<close>: who may change what through the admin API, what is audited, what playbooks do, and what is
    possible without a token.

  \<^bold>\<open>Interfaces.\<close> Locales state the contracts between components, each interpreted on the model: \<open>memo_cache\<close> (the
  caches of the enricher), \<open>event_lake\<close> (the store that hunts query), \<open>event_scorer\<close> (what the pipeline needs of a
  scorer), \<open>command_queue\<close> (what the service and the agents rely on in the store), \<open>playbook_platform\<close> (what the
  playbook engine relies on, interpreted by the server's stores).

  \<^bold>\<open>Bounds and fuel.\<close> The parsers of YARA, ARQL and Sigma conditions recurse on fuel taken from the length of the
  input; that it never runs out is proved (\<open>yara_Compile_returns\<close>, \<open>hunt_parse_total\<close>, \<open>parseCondition_no_fuel\<close>). Every other loop recurses on the
  data. Numeric bounds of the code (queue lengths, table sizes, limits) are kept as constants of the model.

  \<^bold>\<open>Not modelled.\<close> The SQLite backends of the store and of the lake build SQL text for a database engine; the
  kernel sensors are eBPF programs and ETW clients, of which only the exec sensor's record appears; certificates, TLS, gRPC stubs and notification channels are calls of
  other packages, and appear as arguments. The configuration, the counters and their exposition format, the ECS and
  OCSF renderings, the read-only console views (entity graph, timeline, triage text, ATT\&CK layer, live stream), the
  Markdown report of a case, logging and the command-line wiring change no state that the theorems are about.
\<close>

end
